(* ===== verification/Aseman_Prelude.thy ===== *)
theory Aseman_Prelude
  imports Main "HOL-Library.Word" "HOL-Library.Char_ord" "HOL-Library.List_Lexorder"
begin

text \<open>
  The vocabulary every component of the development shares: results of fallible code,
  the machine integers of the source (\<open>u8\<close> to \<open>u64\<close> as words, \<open>i64\<close> as a type of its own
  with the signed order), the checked, saturating and wrapping operations the code calls
  on them, and the parts of the standard library's strings the code uses (byte strings,
  \<open>split\<close>, \<open>trim\<close>, \<open>strip_prefix\<close>, ASCII classes and decimal \<open>Display\<close>).
\<close>

named_theorems result_simps \<open>equations that read a result of \<open>and_then\<close> or \<open>ok_or\<close>\<close>
named_theorems i64_simps \<open>equations that move a statement about \<open>i64\<close> to \<open>int\<close>\<close>

section \<open>Results\<close>

text \<open>
  \<open>Result<T, E>\<close> is \<open>'e + 'a\<close>. \<open>and_then\<close> is the \<open>?\<close> operator: the error returns at once.
\<close>

type_synonym ('a, 'e) result = "'e + 'a"

abbreviation Ok :: "'a \<Rightarrow> ('a, 'e) result" where
  "Ok \<equiv> Inr"

abbreviation Err :: "'e \<Rightarrow> ('a, 'e) result" where
  "Err \<equiv> Inl"

fun is_ok :: "('a, 'e) result \<Rightarrow> bool" where
  "is_ok (Inr _) = True"
| "is_ok (Inl _) = False"

fun and_then :: "('a, 'e) result \<Rightarrow> ('a \<Rightarrow> ('b, 'e) result) \<Rightarrow> ('b, 'e) result" where
  "and_then (Inl e) f = Inl e"
| "and_then (Inr x) f = f x"

fun ok_or :: "'e \<Rightarrow> 'a option \<Rightarrow> ('a, 'e) result" where
  "ok_or e None = Inl e"
| "ok_or e (Some x) = Inr x"

fun map_err :: "('e \<Rightarrow> 'f) \<Rightarrow> ('a, 'e) result \<Rightarrow> ('a, 'f) result" where
  "map_err g (Inl e) = Inl (g e)"
| "map_err g (Inr x) = Inr x"

lemma and_then_eq_Ok [result_simps]:
  "and_then m f = Inr y \<longleftrightarrow> (\<exists>x. m = Inr x \<and> f x = Inr y)"
  by (cases m) auto

lemma and_then_eq_Err [result_simps]:
  "and_then m f = Inl e \<longleftrightarrow> m = Inl e \<or> (\<exists>x. m = Inr x \<and> f x = Inl e)"
  by (cases m) auto

lemma ok_or_eq_Ok [result_simps]: "ok_or e r = Inr x \<longleftrightarrow> r = Some x"
  by (cases r) auto

lemma ok_or_eq_Err [result_simps]: "ok_or e r = Inl d \<longleftrightarrow> r = None \<and> d = e"
  by (cases r) auto

lemma map_err_eq_Ok [result_simps]: "map_err g m = Inr x \<longleftrightarrow> m = Inr x"
  by (cases m) auto

lemma map_err_eq_Err [result_simps]: "map_err g m = Inl d \<longleftrightarrow> (\<exists>e. m = Inl e \<and> d = g e)"
  by (cases m) auto

lemma is_ok_iff: "is_ok m \<longleftrightarrow> (\<exists>x. m = Inr x)"
  by (cases m) auto

text \<open>\<open>Option::is_some_and\<close> and \<open>Option::is_none_or\<close>.\<close>

fun is_some_and :: "('a \<Rightarrow> bool) \<Rightarrow> 'a option \<Rightarrow> bool" where
  "is_some_and p None = False"
| "is_some_and p (Some x) = p x"

fun is_none_or :: "('a \<Rightarrow> bool) \<Rightarrow> 'a option \<Rightarrow> bool" where
  "is_none_or p None = True"
| "is_none_or p (Some x) = p x"

lemma is_some_and_iff: "is_some_and p r \<longleftrightarrow> (\<exists>x. r = Some x \<and> p x)"
  by (cases r) auto

lemma is_none_or_iff: "is_none_or p r \<longleftrightarrow> (\<forall>x. r = Some x \<longrightarrow> p x)"
  by (cases r) auto

text \<open>Collecting the results of a call for each element, and calling for each until one fails.\<close>

fun collect :: "('a \<Rightarrow> ('b, 'e) result) \<Rightarrow> 'a list \<Rightarrow> ('b list, 'e) result" where
  "collect f [] = Ok []"
| "collect f (x # xs) = and_then (f x) (\<lambda>y. and_then (collect f xs) (\<lambda>ys. Ok (y # ys)))"

lemma collect_map:
  "(\<And>x. x \<in> set xs \<Longrightarrow> f x = Ok (g x)) \<Longrightarrow> collect f xs = Ok (map g xs)"
  by (induction xs) auto

lemma collect_eq_Ok: "collect f xs = Ok ys \<longleftrightarrow> list_all2 (\<lambda>x y. f x = Ok y) xs ys"
  by (induction xs arbitrary: ys) (auto simp: result_simps list_all2_Cons1)

lemma collect_cong:
  "xs = ys \<Longrightarrow> (\<And>x. x \<in> set ys \<Longrightarrow> f x = g x) \<Longrightarrow> collect f xs = collect g ys"
proof (induction ys arbitrary: xs)
  case (Cons y ys)
  then have "collect f ys = collect g ys" and "f y = g y" by auto
  with Cons.prems(1) show ?case by simp
qed simp

fun try_each :: "('a \<Rightarrow> (unit, 'e) result) \<Rightarrow> 'a list \<Rightarrow> (unit, 'e) result" where
  "try_each f [] = Ok ()"
| "try_each f (x # xs) = and_then (f x) (\<lambda>_. try_each f xs)"

lemma try_each_eq_Ok [result_simps]: "try_each f xs = Ok () \<longleftrightarrow> (\<forall>x \<in> set xs. f x = Ok ())"
  by (induction xs) (auto simp: and_then_eq_Ok)

lemma try_each_cong:
  "xs = ys \<Longrightarrow> (\<And>x. x \<in> set ys \<Longrightarrow> f x = g x) \<Longrightarrow> try_each f xs = try_each g ys"
  by (induction ys arbitrary: xs) auto

lemma and_then_cong:
  "m = n \<Longrightarrow> (\<And>x. n = Ok x \<Longrightarrow> f x = g x) \<Longrightarrow> and_then m f = and_then n g"
  by (cases n) auto

section \<open>Unsigned integers\<close>

type_synonym u8 = "8 word"
type_synonym u16 = "16 word"
type_synonym u32 = "32 word"
type_synonym u64 = "64 word"
type_synonym uuid = "128 word"

definition checked_add :: "'a::len word \<Rightarrow> 'a word \<Rightarrow> 'a word option" where
  "checked_add x y = (if uint x + uint y < 2 ^ LENGTH('a) then Some (x + y) else None)"

definition checked_sub :: "'a::len word \<Rightarrow> 'a word \<Rightarrow> 'a word option" where
  "checked_sub x y = (if y \<le> x then Some (x - y) else None)"

definition checked_mul :: "'a::len word \<Rightarrow> 'a word \<Rightarrow> 'a word option" where
  "checked_mul x y = (if uint x * uint y < 2 ^ LENGTH('a) then Some (x * y) else None)"

definition saturating_add :: "'a::len word \<Rightarrow> 'a word \<Rightarrow> 'a word" where
  "saturating_add x y = (if uint x + uint y < 2 ^ LENGTH('a) then x + y else - 1)"

definition div_ceil :: "'a::len word \<Rightarrow> 'a word \<Rightarrow> 'a word" where
  "div_ceil x y = (if x mod y > 0 then x div y + 1 else x div y)"

lemma checked_add_Some_iff:
  "checked_add (x :: 'a::len word) y = Some z \<longleftrightarrow> uint z = uint x + uint y"
proof
  assume "checked_add x y = Some z"
  then show "uint z = uint x + uint y"
    by (auto simp: checked_add_def uint_word_ariths split: if_splits)
next
  assume z: "uint z = uint x + uint y"
  then have "uint x + uint y < 2 ^ LENGTH('a)" by (metis uint_bounded)
  moreover from z have "z = x + y" by (metis word_add_def word_of_int_uint)
  ultimately show "checked_add x y = Some z" by (simp add: checked_add_def)
qed

lemma checked_mul_Some_iff:
  "checked_mul (x :: 'a::len word) y = Some z \<longleftrightarrow> uint z = uint x * uint y"
proof
  assume "checked_mul x y = Some z"
  then show "uint z = uint x * uint y"
    by (auto simp: checked_mul_def uint_word_ariths split: if_splits)
next
  assume z: "uint z = uint x * uint y"
  then have "uint x * uint y < 2 ^ LENGTH('a)" by (metis uint_bounded)
  moreover from z have "z = x * y" by (metis word_mult_def word_of_int_uint)
  ultimately show "checked_mul x y = Some z" by (simp add: checked_mul_def)
qed

lemma checked_sub_Some_iff:
  "checked_sub (x :: 'a::len word) y = Some z \<longleftrightarrow> uint x = uint y + uint z"
proof
  assume "checked_sub x y = Some z"
  then have "y \<le> x" and "z = x - y" by (auto simp: checked_sub_def split: if_splits)
  then show "uint x = uint y + uint z"
    using uint_minus_simple_alt [of y x] by simp
next
  assume x: "uint x = uint y + uint z"
  then have "y \<le> x" by (simp add: word_le_def)
  moreover from x have "z = x - y" by (metis add.commute add_diff_cancel word_add_def word_of_int_uint)
  ultimately show "checked_sub x y = Some z" by (simp add: checked_sub_def)
qed

lemma checked_add_one_less: "checked_add x (1 :: u64) = Some y \<Longrightarrow> x < y"
  by (simp add: checked_add_Some_iff word_less_def)

section \<open>Signed integers\<close>

text \<open>
  An \<open>i64\<close> is an integer in the two's complement range. \<open>I64\<close> wraps any integer into the
  range, as the release build's arithmetic does; \<open>int_of\<close> reads a value back.
\<close>

definition in_i64 :: "int \<Rightarrow> bool" where
  "in_i64 x \<longleftrightarrow> - 9223372036854775808 \<le> x \<and> x \<le> 9223372036854775807"

typedef i64 = "{x :: int. in_i64 x}"
  morphisms int_of Abs_i64
proof
  show "0 \<in> {x :: int. in_i64 x}" by (simp add: in_i64_def)
qed

setup_lifting type_definition_i64

lift_definition I64 :: "int \<Rightarrow> i64"
  is "\<lambda>x. (x + 9223372036854775808) mod 18446744073709551616 - 9223372036854775808"
proof -
  fix x :: int
  have "0 \<le> (x + 9223372036854775808) mod 18446744073709551616"
    and "(x + 9223372036854775808) mod 18446744073709551616 < 18446744073709551616"
    by simp_all
  then show "in_i64 ((x + 9223372036854775808) mod 18446744073709551616 - 9223372036854775808)"
    by (simp add: in_i64_def)
qed

instantiation i64 :: equal
begin

lift_definition equal_i64 :: "i64 \<Rightarrow> i64 \<Rightarrow> bool" is "(=)" .

instance
  by standard (transfer, simp)

end

instantiation i64 :: linorder
begin

lift_definition less_eq_i64 :: "i64 \<Rightarrow> i64 \<Rightarrow> bool" is "(\<le>)" .

lift_definition less_i64 :: "i64 \<Rightarrow> i64 \<Rightarrow> bool" is "(<)" .

instance
  by standard (transfer, auto)+

end

lemma in_i64_int_of [simp, intro]: "in_i64 (int_of x)"
  using int_of by simp

lemma int_of_bounds: "- 9223372036854775808 \<le> int_of x" "int_of x \<le> 9223372036854775807"
  using in_i64_int_of [of x] unfolding in_i64_def by auto

lemma int_of_I64 [simp]:
  "int_of (I64 x) = (x + 9223372036854775808) mod 18446744073709551616 - 9223372036854775808"
  by (rule I64.rep_eq)

lemma int_of_I64_in: "in_i64 x \<Longrightarrow> int_of (I64 x) = x"
  by (simp add: in_i64_def)

lemma I64_int_of [simp]: "I64 (int_of x) = x"
proof -
  have "int_of (I64 (int_of x)) = int_of x"
    by (rule int_of_I64_in) simp
  then show ?thesis by (simp only: int_of_inject)
qed

lemma i64_eq_iff [i64_simps]: "x = y \<longleftrightarrow> int_of x = int_of y"
  by (simp add: int_of_inject)

lemma i64_le_iff [i64_simps]: "x \<le> y \<longleftrightarrow> int_of x \<le> int_of y"
  by (rule less_eq_i64.rep_eq)

lemma i64_less_iff [i64_simps]: "x < y \<longleftrightarrow> int_of x < int_of y"
  by (rule less_i64.rep_eq)

definition i64_MAX :: i64 where
  "i64_MAX = I64 9223372036854775807"

definition i64_MIN :: i64 where
  "i64_MIN = I64 (- 9223372036854775808)"

definition checked_i64 :: "int \<Rightarrow> i64 option" where
  "checked_i64 x = (if in_i64 x then Some (I64 x) else None)"

definition checked_add_i64 :: "i64 \<Rightarrow> i64 \<Rightarrow> i64 option" where
  "checked_add_i64 x y = checked_i64 (int_of x + int_of y)"

definition checked_sub_i64 :: "i64 \<Rightarrow> i64 \<Rightarrow> i64 option" where
  "checked_sub_i64 x y = checked_i64 (int_of x - int_of y)"

definition checked_neg_i64 :: "i64 \<Rightarrow> i64 option" where
  "checked_neg_i64 x = checked_i64 (- int_of x)"

definition saturate_i64 :: "int \<Rightarrow> i64" where
  "saturate_i64 x = (if in_i64 x then I64 x else if x < 0 then i64_MIN else i64_MAX)"

definition saturating_add_i64 :: "i64 \<Rightarrow> i64 \<Rightarrow> i64" where
  "saturating_add_i64 x y = saturate_i64 (int_of x + int_of y)"

definition saturating_sub_i64 :: "i64 \<Rightarrow> i64 \<Rightarrow> i64" where
  "saturating_sub_i64 x y = saturate_i64 (int_of x - int_of y)"

text \<open>The plain operators of a release build, which does not set \<open>overflow-checks\<close>.\<close>

definition add_i64 :: "i64 \<Rightarrow> i64 \<Rightarrow> i64" where
  "add_i64 x y = I64 (int_of x + int_of y)"

definition sub_i64 :: "i64 \<Rightarrow> i64 \<Rightarrow> i64" where
  "sub_i64 x y = I64 (int_of x - int_of y)"

text \<open>\<open>/\<close> on \<open>i64\<close> rounds towards zero; only division by the literal 2 occurs.\<close>

definition half_i64 :: "i64 \<Rightarrow> i64" where
  "half_i64 x = I64 (if int_of x < 0 then - ((- int_of x) div 2) else int_of x div 2)"

definition i64_of_u64 :: "u64 \<Rightarrow> i64 option" where
  "i64_of_u64 x = checked_i64 (uint x)"

definition u64_of_i64 :: "i64 \<Rightarrow> u64 option" where
  "u64_of_i64 x = (if 0 \<le> int_of x then Some (word_of_int (int_of x)) else None)"

text \<open>The text of a failed integer conversion of the standard library.\<close>

definition TRY_FROM_INT_ERROR :: string where
  "TRY_FROM_INT_ERROR = ''out of range integral type conversion attempted''"

lemma checked_i64_Some_iff: "checked_i64 x = Some z \<longleftrightarrow> int_of z = x"
proof
  assume "checked_i64 x = Some z"
  then show "int_of z = x" by (auto simp: checked_i64_def int_of_I64_in simp del: int_of_I64 split: if_splits)
next
  assume "int_of z = x"
  then have "in_i64 x" and "I64 x = z" by auto
  then show "checked_i64 x = Some z" by (simp add: checked_i64_def)
qed

lemma checked_i64_None_iff: "checked_i64 x = None \<longleftrightarrow> \<not> in_i64 x"
  by (simp add: checked_i64_def)

lemma checked_add_i64_Some_iff [i64_simps]:
  "checked_add_i64 x y = Some z \<longleftrightarrow> int_of z = int_of x + int_of y"
  by (simp add: checked_add_i64_def checked_i64_Some_iff)

lemma checked_sub_i64_Some_iff [i64_simps]:
  "checked_sub_i64 x y = Some z \<longleftrightarrow> int_of z = int_of x - int_of y"
  by (simp add: checked_sub_i64_def checked_i64_Some_iff)

lemma checked_neg_i64_Some_iff [i64_simps]:
  "checked_neg_i64 x = Some z \<longleftrightarrow> int_of z = - int_of x"
  by (simp add: checked_neg_i64_def checked_i64_Some_iff)

lemma int_of_saturate:
  "int_of (saturate_i64 x) = max (- 9223372036854775808) (min 9223372036854775807 x)"
  by (auto simp: saturate_i64_def i64_MIN_def i64_MAX_def in_i64_def)

lemma int_of_saturating_add [i64_simps]:
  "int_of (saturating_add_i64 x y)
   = max (- 9223372036854775808) (min 9223372036854775807 (int_of x + int_of y))"
  by (simp add: saturating_add_i64_def int_of_saturate)

lemma int_of_saturating_sub [i64_simps]:
  "int_of (saturating_sub_i64 x y)
   = max (- 9223372036854775808) (min 9223372036854775807 (int_of x - int_of y))"
  by (simp add: saturating_sub_i64_def int_of_saturate)

lemma i64_of_u64_Some_iff: "i64_of_u64 x = Some z \<longleftrightarrow> int_of z = uint x"
  by (simp add: i64_of_u64_def checked_i64_Some_iff)

lemma int_of_add_one:
  "int_of (add_i64 x (I64 1)) = (if int_of x = 9223372036854775807 then - 9223372036854775808 else int_of x + 1)"
proof (cases "int_of x = 9223372036854775807")
  case False
  then have "in_i64 (int_of x + 1)" using int_of_bounds [of x] by (simp add: in_i64_def)
  moreover have "int_of (I64 1) = 1" by simp
  ultimately show ?thesis using False by (simp add: add_i64_def int_of_I64_in del: int_of_I64)
qed (simp add: add_i64_def)

section \<open>Strings\<close>

text \<open>
  A \<open>String\<close> is its UTF-8 bytes, so \<open>length\<close> is \<open>str::len\<close> and a literal is its ASCII text.
\<close>

definition byte :: "char \<Rightarrow> nat" where
  "byte c = of_char c"

definition is_ascii_digit :: "char \<Rightarrow> bool" where
  "is_ascii_digit c \<longleftrightarrow> 48 \<le> byte c \<and> byte c \<le> 57"

definition is_ascii_alphanumeric :: "char \<Rightarrow> bool" where
  "is_ascii_alphanumeric c \<longleftrightarrow>
     is_ascii_digit c \<or> 65 \<le> byte c \<and> byte c \<le> 90 \<or> 97 \<le> byte c \<and> byte c \<le> 122"

definition is_ascii_hexdigit :: "char \<Rightarrow> bool" where
  "is_ascii_hexdigit c \<longleftrightarrow>
     is_ascii_digit c \<or> 65 \<le> byte c \<and> byte c \<le> 70 \<or> 97 \<le> byte c \<and> byte c \<le> 102"

fun strip_prefix :: "string \<Rightarrow> string \<Rightarrow> string option" where
  "strip_prefix [] s = Some s"
| "strip_prefix (p # ps) [] = None"
| "strip_prefix (p # ps) (c # cs) = (if p = c then strip_prefix ps cs else None)"

lemma strip_prefix_Some_iff: "strip_prefix p s = Some r \<longleftrightarrow> s = p @ r"
  by (induction p s rule: strip_prefix.induct) auto

text \<open>The check the code writes out for a \<open>sha256:{hex}\<close> digest.\<close>

definition sha256_digest :: "string \<Rightarrow> bool" where
  "sha256_digest s \<longleftrightarrow>
     is_some_and (\<lambda>hex. length hex = 64 \<and> list_all is_ascii_hexdigit hex)
       (strip_prefix ''sha256:'' s)"

text \<open>\<open>str::split\<close> on an ASCII character: always at least one piece.\<close>

fun split_on :: "char \<Rightarrow> string \<Rightarrow> string list" where
  "split_on c [] = [[]]"
| "split_on c (x # xs) =
     (if x = c then [] # split_on c xs
      else case split_on c xs of [] \<Rightarrow> [[x]] | y # ys \<Rightarrow> (x # y) # ys)"

fun join :: "'a list \<Rightarrow> 'a list list \<Rightarrow> 'a list" where
  "join sep [] = []"
| "join sep [x] = x"
| "join sep (x # xs) = x @ sep @ join sep xs"

lemma split_on_ne_Nil [simp]: "split_on c s \<noteq> []"
  by (induction s) (auto split: list.splits)

lemma split_on_append_sep:
  "c \<notin> set x \<Longrightarrow> split_on c (x @ c # s) = x # split_on c s"
  by (induction x) auto

lemma append_sep_inject:
  assumes "c \<notin> set x" and "c \<notin> set x'"
  shows "x @ c # y = x' @ c # y' \<longleftrightarrow> x = x' \<and> y = y'"
  using assms
proof (induction x arbitrary: x')
  case Nil
  then show ?case by (cases x') auto
next
  case (Cons a x)
  then show ?case by (cases x') auto
qed

lemma split_on_no_sep: "c \<notin> set x \<Longrightarrow> split_on c x = [x]"
  by (induction x) auto

lemma split_on_join:
  assumes "xs \<noteq> []" and "\<forall>x \<in> set xs. c \<notin> set x"
  shows "split_on c (join [c] xs) = xs"
  using assms
  by (induction "[c]" xs rule: join.induct) (auto simp: split_on_no_sep split_on_append_sep)

lemma split_on_no_char: "x \<in> set (split_on c s) \<Longrightarrow> c \<notin> set x"
  by (induction s arbitrary: x) (auto split: if_splits list.splits)

lemma join_split_on: "join [c] (split_on c s) = s"
proof (induction s)
  case (Cons x s)
  then show ?case by (cases "split_on c s"; cases "tl (split_on c s)") auto
qed simp

text \<open>
  \<open>str::trim\<close> removes the characters with the Unicode property \<open>White_Space\<close> from both
  ends. Each is listed by its UTF-8 encoding; in valid UTF-8 text an encoding occurs only
  where the character does.
\<close>

definition white_space :: "string list" where
  "white_space =
     map (\<lambda>b. [char_of (b :: nat)]) [9, 10, 11, 12, 13, 32]
     @ map (map (char_of :: nat \<Rightarrow> char)) [[194, 133], [194, 160], [225, 154, 128]]
     @ map (\<lambda>b. map char_of [226, 128, b :: nat])
         [128, 129, 130, 131, 132, 133, 134, 135, 136, 137, 138, 168, 169, 175]
     @ map (map (char_of :: nat \<Rightarrow> char)) [[226, 129, 159], [227, 128, 128]]"

fun strip_any :: "string list \<Rightarrow> string \<Rightarrow> string option" where
  "strip_any [] s = None"
| "strip_any (w # ws) s =
     (case strip_prefix w s of Some r \<Rightarrow> Some r | None \<Rightarrow> strip_any ws s)"

lemma strip_any_shorter:
  assumes "strip_any ws s = Some r" and "\<forall>w \<in> set ws. w \<noteq> []"
  shows "length r < length s"
  using assms
  by (induction ws) (auto simp: strip_prefix_Some_iff split: option.splits)

lemma white_space_nonempty: "\<forall>w \<in> set white_space. w \<noteq> []"
  by (simp add: white_space_def)

function trim_with :: "string list \<Rightarrow> string \<Rightarrow> string" where
  "trim_with ws s =
     (if \<forall>w \<in> set ws. w \<noteq> []
      then case strip_any ws s of None \<Rightarrow> s | Some r \<Rightarrow> trim_with ws r
      else s)"
  by pat_completeness auto
termination
  by (relation "measure (\<lambda>(ws, s). length s)") (auto simp: strip_any_shorter)

declare trim_with.simps [simp del]

definition trim_start :: "string \<Rightarrow> string" where
  "trim_start s = trim_with white_space s"

definition trim_end :: "string \<Rightarrow> string" where
  "trim_end s = rev (trim_with (map rev white_space) (rev s))"

definition trim :: "string \<Rightarrow> string" where
  "trim s = trim_end (trim_start s)"

lemma trim_with_id: "strip_any ws s = None \<Longrightarrow> trim_with ws s = s"
  by (subst trim_with.simps) simp

lemma strip_any_trim_with:
  "\<forall>w \<in> set ws. w \<noteq> [] \<Longrightarrow> strip_any ws (trim_with ws s) = None"
proof (induction ws s rule: trim_with.induct)
  case (1 ws s)
  then show ?case by (subst trim_with.simps) (auto split: option.splits)
qed

lemma trim_with_suffix: "\<exists>p. s = p @ trim_with ws s"
proof (induction ws s rule: trim_with.induct)
  case (1 ws s)
  have strip: "\<exists>p. s = p @ r" if "strip_any ws s = Some r" for r
    using that by (induction ws) (auto simp: strip_prefix_Some_iff split: option.splits)
  show ?case
  proof (cases "\<forall>w \<in> set ws. w \<noteq> []")
    case True
    show ?thesis
    proof (cases "strip_any ws s")
      case None
      then show ?thesis by (simp add: trim_with_id)
    next
      case (Some r)
      from "1.IH" [OF True Some] obtain q where "r = q @ trim_with ws r" by blast
      moreover from strip [OF Some] obtain p where "s = p @ r" by blast
      moreover from True Some have "trim_with ws s = trim_with ws r"
        by (subst trim_with.simps) simp
      ultimately show ?thesis by (metis append.assoc)
    qed
  next
    case False
    then show ?thesis by (subst trim_with.simps) auto
  qed
qed

lemma set_trim: "set (trim s) \<subseteq> set s"
proof -
  obtain p where p: "s = p @ trim_start s"
    using trim_with_suffix [of s white_space] by (auto simp: trim_start_def)
  obtain q where q: "rev (trim_start s) = q @ trim_with (map rev white_space) (rev (trim_start s))"
    using trim_with_suffix by blast
  have "set (trim s) \<subseteq> set (rev (trim_start s))"
    by (subst q) (auto simp: trim_def trim_end_def)
  moreover have "set (trim_start s) \<subseteq> set s" by (subst (2) p) auto
  ultimately show ?thesis by auto
qed

text \<open>Decimal \<open>Display\<close> of integers.\<close>

fun show_nat :: "nat \<Rightarrow> string" where
  "show_nat n = (if n < 10 then [char_of (48 + n)] else show_nat (n div 10) @ [char_of (48 + n mod 10)])"

declare show_nat.simps [simp del]

definition show_int :: "int \<Rightarrow> string" where
  "show_int x = (if x < 0 then CHR ''-'' # show_nat (nat (- x)) else show_nat (nat x))"

definition read_nat :: "string \<Rightarrow> nat" where
  "read_nat s = foldl (\<lambda>a c. 10 * a + (byte c - 48)) 0 s"

lemma byte_char_of: "n < 256 \<Longrightarrow> byte (char_of n) = n"
  by (simp add: byte_def)

lemma read_show_nat: "read_nat (show_nat n) = n"
proof (induction n rule: show_nat.induct)
  case (1 n)
  show ?case
  proof (cases "n < 10")
    case True
    then show ?thesis by (subst show_nat.simps) (simp add: read_nat_def byte_char_of)
  next
    case False
    have "read_nat (show_nat n) = 10 * read_nat (show_nat (n div 10)) + n mod 10"
      using False by (subst show_nat.simps) (simp add: read_nat_def byte_char_of)
    also have "\<dots> = n" using "1.IH" [OF False] by simp
    finally show ?thesis .
  qed
qed

lemma show_nat_digits: "\<forall>c \<in> set (show_nat n). is_ascii_digit c"
proof (induction n rule: show_nat.induct)
  case (1 n)
  have digit: "is_ascii_digit (char_of (48 + m))" if "m < 10" for m :: nat
    using that by (simp add: is_ascii_digit_def byte_char_of)
  show ?case
  proof (cases "n < 10")
    case True
    then show ?thesis by (subst show_nat.simps) (simp add: digit)
  next
    case False
    have "\<forall>c \<in> set (show_nat (n div 10)). is_ascii_digit c" by (rule "1.IH" [OF False])
    moreover have "is_ascii_digit (char_of (48 + n mod 10))" by (simp add: digit)
    ultimately show ?thesis using False by (subst show_nat.simps) auto
  qed
qed

lemma show_nat_inject: "show_nat m = show_nat n \<longleftrightarrow> m = n"
  by (metis read_show_nat)

lemma show_int_inject: "show_int x = show_int y \<longleftrightarrow> x = y"
proof -
  have minus: "show_nat n \<noteq> CHR ''-'' # r" for n r
    using show_nat_digits [of n] by (auto simp: is_ascii_digit_def byte_def)
  have "show_int x = show_int y \<Longrightarrow> x = y"
    using minus minus [symmetric]
    by (auto simp: show_int_def show_nat_inject split: if_splits)
  then show ?thesis by blast
qed

lemma show_int_chars: "c \<in> set (show_int x) \<Longrightarrow> c = CHR ''-'' \<or> is_ascii_digit c"
  using show_nat_digits by (auto simp: show_int_def split: if_splits)

definition show_u64 :: "'a::len word \<Rightarrow> string" where
  "show_u64 x = show_nat (unat x)"

definition show_i64 :: "i64 \<Rightarrow> string" where
  "show_i64 x = show_int (int_of x)"

end
