(* ===== verification/Contracts.thy ===== *)
theory Contracts
  imports Aseman_Prelude "HOL-Library.Product_Lexorder" "HOL-Library.Sublist"
begin

text \<open>
  The contracts several components promise, each a locale with the lemmas its clients
  use. The components interpret them on their own definitions:
  \<^item> \<open>checked_counter\<close>: a 64-bit counter whose \<open>next\<close> refuses to wrap (generations, fencing
    tokens, finalized epochs);
  \<^item> \<open>monotone_log\<close>: an acceptance rule that only ever extends an order (observations,
    finalized records, descriptors, appended events);
  \<^item> \<open>step_journal\<close>: a resumable plan whose steps complete in order and once each
    (bootstrap, administrative operations).
\<close>

section \<open>Counters that never wrap\<close>

fun iterate :: "nat \<Rightarrow> ('c \<Rightarrow> ('c, 'e) result) \<Rightarrow> 'c \<Rightarrow> ('c, 'e) result" where
  "iterate 0 f c = Ok c"
| "iterate (Suc n) f c = and_then (f c) (iterate n f)"

locale checked_counter =
  fixes get :: "'c \<Rightarrow> u64"
    and succ :: "'c \<Rightarrow> ('c, 'e) result"
    and overflow :: 'e
  assumes get_inject: "get a = get b \<Longrightarrow> a = b"
    and succ_Ok: "succ c = Ok d \<Longrightarrow> uint (get d) = uint (get c) + 1"
    and succ_defined: "uint (get c) + 1 < 2 ^ 64 \<Longrightarrow> \<exists>d. succ c = Ok d"
    and succ_Err: "succ c = Err e \<Longrightarrow> e = overflow"
begin

lemma succ_less: "succ c = Ok d \<Longrightarrow> get c < get d"
  by (drule succ_Ok) (simp add: word_less_def)

lemma iterate_get: "iterate n succ c = Ok d \<Longrightarrow> uint (get d) = uint (get c) + int n"
proof (induction n arbitrary: c)
  case 0
  then show ?case by simp
next
  case (Suc n)
  then obtain b where "succ c = Ok b" and "iterate n succ b = Ok d"
    by (auto simp: result_simps)
  with Suc.IH succ_Ok show ?case by fastforce
qed

lemma iterate_defined: "uint (get c) + int n < 2 ^ 64 \<Longrightarrow> \<exists>d. iterate n succ c = Ok d"
proof (induction n arbitrary: c)
  case 0
  then show ?case by simp
next
  case (Suc n)
  then obtain b where b: "succ c = Ok b" using succ_defined [of c] by auto
  then have "uint (get b) + int n < 2 ^ 64" using succ_Ok [OF b] Suc.prems by simp
  with Suc.IH b show ?case by simp
qed

lemma iterate_overflow:
  "iterate n succ c = Err overflow \<longleftrightarrow> 2 ^ 64 \<le> uint (get c) + int n"
proof
  assume "iterate n succ c = Err overflow"
  then show "2 ^ 64 \<le> uint (get c) + int n" using iterate_defined [of c n] by fastforce
next
  assume big: "2 ^ 64 \<le> uint (get c) + int n"
  have err: "iterate n succ c = Err e \<Longrightarrow> e = overflow" for e
    by (induction n arbitrary: c) (auto simp: result_simps dest: succ_Err)
  show "iterate n succ c = Err overflow"
  proof (cases "iterate n succ c")
    case (Inl e)
    with err show ?thesis by simp
  next
    case (Inr d)
    then have "uint (get d) = uint (get c) + int n" by (rule iterate_get)
    with big show ?thesis using uint_bounded [of "get d"] by simp
  qed
qed

lemma iterate_inject:
  assumes "iterate m succ c = Ok d" and "iterate n succ c = Ok d"
  shows "m = n"
  using iterate_get [OF assms(1)] iterate_get [OF assms(2)] by simp

end

section \<open>Orders that only extend\<close>

text \<open>
  \<open>offer_all accept prev rs\<close> offers \<open>rs\<close> one after the other and keeps what was accepted:
  the accepted record is what the next one is compared with.
\<close>

fun offer_all :: "('r option \<Rightarrow> 'r \<Rightarrow> bool) \<Rightarrow> 'r option \<Rightarrow> 'r list \<Rightarrow> 'r list" where
  "offer_all accept prev [] = []"
| "offer_all accept prev (r # rs) =
     (if accept prev r then r # offer_all accept (Some r) rs else offer_all accept prev rs)"

text \<open>What is held after \<open>rs\<close> was offered is the last record that was accepted.\<close>

lemma offer_all_foldl:
  "foldl (\<lambda>p r. if accept p r then Some r else p) prev rs =
     (case offer_all accept prev rs of [] \<Rightarrow> prev | xs \<Rightarrow> Some (last xs))"
proof (induction rs arbitrary: prev)
  case (Cons r rs)
  then show ?case by (cases "offer_all accept (Some r) rs") (auto split: list.split)
qed simp

lemma offer_all_subset: "set (offer_all accept prev rs) \<subseteq> set rs"
  by (induction rs arbitrary: prev) auto

locale monotone_log =
  fixes key :: "'r \<Rightarrow> 'k::linorder"
    and accept :: "'r option \<Rightarrow> 'r \<Rightarrow> bool"
  assumes accept_extends: "accept (Some prev) r \<Longrightarrow> key prev < key r"
begin

lemma offer_all_above:
  "r \<in> set (offer_all accept (Some prev) rs) \<Longrightarrow> key prev < key r"
proof (induction rs arbitrary: prev)
  case Nil
  then show ?case by simp
next
  case (Cons s rs)
  show ?case
  proof (cases "accept (Some prev) s")
    case True
    then have s: "key prev < key s" by (rule accept_extends)
    from Cons.prems True have "r = s \<or> r \<in> set (offer_all accept (Some s) rs)" by simp
    with s Cons.IH [of s] show ?thesis by (meson less_trans)
  next
    case False
    with Cons show ?thesis by simp
  qed
qed

lemma offer_all_sorted: "sorted_wrt (<) (map key (offer_all accept prev rs))"
proof (induction rs arbitrary: prev)
  case Nil
  then show ?case by simp
next
  case (Cons r rs)
  then show ?case using offer_all_above [of _ r rs] by auto
qed

lemma offer_all_distinct: "distinct (map key (offer_all accept prev rs))"
  using offer_all_sorted [of prev rs] by (simp add: strict_sorted_iff)

lemma offer_all_replayed: "accept (Some prev) r \<Longrightarrow> \<not> accept (Some r) prev"
  by (meson accept_extends less_asym)

end

section \<open>Resumable plans\<close>

text \<open>\<open>run_steps\<close> records the success of each step of a list in turn.\<close>

fun run_steps :: "('j \<Rightarrow> 's \<Rightarrow> ('j, 'e) result) \<Rightarrow> 'j \<Rightarrow> 's list \<Rightarrow> ('j, 'e) result" where
  "run_steps succeed j [] = Ok j"
| "run_steps succeed j (s # ss) = and_then (succeed j s) (\<lambda>k. run_steps succeed k ss)"

lemma find_not_in_take:
  assumes "distinct plan" and "n \<le> length plan"
  shows "List.find (\<lambda>s. s \<notin> set (take n plan)) plan
    = (if n < length plan then Some (plan ! n) else None)"
  using assms
proof (induction plan arbitrary: n)
  case Nil
  then show ?case by simp
next
  case (Cons p plan)
  show ?case
  proof (cases n)
    case 0
    then show ?thesis by simp
  next
    case (Suc m)
    have "List.find (\<lambda>s. s \<noteq> p \<and> s \<notin> set (take m plan)) plan
      = List.find (\<lambda>s. s \<notin> set (take m plan)) plan"
      using Cons.prems by (intro find_cong) auto
    with Suc Cons show ?thesis by auto
  qed
qed

locale step_journal =
  fixes plan :: "'j \<Rightarrow> 's list"
    and done_steps :: "'j \<Rightarrow> 's list"
    and next_step :: "'j \<Rightarrow> 's option"
    and succeed :: "'j \<Rightarrow> 's \<Rightarrow> ('j, 'e) result"
  assumes plan_distinct: "distinct (plan j)"
    and next_step_find: "next_step j = List.find (\<lambda>s. s \<notin> set (done_steps j)) (plan j)"
    and succeed_Ok: "succeed j s = Ok k \<Longrightarrow>
      next_step j = Some s \<and> done_steps k = done_steps j @ [s] \<and> plan k = plan j"
    and succeed_defined: "next_step j = Some s \<Longrightarrow> \<exists>k. succeed j s = Ok k"
begin

lemma next_step_of_prefix:
  assumes "done_steps j = take n (plan j)" and "n \<le> length (plan j)"
  shows "next_step j = (if n < length (plan j) then Some (plan j ! n) else None)"
  using assms find_not_in_take [OF plan_distinct, of n j] by (simp add: next_step_find)

lemma succeed_prefix:
  assumes "prefix (done_steps j) (plan j)" and "succeed j s = Ok k"
  shows "prefix (done_steps k) (plan k)"
proof -
  from assms(1) obtain n where n: "done_steps j = take n (plan j)" "n \<le> length (plan j)"
    by (metis append_eq_conv_conj length_append le_add1 prefix_def)
  from succeed_Ok [OF assms(2)]
  have k: "next_step j = Some s" "done_steps k = done_steps j @ [s]" "plan k = plan j"
    by auto
  with next_step_of_prefix [OF n] have "n < length (plan j)" and "s = plan j ! n"
    by (auto split: if_splits)
  with n k have "done_steps k = take (Suc n) (plan k)"
    by (simp add: take_Suc_conv_app_nth)
  then show ?thesis by (metis take_is_prefix)
qed

lemma next_extends:
  assumes "prefix (done_steps j) (plan j)" and "next_step j = Some s"
  shows "prefix (done_steps j @ [s]) (plan j)"
proof -
  obtain k where k: "succeed j s = Ok k" using succeed_defined [OF assms(2)] by blast
  from succeed_prefix [OF assms(1) k] succeed_Ok [OF k] show ?thesis by simp
qed

lemma done_is_plan:
  assumes "prefix (done_steps j) (plan j)" and "next_step j = None"
  shows "done_steps j = plan j"
proof -
  from assms(1) obtain n where n: "done_steps j = take n (plan j)" "n \<le> length (plan j)"
    by (metis append_eq_conv_conj length_append le_add1 prefix_def)
  with next_step_of_prefix [OF n] assms(2) show ?thesis by (simp split: if_splits)
qed

lemma run_steps_prefix:
  assumes "prefix (done_steps j) (plan j)" and "run_steps succeed j ss = Ok k"
  shows "prefix (done_steps k) (plan k) \<and> done_steps k = done_steps j @ ss \<and> plan k = plan j"
  using assms
proof (induction ss arbitrary: j)
  case Nil
  then show ?case by simp
next
  case (Cons s ss)
  then obtain i where i: "succeed j s = Ok i" and rest: "run_steps succeed i ss = Ok k"
    by (auto simp: result_simps)
  from Cons.IH [OF succeed_prefix [OF Cons.prems(1) i] rest] succeed_Ok [OF i]
  show ?case by (metis append.assoc append_Cons append_Nil)
qed

lemma steps_never_repeat:
  assumes "prefix (done_steps j) (plan j)" and "run_steps succeed j ss = Ok k"
  shows "distinct (done_steps k)"
  using run_steps_prefix [OF assms] plan_distinct [of k]
  by (metis distinct_append prefix_def)

lemma next_of_rest:
  assumes "done_steps j @ s # ss = plan j"
  shows "next_step j = Some s"
proof -
  have "done_steps j = take (length (done_steps j)) (plan j)"
    by (metis append_eq_conv_conj assms)
  moreover have "length (done_steps j) < length (plan j)"
    by (metis assms length_Cons length_append less_add_Suc1 add_Suc_right)
  moreover have "plan j ! length (done_steps j) = s"
    by (metis assms nth_append_length)
  ultimately show ?thesis using next_step_of_prefix [of j "length (done_steps j)"] by simp
qed

lemma run_rest_of_plan:
  assumes "done_steps j @ ss = plan j"
  shows "\<exists>k. run_steps succeed j ss = Ok k \<and> done_steps k = plan j \<and> next_step k = None"
  using assms
proof (induction ss arbitrary: j)
  case Nil
  then show ?case using next_step_of_prefix [of j "length (plan j)"] by simp
next
  case (Cons s ss)
  have "next_step j = Some s" by (rule next_of_rest [OF Cons.prems])
  then obtain i where i: "succeed j s = Ok i" using succeed_defined by blast
  with succeed_Ok [OF i] Cons.prems have "done_steps i @ ss = plan i" by simp
  from Cons.IH [OF this] i succeed_Ok [OF i] show ?case by auto
qed

end

end
