(* ===== verification/Domain_Core.thy ===== *)
theory Domain_Core
  imports Contracts
begin

text \<open>
  The values at the root of \<open>crates/aseman-domain/src/lib.rs\<close>: typed identities, workload and
  operation states, desired-state generations, guest database bindings, and money with a
  decimal scale. \<open>Generation\<close> interprets the \<open>checked_counter\<close> contract.
\<close>

section \<open>Identities and states\<close>

text \<open>Each \<open>typed_id!\<close> is a newtype of a UUID; drawing a fresh one is the caller's.\<close>

datatype creature_id = CreatureId (creature_uuid: uuid)
datatype program_id = ProgramId (program_uuid: uuid)
datatype workload_id = WorkloadId (workload_uuid: uuid)
datatype operation_id = OperationId (operation_uuid: uuid)

datatype desired_workload_state = DStopped | DRunning | DPaused | DDeleted

datatype observed_workload_state =
  OUnknown | OPending | ORunning | OPaused | OStopped | OFailed | OLost

datatype operation_state = OpPending | OpRunning | OpSucceeded | OpFailed | OpCancelled

datatype domain_error =
    GenerationOverflow
  | InvalidGeneration
  | InvalidBindingField string
  | InvalidMoneyScale u8
  | MoneyScaleMismatch
  | MoneyOverflow

section \<open>Generations\<close>

datatype generation = Generation (generation_get: u64)

definition generation_INITIAL :: generation where
  "generation_INITIAL = Generation 1"

definition generation_next :: "generation \<Rightarrow> (generation, domain_error) result" where
  "generation_next g =
     ok_or GenerationOverflow (map_option Generation (checked_add (generation_get g) 1))"

definition generation_from_stored :: "u64 \<Rightarrow> (generation, domain_error) result" where
  "generation_from_stored v = (if v \<ge> 1 then Ok (Generation v) else Err InvalidGeneration)"

interpretation gen: checked_counter generation_get generation_next GenerationOverflow
proof
  show "a = b" if "generation_get a = generation_get b" for a b
    using that by (cases a; cases b) simp
  show "uint (generation_get d) = uint (generation_get c) + 1" if "generation_next c = Ok d" for c d
    using that by (auto simp: generation_next_def result_simps checked_add_Some_iff)
  show "\<exists>d. generation_next c = Ok d" if "uint (generation_get c) + 1 < 2 ^ 64" for c
    using that by (simp add: generation_next_def checked_add_def)
  show "e = GenerationOverflow" if "generation_next c = Err e" for c e
    using that by (auto simp: generation_next_def result_simps)
qed

lemma generation_stored_positive:
  "generation_from_stored v = Ok g \<Longrightarrow> generation_next g = Ok h
   \<Longrightarrow> generation_from_stored (generation_get h) = Ok h"
  using gen.succ_less [of g h]
  by (cases h) (auto simp: generation_from_stored_def word_le_def word_less_def split: if_splits)

section \<open>Guest database bindings\<close>

datatype binding_status = BindingDisabled | BindingActive

record creature_database_binding =
  binding_creature_id :: creature_id
  binding_provider_id :: string
  binding_database :: string
  binding_role :: string
  binding_generation :: generation
  binding_status :: binding_status

text \<open>The check inside the loop of \<open>CreatureDatabaseBinding::new\<close>.\<close>

definition binding_field_invalid :: "string \<Rightarrow> bool" where
  "binding_field_invalid v \<longleftrightarrow>
     v = [] \<or> length v > 128
     \<or> \<not> list_all (\<lambda>b. is_ascii_alphanumeric b \<or> b = CHR ''_'' \<or> b = CHR ''-'') v"

definition binding_new ::
  "creature_id \<Rightarrow> string \<Rightarrow> string \<Rightarrow> string \<Rightarrow> (creature_database_binding, domain_error) result"
where
  "binding_new creature provider database role =
     (case List.find (\<lambda>(field, v). binding_field_invalid v)
             [(''provider_id'', provider), (''database'', database), (''role'', role)] of
        Some (field, _) \<Rightarrow> Err (InvalidBindingField field)
      | None \<Rightarrow> Ok \<lparr>binding_creature_id = creature, binding_provider_id = provider,
                    binding_database = database, binding_role = role,
                    binding_generation = generation_INITIAL,
                    binding_status = BindingDisabled\<rparr>)"

lemma binding_field_no_separator:
  "\<not> binding_field_invalid v \<Longrightarrow> CHR ''/'' \<notin> set v \<and> CHR ''.'' \<notin> set v \<and> CHR '':'' \<notin> set v"
  by (auto simp: binding_field_invalid_def list_all_iff is_ascii_alphanumeric_def
      is_ascii_digit_def byte_def)

lemma binding_new_Ok_iff:
  "binding_new creature provider database role = Ok b \<longleftrightarrow>
     \<not> binding_field_invalid provider \<and> \<not> binding_field_invalid database
     \<and> \<not> binding_field_invalid role
     \<and> b = \<lparr>binding_creature_id = creature, binding_provider_id = provider,
            binding_database = database, binding_role = role,
            binding_generation = generation_INITIAL, binding_status = BindingDisabled\<rparr>"
  by (auto simp: binding_new_def split: option.splits if_splits)

section \<open>Money\<close>

text \<open>\<open>minor_units\<close> is an \<open>i128\<close>: the integer, with the range checked where the code checks it.\<close>

definition in_i128 :: "int \<Rightarrow> bool" where
  "in_i128 x \<longleftrightarrow> - (2 ^ 127) \<le> x \<and> x < 2 ^ 127"

record money =
  minor_units :: int
  money_scale :: u8

definition money_new :: "int \<Rightarrow> u8 \<Rightarrow> (money, domain_error) result" where
  "money_new units s =
     (if s > 18 then Err (InvalidMoneyScale s) else Ok \<lparr>minor_units = units, money_scale = s\<rparr>)"

definition money_checked_add :: "money \<Rightarrow> money \<Rightarrow> (money, domain_error) result" where
  "money_checked_add a b =
     (if money_scale a \<noteq> money_scale b then Err MoneyScaleMismatch
      else if in_i128 (minor_units a + minor_units b)
      then Ok \<lparr>minor_units = minor_units a + minor_units b, money_scale = money_scale a\<rparr>
      else Err MoneyOverflow)"

definition money_ok :: "money \<Rightarrow> bool" where
  "money_ok m \<longleftrightarrow> in_i128 (minor_units m) \<and> money_scale m \<le> 18"

lemma money_checked_add_ok:
  "money_ok a \<Longrightarrow> money_checked_add a b = Ok c \<Longrightarrow>
     money_ok c \<and> minor_units c = minor_units a + minor_units b \<and> money_scale c = money_scale b"
  by (auto simp: money_checked_add_def money_ok_def split: if_splits)

section \<open>Properties\<close>

text \<open>
  A desired-state generation never wraps: after \<open>n\<close> accepted changes it is \<open>n\<close> above
  where it started, and the counter refuses (with \<open>GenerationOverflow\<close>) exactly when that
  would not fit in 64 bits.
\<close>

lemma generation_never_wraps:
  "(case iterate n generation_next g of
      Inr h \<Rightarrow> uint (generation_get h) = uint (generation_get g) + int n
    | Inl e \<Rightarrow> e = GenerationOverflow \<and> 2 ^ 64 \<le> uint (generation_get g) + int n)"
proof (cases "iterate n generation_next g")
  case (Inl e)
  then have "\<not> uint (generation_get g) + int n < 2 ^ 64" using gen.iterate_defined [of g n] by auto
  then show ?thesis using Inl gen.iterate_overflow [of n g] by (simp add: not_less)
next
  case (Inr h)
  then show ?thesis using gen.iterate_get by simp
qed

end
