(* ===== verification/Finance.thy ===== *)
theory Finance
  imports Domain_Core
begin

text \<open>
  Metering, pricing and the ledger: \<open>crates/aseman-domain/src/finance.rs\<close>. Money is \<open>i64\<close>
  minor units and every operation on it is checked, so an amount that does not fit is an
  error and never a wrapped total. A \<open>BTreeMap<Dimension, _>\<close> is a map from dimensions,
  walked in the order of the enumeration. The text of a UUID is the \<open>uuid\<close> crate's, a
  parameter \<open>uuid_text\<close>.
\<close>

section \<open>Data\<close>

type_synonym minor = i64

datatype dimension =
    CpuMillis
  | MemoryMibSeconds
  | StorageMibSeconds
  | DiskReadBytes
  | DiskWriteBytes
  | NetworkIngressBytes
  | NetworkEgressBytes
  | AcceleratorMillis

definition dimension_ALL :: "dimension list" where
  "dimension_ALL = [CpuMillis, MemoryMibSeconds, StorageMibSeconds, DiskReadBytes,
     DiskWriteBytes, NetworkIngressBytes, NetworkEgressBytes, AcceleratorMillis]"

datatype finance_error =
    Overflow
  | DifferentWorkloads
  | OutOfOrder
  | UnpricedDimension dimension
  | Unbalanced
  | ZeroRate dimension
  | UnbillableDimension dimension
  | HoldClosed
  | CaptureExceedsHold

definition billable :: "dimension \<Rightarrow> bool" where
  "billable d \<longleftrightarrow> d \<noteq> NetworkIngressBytes"

text \<open>The entries of a \<open>BTreeMap<Dimension, _>\<close> in iteration order.\<close>

definition entries_of :: "(dimension \<rightharpoonup> 'v) \<Rightarrow> (dimension \<times> 'v) list" where
  "entries_of m = List.map_filter (\<lambda>d. map_option (Pair d) (m d)) dimension_ALL"

record usage_sample =
  sample_workload_id :: uuid
  provider_sample_id :: string
  sample_provider :: string
  collected_at_millis :: i64
  cumulative :: "dimension \<rightharpoonup> u64"

record usage_interval =
  interval_workload_id :: uuid
  interval_start_millis :: i64
  interval_end_millis :: i64
  interval_sample_id :: string
  deltas :: "dimension \<rightharpoonup> u64"

record price_list =
  price_version :: string
  effective_from_millis :: i64
  rates :: "dimension \<rightharpoonup> u64"

record charge =
  charge_settlement_key :: string
  charge_workload_id :: uuid
  charge_amount :: minor
  charge_price_version :: string
  charge_lines :: "dimension \<rightharpoonup> minor"

record entry =
  entry_account :: string
  entry_amount :: minor

record journal_record =
  idempotency_key :: string
  record_at_millis :: i64
  record_entries :: "entry list"
  record_price_version :: "string option"

datatype hold_state = Held | Captured | Released

record hold =
  hold_idempotency_key :: string
  hold_account :: string
  hold_amount :: minor
  hold_state :: hold_state

datatype enforcement_step = NoStep | Notify | Pause | Stop

record enforcement_policy =
  grace_millis :: i64
  pause_millis :: i64

datatype discrepancy =
    Unsettled string
  | Unexplained string
  | UnknownPrice string string
  | Mispriced string minor minor

section \<open>Operations\<close>

definition minor_checked_add :: "minor \<Rightarrow> minor \<Rightarrow> (minor, finance_error) result" where
  "minor_checked_add a b = ok_or Overflow (checked_add_i64 a b)"

definition minor_checked_sub :: "minor \<Rightarrow> minor \<Rightarrow> (minor, finance_error) result" where
  "minor_checked_sub a b = ok_or Overflow (checked_sub_i64 a b)"

definition settlement_key :: "(uuid \<Rightarrow> string) \<Rightarrow> usage_interval \<Rightarrow> string" where
  "settlement_key uuid_text iv =
     uuid_text (interval_workload_id iv) @ '':'' @ show_i64 (interval_start_millis iv)
     @ '':'' @ interval_sample_id iv"

text \<open>The counter rule inside the loop: a counter that went backwards is its own delta.\<close>

definition counter_delta :: "u64 \<Rightarrow> u64 \<Rightarrow> u64" where
  "counter_delta before now =
     (case checked_sub now before of Some d \<Rightarrow> d | None \<Rightarrow> now)"

definition interval_between ::
  "usage_sample \<Rightarrow> usage_sample \<Rightarrow> (usage_interval, finance_error) result" where
  "interval_between previous current =
     (if sample_workload_id previous \<noteq> sample_workload_id current then Err DifferentWorkloads
      else if collected_at_millis current \<le> collected_at_millis previous then Err OutOfOrder
      else Ok \<lparr>interval_workload_id = sample_workload_id current,
               interval_start_millis = collected_at_millis previous,
               interval_end_millis = collected_at_millis current,
               interval_sample_id = provider_sample_id current,
               deltas = (\<lambda>d. case cumulative current d of
                   None \<Rightarrow> None
                 | Some now \<Rightarrow>
                     Some (counter_delta
                       (case cumulative previous d of None \<Rightarrow> 0 | Some before \<Rightarrow> before) now))\<rparr>)"

definition price_list_validate :: "price_list \<Rightarrow> (unit, finance_error) result" where
  "price_list_validate p =
     (case List.find (\<lambda>(d, rate). rate = 0 \<or> \<not> billable d) (entries_of (rates p)) of
        None \<Rightarrow> Ok ()
      | Some (d, rate) \<Rightarrow> Err (if rate = 0 then ZeroRate d else UnbillableDimension d))"

definition PRICE_SCALE :: u64 where
  "PRICE_SCALE = 1000000000"

text \<open>One pass of the pricing loop per entry of the interval.\<close>

fun price_loop ::
  "(dimension \<rightharpoonup> u64) \<Rightarrow> (dimension \<times> u64) list \<Rightarrow> (dimension \<rightharpoonup> minor) \<Rightarrow> minor
   \<Rightarrow> ((dimension \<rightharpoonup> minor) \<times> minor, finance_error) result" where
  "price_loop rs [] ls acc = Ok (ls, acc)"
| "price_loop rs ((d, amount) # rest) ls acc =
     (if \<not> billable d then price_loop rs rest ls acc
      else if amount = 0 then price_loop rs rest ls acc
      else and_then (ok_or (UnpricedDimension d) (rs d)) (\<lambda>rate.
        and_then (ok_or Overflow
            (map_option (\<lambda>product. div_ceil product PRICE_SCALE) (checked_mul amount rate)))
          (\<lambda>units.
        and_then (ok_or Overflow (i64_of_u64 units)) (\<lambda>cost.
          if int_of cost > 0
          then and_then (minor_checked_add acc cost)
                 (\<lambda>acc'. price_loop rs rest (ls(d \<mapsto> cost)) acc')
          else price_loop rs rest ls acc))))"

definition price ::
  "(uuid \<Rightarrow> string) \<Rightarrow> usage_interval \<Rightarrow> price_list \<Rightarrow> (charge, finance_error) result" where
  "price uuid_text iv prices =
     and_then (price_loop (rates prices) (entries_of (deltas iv)) Map.empty (I64 0))
       (\<lambda>(ls, acc). Ok \<lparr>charge_settlement_key = settlement_key uuid_text iv,
          charge_workload_id = interval_workload_id iv, charge_amount = acc,
          charge_price_version = price_version prices, charge_lines = ls\<rparr>)"

text \<open>\<open>Iterator::max_by_key\<close> keeps the last of several maximal elements.\<close>

fun max_by_key :: "('a \<Rightarrow> 'k::linorder) \<Rightarrow> 'a list \<Rightarrow> 'a option" where
  "max_by_key k [] = None"
| "max_by_key k (x # xs) =
     (case max_by_key k xs of
        None \<Rightarrow> Some x
      | Some y \<Rightarrow> Some (if k x > k y then x else y))"

definition price_list_at :: "price_list list \<Rightarrow> i64 \<Rightarrow> price_list option" where
  "price_list_at pls at =
     max_by_key effective_from_millis (filter (\<lambda>l. effective_from_millis l \<le> at) pls)"

text \<open>\<open>try_fold(0, checked_add)\<close> over the amounts of a record.\<close>

fun sum_checked :: "i64 \<Rightarrow> i64 list \<Rightarrow> i64 option" where
  "sum_checked acc [] = Some acc"
| "sum_checked acc (a # rest) =
     (case checked_add_i64 acc a of None \<Rightarrow> None | Some t \<Rightarrow> sum_checked t rest)"

definition balances :: "journal_record \<Rightarrow> bool" where
  "balances r \<longleftrightarrow> sum_checked (I64 0) (map entry_amount (record_entries r)) = Some (I64 0)"

definition settle ::
  "charge \<Rightarrow> string \<Rightarrow> string \<Rightarrow> i64 \<Rightarrow> (journal_record, finance_error) result" where
  "settle c wallet revenue at =
     and_then (ok_or Overflow (checked_neg_i64 (charge_amount c))) (\<lambda>debit.
       let record = \<lparr>idempotency_key = charge_settlement_key c, record_at_millis = at,
             record_entries = [\<lparr>entry_account = wallet, entry_amount = debit\<rparr>,
                               \<lparr>entry_account = revenue, entry_amount = charge_amount c\<rparr>],
             record_price_version = Some (charge_price_version c)\<rparr>
       in if \<not> balances record then Err Unbalanced else Ok record)"

definition hold_open :: "hold \<Rightarrow> bool" where
  "hold_open h \<longleftrightarrow> hold_state h = Held"

definition capture ::
  "hold \<Rightarrow> minor \<Rightarrow> string \<Rightarrow> i64 \<Rightarrow> (journal_record, finance_error) result" where
  "capture h amount revenue at =
     (if \<not> hold_open h then Err HoldClosed
      else if int_of amount < 0 \<or> amount > hold_amount h then Err CaptureExceedsHold
      else and_then (ok_or Overflow (checked_neg_i64 amount)) (\<lambda>debit.
        let record = \<lparr>idempotency_key = ''capture:'' @ hold_idempotency_key h,
              record_at_millis = at,
              record_entries = [\<lparr>entry_account = hold_account h, entry_amount = debit\<rparr>,
                                \<lparr>entry_account = revenue, entry_amount = amount\<rparr>],
              record_price_version = None\<rparr>
        in if \<not> balances record then Err Unbalanced else Ok record))"

fun negate_entries :: "entry list \<Rightarrow> (entry list, finance_error) result" where
  "negate_entries [] = Ok []"
| "negate_entries (e # es) =
     and_then (ok_or Overflow (checked_neg_i64 (entry_amount e))) (\<lambda>a.
       and_then (negate_entries es) (\<lambda>rest. Ok (e\<lparr>entry_amount := a\<rparr> # rest)))"

definition refund ::
  "journal_record \<Rightarrow> string \<Rightarrow> i64 \<Rightarrow> (journal_record, finance_error) result" where
  "refund settled reason at =
     and_then (negate_entries (record_entries settled)) (\<lambda>es.
       let record = \<lparr>idempotency_key = ''refund:'' @ idempotency_key settled @ '':'' @ reason,
             record_at_millis = at, record_entries = es,
             record_price_version = record_price_version settled\<rparr>
       in if \<not> balances record then Err Unbalanced else Ok record)"

definition enforcement :: "minor \<Rightarrow> i64 \<Rightarrow> enforcement_policy \<Rightarrow> enforcement_step" where
  "enforcement balance negative_for policy =
     (if int_of balance \<ge> 0 then NoStep
      else if negative_for < grace_millis policy then Notify
      else if negative_for < saturating_add_i64 (grace_millis policy) (pause_millis policy)
      then Pause
      else Stop)"

definition corrective_entry ::
  "discrepancy \<Rightarrow> string \<Rightarrow> string \<Rightarrow> i64 \<Rightarrow> (journal_record option, finance_error) result" where
  "corrective_entry disc wallet revenue at =
     (case disc of
        Unsettled _ \<Rightarrow> Ok None
      | Unexplained _ \<Rightarrow> Ok None
      | UnknownPrice _ _ \<Rightarrow> Ok None
      | Mispriced key settled recomputed \<Rightarrow>
          and_then (minor_checked_sub recomputed settled) (\<lambda>difference.
            if int_of difference = 0 then Ok None
            else and_then (ok_or Overflow (checked_neg_i64 difference)) (\<lambda>debit.
              let record = \<lparr>idempotency_key = ''correction:'' @ key, record_at_millis = at,
                    record_entries = [\<lparr>entry_account = wallet, entry_amount = debit\<rparr>,
                                      \<lparr>entry_account = revenue, entry_amount = difference\<rparr>],
                    record_price_version = None\<rparr>
              in if \<not> balances record then Err Unbalanced else Ok (Some record))))"

section \<open>Pricing\<close>

text \<open>
  The reference: what an interval uses of a dimension, and the cost of that use as the
  exact ceiling of \<open>use * rate / PRICE_SCALE\<close> over the integers.
\<close>

definition used :: "usage_interval \<Rightarrow> dimension \<Rightarrow> int" where
  "used iv d = (case deltas iv d of None \<Rightarrow> 0 | Some a \<Rightarrow> uint a)"

definition line_cost :: "(dimension \<rightharpoonup> u64) \<Rightarrow> dimension \<Rightarrow> int \<Rightarrow> int" where
  "line_cost rs d amount =
     (if billable d
      then case rs d of None \<Rightarrow> 0 | Some rate \<Rightarrow> (amount * uint rate + 999999999) div 1000000000
      else 0)"

definition priceable :: "(dimension \<rightharpoonup> u64) \<Rightarrow> dimension \<Rightarrow> int \<Rightarrow> bool" where
  "priceable rs d amount \<longleftrightarrow>
     (billable d \<and> amount \<noteq> 0 \<longrightarrow> (\<exists>rate. rs d = Some rate \<and> amount * uint rate < 2 ^ 64))"

definition exact_charge :: "(uuid \<Rightarrow> string) \<Rightarrow> usage_interval \<Rightarrow> price_list \<Rightarrow> charge" where
  "exact_charge uuid_text iv p =
     \<lparr>charge_settlement_key = settlement_key uuid_text iv,
      charge_workload_id = interval_workload_id iv,
      charge_amount = I64 (sum_list (map (\<lambda>d. line_cost (rates p) d (used iv d)) dimension_ALL)),
      charge_price_version = price_version p,
      charge_lines = (\<lambda>d. if 0 < line_cost (rates p) d (used iv d)
                          then Some (I64 (line_cost (rates p) d (used iv d))) else None)\<rparr>"

lemma entries_of_iff: "(d, v) \<in> set (entries_of m) \<longleftrightarrow> m d = Some v"
proof -
  have "d \<in> set dimension_ALL" by (cases d) (simp_all add: dimension_ALL_def)
  then show ?thesis by (force simp: entries_of_def List.map_filter_def)
qed

lemma fst_entries_of: "map fst (entries_of m) = filter (\<lambda>d. m d \<noteq> None) dimension_ALL"
proof -
  have "map fst (List.map_filter (\<lambda>d. map_option (Pair d) (m d)) ds)
    = filter (\<lambda>d. m d \<noteq> None) ds" for ds
    by (induction ds) (auto simp: List.map_filter_simps split: option.splits)
  then show ?thesis by (simp add: entries_of_def)
qed

lemma entries_of_distinct: "distinct (map fst (entries_of m))"
  by (simp add: fst_entries_of) (simp add: dimension_ALL_def)

lemma sum_entries_of:
  fixes f :: "dimension \<Rightarrow> int"
  assumes "\<And>d. m d = None \<Longrightarrow> f d = 0" and "\<And>d v. m d = Some v \<Longrightarrow> g (d, v) = f d"
  shows "sum_list (map g (entries_of m)) = sum_list (map f dimension_ALL)"
proof -
  have "sum_list (map g (List.map_filter (\<lambda>d. map_option (Pair d) (m d)) ds))
    = sum_list (map f ds)" for ds
    using assms by (induction ds) (auto simp: List.map_filter_simps split: option.splits)
  then show ?thesis by (simp add: entries_of_def)
qed

lemma div_ceil_int:
  fixes x s :: int
  assumes "0 < s"
  shows "(x + (s - 1)) div s = (if 0 < x mod s then x div s + 1 else x div s)"
proof -
  have b: "0 \<le> x mod s" "x mod s < s" using assms by simp_all
  have x: "x = s * (x div s) + x mod s" by simp
  show ?thesis
  proof (cases "0 < x mod s")
    case True
    have "x + (s - 1) = (x mod s - 1) + s * (x div s + 1)"
      using x by (simp add: algebra_simps)
    then have "(x + (s - 1)) div s = x div s + 1 + (x mod s - 1) div s"
      using assms by (simp only:) (subst div_mult_self2, simp_all)
    with True b show ?thesis by (simp add: div_pos_pos_trivial)
  next
    case False
    with b have "x + (s - 1) = (s - 1) + s * (x div s)" using x by (simp add: algebra_simps)
    then have "(x + (s - 1)) div s = x div s + (s - 1) div s"
      using assms by (simp only:) (subst div_mult_self2, simp_all)
    with False b assms show ?thesis by (simp add: div_pos_pos_trivial)
  qed
qed

lemma uint_div_ceil_scale:
  "uint (div_ceil p PRICE_SCALE) = (uint p + 999999999) div 1000000000"
proof -
  have d: "uint (p div PRICE_SCALE) = uint p div 1000000000"
    by (simp add: PRICE_SCALE_def uint_div)
  have m: "uint (p mod PRICE_SCALE) = uint p mod 1000000000"
    by (simp add: PRICE_SCALE_def uint_mod)
  have "uint p div 1000000000 < 2 ^ 64 - 1" and "0 \<le> uint p div 1000000000"
    using uint_bounded [of p] by (simp_all add: pos_imp_zdiv_nonneg_iff)
  then have "uint (p div PRICE_SCALE + 1) = uint p div 1000000000 + 1"
    using d by (simp add: uint_word_ariths mod_pos_pos_trivial)
  then show ?thesis
    using div_ceil_int [of 1000000000 "uint p"] by (simp add: div_ceil_def d m word_less_def)
qed

lemma line_cost_bounds:
  assumes "0 \<le> amount" and "priceable rs d amount"
  shows "0 \<le> line_cost rs d amount \<and> line_cost rs d amount \<le> 18446744074"
proof (cases "billable d \<and> amount \<noteq> 0")
  case True
  with assms(2) obtain rate where "rs d = Some rate" and "amount * uint rate < 2 ^ 64"
    by (auto simp: priceable_def)
  moreover have "0 \<le> (x + 999999999) div 1000000000 \<and> (x + 999999999) div 1000000000 \<le> 18446744074"
    if "0 \<le> x" "x < 2 ^ 64" for x :: int
    using that by auto
  ultimately show ?thesis using True assms(1) by (simp add: line_cost_def)
next
  case False
  then show ?thesis by (auto simp: line_cost_def split: option.splits)
qed

text \<open>One entry of the loop, on every branch.\<close>

lemma price_loop_step:
  assumes "priceable rs d (uint a)" and "0 \<le> int_of acc" and "int_of acc \<le> 2 ^ 62"
  shows "\<exists>acc'. int_of acc' = int_of acc + line_cost rs d (uint a) \<and>
    price_loop rs ((d, a) # es) ls acc
    = price_loop rs es
        (if 0 < line_cost rs d (uint a) then ls(d \<mapsto> I64 (line_cost rs d (uint a))) else ls) acc'"
proof (cases "billable d \<and> a \<noteq> 0")
  case False
  then have "line_cost rs d (uint a) = 0" by (auto simp: line_cost_def split: option.splits)
  with False show ?thesis by auto
next
  case True
  define c where "c = line_cost rs d (uint a)"
  from True assms(1) obtain rate where rate: "rs d = Some rate"
    and fits: "uint a * uint rate < 2 ^ 64"
    by (auto simp: priceable_def uint_0_iff)
  then have mul: "checked_mul a rate = Some (a * rate)"
    and prod: "uint (a * rate) = uint a * uint rate"
    by (simp_all add: checked_mul_def uint_word_ariths)
  have units: "uint (div_ceil (a * rate) PRICE_SCALE) = c"
    using True rate by (simp add: uint_div_ceil_scale prod c_def line_cost_def)
  have bounds: "0 \<le> c" "c \<le> 18446744074"
    using line_cost_bounds [of "uint a"] assms(1) by (simp_all add: c_def)
  then have conv: "i64_of_u64 (div_ceil (a * rate) PRICE_SCALE) = Some (I64 c)"
    by (simp add: i64_of_u64_Some_iff units)
  have intc: "int_of (I64 c) = c" using bounds by (simp add: int_of_I64_in in_i64_def)
  have add: "minor_checked_add acc (I64 c) = Ok (I64 (int_of acc + c))"
    using assms(2,3) bounds
    by (simp add: minor_checked_add_def result_simps checked_add_i64_Some_iff intc
        int_of_I64_in in_i64_def del: int_of_I64)
  have acc': "int_of (I64 (int_of acc + c)) = int_of acc + c"
    using assms(2,3) bounds by (simp add: int_of_I64_in in_i64_def)
  show ?thesis
  proof (cases "0 < c")
    case pos: True
    have "price_loop rs ((d, a) # es) ls acc
      = price_loop rs es (ls(d \<mapsto> I64 c)) (I64 (int_of acc + c))"
      using True rate mul conv pos add intc by simp
    with pos acc' show ?thesis unfolding c_def [symmetric] by (metis (full_types))
  next
    case False
    with bounds have "c = 0" by simp
    moreover have "price_loop rs ((d, a) # es) ls acc = price_loop rs es ls acc"
      using True rate mul conv False intc by simp
    ultimately show ?thesis unfolding c_def [symmetric] by auto
  qed
qed

lemma price_loop_Ok:
  assumes "\<forall>(d, a) \<in> set es. priceable rs d (uint a)" and "distinct (map fst es)"
    and "0 \<le> int_of acc" and "int_of acc + 18446744074 * int (length es) \<le> 2 ^ 62"
  shows "\<exists>ls' acc'. price_loop rs es ls acc = Ok (ls', acc') \<and>
    int_of acc' = int_of acc + sum_list (map (\<lambda>(d, a). line_cost rs d (uint a)) es) \<and>
    (\<forall>d. ls' d = (case map_of es d of
        None \<Rightarrow> ls d
      | Some a \<Rightarrow> if 0 < line_cost rs d (uint a) then Some (I64 (line_cost rs d (uint a))) else ls d))"
  using assms
proof (induction es arbitrary: ls acc)
  case Nil
  then show ?case by simp
next
  case (Cons e es)
  obtain d a where e: "e = (d, a)" by (cases e)
  let ?c = "line_cost rs d (uint a)"
  let ?ls = "if 0 < ?c then ls(d \<mapsto> I64 ?c) else ls"
  from Cons.prems e have pr: "priceable rs d (uint a)" by simp
  then have c: "0 \<le> ?c" "?c \<le> 18446744074" using line_cost_bounds [of "uint a"] by simp_all
  have "int_of acc \<le> 2 ^ 62" using Cons.prems by simp
  from price_loop_step [OF pr Cons.prems(3) this, of es ls] obtain acc1
    where acc1: "int_of acc1 = int_of acc + ?c"
      and step: "price_loop rs (e # es) ls acc = price_loop rs es ?ls acc1"
    unfolding e by blast
  have "\<exists>ls' acc'. price_loop rs es ?ls acc1 = Ok (ls', acc') \<and>
    int_of acc' = int_of acc1 + sum_list (map (\<lambda>(d, a). line_cost rs d (uint a)) es) \<and>
    (\<forall>d. ls' d = (case map_of es d of None \<Rightarrow> ?ls d
      | Some a \<Rightarrow> if 0 < line_cost rs d (uint a) then Some (I64 (line_cost rs d (uint a))) else ?ls d))"
    using Cons.prems c acc1 by (intro Cons.IH) auto
  then obtain ls' acc' where ih: "price_loop rs es ?ls acc1 = Ok (ls', acc')"
      "int_of acc' = int_of acc1 + sum_list (map (\<lambda>(d, a). line_cost rs d (uint a)) es)"
      "\<forall>d. ls' d = (case map_of es d of None \<Rightarrow> ?ls d
        | Some a \<Rightarrow> if 0 < line_cost rs d (uint a) then Some (I64 (line_cost rs d (uint a))) else ?ls d)"
    by blast
  have "map_of es d = None" using Cons.prems(2) e by (simp add: map_of_eq_None_iff)
  with ih(3) have "\<forall>d'. ls' d' = (case map_of (e # es) d' of None \<Rightarrow> ls d'
      | Some a \<Rightarrow> if 0 < line_cost rs d' (uint a) then Some (I64 (line_cost rs d' (uint a))) else ls d')"
    unfolding e by (auto split: option.splits)
  with ih acc1 step e show ?case by (intro exI [of _ ls'] exI [of _ acc']) auto
qed

lemma price_loop_priceable:
  assumes "price_loop rs es ls acc = Ok r"
  shows "\<forall>(d, a) \<in> set es. priceable rs d (uint a)"
  using assms
proof (induction es arbitrary: ls acc)
  case Nil
  then show ?case by simp
next
  case (Cons e es)
  obtain d a where e: "e = (d, a)" by (cases e)
  have "priceable rs d (uint a) \<and> (\<exists>ls' acc'. price_loop rs es ls' acc' = Ok r)"
  proof (cases "billable d \<and> a \<noteq> 0")
    case True
    with Cons.prems e show ?thesis
      by (auto simp: result_simps priceable_def checked_mul_def split: if_splits)
  next
    case False
    with Cons.prems e have "price_loop rs es ls acc = Ok r" by (cases "billable d") simp_all
    with False show ?thesis by (auto simp: priceable_def)
  qed
  with Cons.IH e show ?case by fastforce
qed

lemma length_entries_of: "length (entries_of m) \<le> 8"
proof -
  have "length (entries_of m) = length (filter (\<lambda>d. m d \<noteq> None) dimension_ALL)"
    by (metis fst_entries_of length_map)
  also have "\<dots> \<le> length dimension_ALL" by (rule length_filter_le)
  finally show ?thesis by (simp add: dimension_ALL_def)
qed

lemma priceable_entries:
  "(\<forall>(d, a) \<in> set (entries_of (deltas iv)). priceable rs d (uint a)) \<longleftrightarrow> (\<forall>d. priceable rs d (used iv d))"
proof -
  have "(\<forall>(d, a) \<in> set (entries_of (deltas iv)). priceable rs d (uint a))
    \<longleftrightarrow> (\<forall>d a. deltas iv d = Some a \<longrightarrow> priceable rs d (uint a))"
    by (auto simp: entries_of_iff)
  moreover have "priceable rs d (used iv d)
    \<longleftrightarrow> (\<forall>a. deltas iv d = Some a \<longrightarrow> priceable rs d (uint a))" for d
    by (cases "deltas iv d") (simp_all add: used_def priceable_def)
  ultimately show ?thesis by blast
qed

lemma price_exact_charge:
  assumes "\<forall>d. priceable (rates p) d (used iv d)"
  shows "price uuid_text iv p = Ok (exact_charge uuid_text iv p)"
    and "int_of (charge_amount (exact_charge uuid_text iv p))
      = sum_list (map (\<lambda>d. line_cost (rates p) d (used iv d)) dimension_ALL)"
proof -
  let ?es = "entries_of (deltas iv)"
  have zero: "line_cost (rates p) d 0 = 0" for d
    by (simp add: line_cost_def split: option.splits)
  have "int_of (I64 0) = 0" by simp
  then obtain ls acc where loop: "price_loop (rates p) ?es Map.empty (I64 0) = Ok (ls, acc)"
      "int_of acc = sum_list (map (\<lambda>(d, a). line_cost (rates p) d (uint a)) ?es)"
      "\<forall>d. ls d = (case map_of ?es d of None \<Rightarrow> None
        | Some a \<Rightarrow> if 0 < line_cost (rates p) d (uint a) then Some (I64 (line_cost (rates p) d (uint a))) else None)"
    using price_loop_Ok [OF priceable_entries [THEN iffD2, OF assms] entries_of_distinct,
        of "I64 0" Map.empty] length_entries_of [of "deltas iv"] by auto
  have "map_of ?es d = Some v \<longleftrightarrow> deltas iv d = Some v" for d v
    by (simp add: map_of_eq_Some_iff entries_of_distinct entries_of_iff)
  then have mapof: "map_of ?es d = deltas iv d" for d
    by (metis option.exhaust)
  have sum: "sum_list (map (\<lambda>(d, a). line_cost (rates p) d (uint a)) ?es)
    = sum_list (map (\<lambda>d. line_cost (rates p) d (used iv d)) dimension_ALL)"
    by (rule sum_entries_of) (auto simp: used_def zero)
  have amount: "acc = charge_amount (exact_charge uuid_text iv p)"
    using I64_int_of [of acc] unfolding loop(2) sum by (simp add: exact_charge_def del: int_of_I64)
  then show "int_of (charge_amount (exact_charge uuid_text iv p))
      = sum_list (map (\<lambda>d. line_cost (rates p) d (used iv d)) dimension_ALL)"
    using loop(2) sum by simp
  have "ls = charge_lines (exact_charge uuid_text iv p)"
  proof
    show "ls d = charge_lines (exact_charge uuid_text iv p) d" for d
      using loop(3) mapof by (cases "deltas iv d") (simp_all add: exact_charge_def used_def zero)
  qed
  with amount show "price uuid_text iv p = Ok (exact_charge uuid_text iv p)"
    using loop(1) by (simp add: price_def exact_charge_def)
qed

lemma price_Ok_priceable:
  assumes "price uuid_text iv p = Ok c"
  shows "\<forall>d. priceable (rates p) d (used iv d)"
proof -
  from assms obtain r
    where "price_loop (rates p) (entries_of (deltas iv)) Map.empty (I64 0) = Ok r"
    by (auto simp: price_def result_simps)
  from price_loop_priceable [OF this] show ?thesis by (rule priceable_entries [THEN iffD1])
qed

lemma line_cost_mono:
  assumes "a \<le> b"
  shows "line_cost rs d a \<le> line_cost rs d b"
proof -
  have "(a * uint rate + 999999999) div 1000000000 \<le> (b * uint rate + 999999999) div 1000000000"
    for rate :: u64
    using assms by (intro zdiv_mono1 add_right_mono mult_right_mono) simp_all
  then show ?thesis by (simp add: line_cost_def split: option.split)
qed

lemma price_Ok_iff:
  "price uuid_text iv p = Ok c
   \<longleftrightarrow> (\<forall>d. priceable (rates p) d (used iv d)) \<and> c = exact_charge uuid_text iv p"
  using price_Ok_priceable price_exact_charge(1) by (metis sum.inject(2))

section \<open>The ledger\<close>

text \<open>What a record posts to an account, over the integers.\<close>

definition posted :: "journal_record \<Rightarrow> string \<Rightarrow> int" where
  "posted r a =
     sum_list (map (\<lambda>e. int_of (entry_amount e)) (filter (\<lambda>e. entry_account e = a) (record_entries r)))"

lemma sum_checked_exact:
  "sum_checked acc xs = Some t \<Longrightarrow> int_of t = int_of acc + sum_list (map int_of xs)"
  by (induction acc xs rule: sum_checked.induct) (auto simp: i64_simps split: option.splits)

lemma balances_exact:
  "balances r \<Longrightarrow> sum_list (map (\<lambda>e. int_of (entry_amount e)) (record_entries r)) = 0"
  by (drule balances_def [THEN iffD1], drule sum_checked_exact) (simp add: comp_def)

lemma balanced_pair:
  assumes "int_of b = - int_of a"
  shows "sum_checked (I64 0) [b, a] = Some (I64 0)"
proof -
  have "checked_add_i64 (I64 0) b = Some b" and "checked_add_i64 b a = Some (I64 0)"
    using assms by (simp_all add: checked_add_i64_Some_iff)
  then show ?thesis by simp
qed

definition paying_record :: "string \<Rightarrow> i64 \<Rightarrow> string option \<Rightarrow> string \<Rightarrow> string \<Rightarrow> int \<Rightarrow> journal_record" where
  "paying_record key at version payer payee n =
     \<lparr>idempotency_key = key, record_at_millis = at,
      record_entries = [\<lparr>entry_account = payer, entry_amount = I64 (- n)\<rparr>,
                        \<lparr>entry_account = payee, entry_amount = I64 n\<rparr>],
      record_price_version = version\<rparr>"

lemma checked_neg_i64_eq:
  "checked_neg_i64 a = (if a = i64_MIN then None else Some (I64 (- int_of a)))"
proof -
  have "in_i64 (- int_of a) \<longleftrightarrow> a \<noteq> i64_MIN"
    using int_of_bounds [of a] by (auto simp: in_i64_def i64_eq_iff i64_MIN_def)
  then show ?thesis by (simp add: checked_neg_i64_def checked_i64_def)
qed

lemma int_of_neg: "a \<noteq> i64_MIN \<Longrightarrow> int_of (I64 (- int_of a)) = - int_of a"
  using int_of_bounds [of a] by (auto simp: i64_eq_iff i64_MIN_def)

lemma settle_eq:
  "settle c wallet revenue at =
     (if charge_amount c = i64_MIN then Err Overflow
      else Ok (paying_record (charge_settlement_key c) at (Some (charge_price_version c))
                 wallet revenue (int_of (charge_amount c))))"
  by (simp add: settle_def checked_neg_i64_eq balances_def balanced_pair int_of_neg
      paying_record_def Let_def del: int_of_I64 sum_checked.simps)

lemma capture_eq:
  "capture h amount revenue at =
     (if hold_state h \<noteq> Held then Err HoldClosed
      else if int_of amount < 0 \<or> int_of (hold_amount h) < int_of amount then Err CaptureExceedsHold
      else Ok (paying_record (''capture:'' @ hold_idempotency_key h) at None
                 (hold_account h) revenue (int_of amount)))"
proof -
  have "amount \<noteq> i64_MIN" if "0 \<le> int_of amount"
    using that by (auto simp: i64_MIN_def)
  then show ?thesis
    by (simp add: capture_def hold_open_def checked_neg_i64_eq balances_def balanced_pair int_of_neg
        paying_record_def Let_def i64_less_iff del: int_of_I64 sum_checked.simps)
qed

lemma corrective_entry_eq:
  "corrective_entry (Mispriced key settled recomputed) wallet revenue at =
     (let n = int_of recomputed - int_of settled in
      if n = 0 then Ok None
      else if in_i64 n \<and> in_i64 (- n) then Ok (Some (paying_record (''correction:'' @ key) at None wallet revenue n))
      else Err Overflow)"
proof (cases "in_i64 (int_of recomputed - int_of settled)")
  case True
  define x where "x = I64 (int_of recomputed - int_of settled)"
  have x: "int_of x = int_of recomputed - int_of settled" "checked_sub_i64 recomputed settled = Some x"
    using True by (simp_all add: x_def int_of_I64_in checked_sub_i64_def checked_i64_def del: int_of_I64)
  have "x = i64_MIN \<longleftrightarrow> \<not> in_i64 (- int_of x)"
    using int_of_bounds [of x] by (auto simp: in_i64_def i64_eq_iff i64_MIN_def)
  then show ?thesis using True
    by (simp add: corrective_entry_def minor_checked_sub_def checked_neg_i64_eq balances_def balanced_pair
        int_of_neg paying_record_def Let_def x(2) flip: x(1) del: int_of_I64 sum_checked.simps)
next
  case False
  moreover from False have "int_of recomputed - int_of settled \<noteq> 0" by (auto simp: in_i64_def)
  ultimately show ?thesis
    by (simp add: corrective_entry_def minor_checked_sub_def checked_sub_i64_def checked_i64_def Let_def)
qed

lemma posted_paying:
  assumes "in_i64 n" and "in_i64 (- n)"
  shows "posted (paying_record key at version payer payee n) a
    = (if a = payee then n else 0) - (if a = payer then n else 0)"
  using assms by (auto simp: posted_def paying_record_def int_of_I64_in simp del: int_of_I64)

lemma paying_balances:
  assumes "in_i64 n" and "in_i64 (- n)"
  shows "balances (paying_record key at version payer payee n)"
  using balanced_pair [of "I64 (- n)" "I64 n"] assms
  by (simp add: balances_def paying_record_def int_of_I64_in del: int_of_I64 sum_checked.simps)

lemma negate_entries_Ok_iff:
  "negate_entries es = Ok es' \<longleftrightarrow>
     (\<forall>e \<in> set es. entry_amount e \<noteq> i64_MIN) \<and>
     es' = map (\<lambda>e. e\<lparr>entry_amount := I64 (- int_of (entry_amount e))\<rparr>) es"
  by (induction es arbitrary: es') (auto simp: result_simps checked_neg_i64_eq)

lemma posted_negate:
  assumes "negate_entries (record_entries r) = Ok es" and "record_entries r' = es"
  shows "posted r' a = - posted r a"
proof -
  have "sum_list (map (\<lambda>e. int_of (entry_amount e)) (filter (\<lambda>e. entry_account e = a) es'))
    = - sum_list (map (\<lambda>e. int_of (entry_amount e)) (filter (\<lambda>e. entry_account e = a) es0))"
    if "negate_entries es0 = Ok es'" for es0 es'
    using that
  proof (induction es0 arbitrary: es')
    case (Cons e es0)
    then show ?case
      by (auto simp: result_simps checked_neg_i64_eq int_of_neg simp del: int_of_I64 split: if_splits)
  qed simp
  with assms show ?thesis by (simp add: posted_def)
qed

lemma refund_Ok:
  assumes "refund r reason at = Ok r'"
  shows "balances r'" "posted r' a = - posted r a" "record_price_version r' = record_price_version r"
proof -
  from assms obtain es where es: "negate_entries (record_entries r) = Ok es" "record_entries r' = es"
    and "balances r'" "record_price_version r' = record_price_version r"
    by (auto simp: refund_def result_simps Let_def split: if_splits)
  then show "balances r'" "posted r' a = - posted r a" "record_price_version r' = record_price_version r"
    by (simp_all add: posted_negate [OF es])
qed

lemma refund_paying:
  assumes "in_i64 n" and "in_i64 (- n)"
  shows "refund (paying_record key at version payer payee n) reason at'
    = Ok (paying_record (''refund:'' @ key @ '':'' @ reason) at' version payer payee (- n))"
proof -
  have "I64 n \<noteq> i64_MIN" "I64 (- n) \<noteq> i64_MIN"
    using assms by (auto simp: i64_eq_iff i64_MIN_def in_i64_def)
  moreover have "sum_checked (I64 0) [I64 n, I64 (- n)] = Some (I64 0)"
    using assms by (intro balanced_pair) (simp add: int_of_I64_in del: int_of_I64)
  ultimately show ?thesis using assms
    by (simp add: refund_def paying_record_def checked_neg_i64_eq int_of_I64_in balances_def Let_def
        del: int_of_I64 sum_checked.simps)
qed

section \<open>Metering\<close>

definition counter :: "usage_sample \<Rightarrow> dimension \<Rightarrow> int" where
  "counter s d = (case cumulative s d of None \<Rightarrow> 0 | Some n \<Rightarrow> uint n)"

text \<open>The intervals between each sample and the next, as a collection pass derives them.\<close>

fun metered :: "usage_sample \<Rightarrow> usage_sample list \<Rightarrow> (usage_interval list, finance_error) result" where
  "metered s [] = Ok []"
| "metered s (t # ts) =
     and_then (interval_between s t) (\<lambda>iv. and_then (metered t ts) (\<lambda>ivs. Ok (iv # ivs)))"

lemma uint_counter_delta:
  "uint (counter_delta before now)
   = (if uint before \<le> uint now then uint now - uint before else uint now)"
proof (cases "before \<le> now")
  case True
  then have "checked_sub now before = Some (now - before)" by (simp add: checked_sub_def)
  then have "uint now = uint before + uint (now - before)" by (simp only: checked_sub_Some_iff)
  with True show ?thesis by (simp add: counter_delta_def checked_sub_def word_le_def)
next
  case False
  then show ?thesis by (simp add: counter_delta_def checked_sub_def word_le_def)
qed

lemma used_interval_between:
  assumes "interval_between s t = Ok iv"
  shows "used iv d = (if counter s d \<le> counter t d then counter t d - counter s d else counter t d)"
  using assms
  by (auto simp: interval_between_def used_def counter_def uint_counter_delta split: if_splits option.splits)

lemma interval_between_bounds:
  assumes "interval_between s t = Ok iv"
  shows "interval_start_millis iv = collected_at_millis s" "interval_end_millis iv = collected_at_millis t"
    "collected_at_millis s < collected_at_millis t"
    "interval_workload_id iv = sample_workload_id s" "sample_workload_id t = sample_workload_id s"
  using assms by (auto simp: interval_between_def split: if_splits)

text \<open>
  The lives of a counter that starts over when its workload does: the longest stretches of
  readings in which it does not go back.
\<close>

fun lives :: "int list \<Rightarrow> int list list" where
  "lives [] = []"
| "lives [x] = [[x]]"
| "lives (x # y # ys) =
     (case lives (y # ys) of
        [] \<Rightarrow> [[x]]
      | l # ls \<Rightarrow> if x \<le> y then (x # l) # ls else [x] # l # ls)"

lemma lives_Cons: "\<exists>l ls. lives (x # xs) = (x # l) # ls"
  by (cases xs rule: lives.cases; cases "lives xs") (auto split: list.split)

lemma concat_lives: "concat (lives xs) = xs"
  by (induction xs rule: lives.induct) (auto split: list.split)

lemma metered_sum:
  assumes "metered s ts = Ok ivs"
  shows "sum_list (map (\<lambda>iv. used iv d) ivs)
    = sum_list (map last (lives (map (\<lambda>t. counter t d) (s # ts)))) - counter s d"
  using assms
proof (induction s ts arbitrary: ivs rule: metered.induct)
  case (2 s t ts)
  then obtain iv ivs' where ivs: "ivs = iv # ivs'" "interval_between s t = Ok iv" "metered t ts = Ok ivs'"
    by (auto simp: result_simps)
  obtain l ls where "lives (counter t d # map (\<lambda>t. counter t d) ts) = (counter t d # l) # ls"
    using lives_Cons by blast
  then show ?case using 2 ivs used_interval_between [OF ivs(2), of d] by auto
qed simp

text \<open>
  What a workload really used between two readings is one amount for each of its lives: the
  one it is in and one for each restart, after which its counter starts from zero.
\<close>

fun counter_after :: "int \<Rightarrow> nat list \<Rightarrow> int" where
  "counter_after c [] = c"
| "counter_after c [n] = c + int n"
| "counter_after c (n # m # ns) = counter_after 0 (m # ns)"

fun lived :: "dimension \<Rightarrow> usage_sample \<Rightarrow> usage_sample list \<Rightarrow> nat list list \<Rightarrow> bool" where
  "lived d s [] uses = (uses = [])"
| "lived d s (t # ts) [] = False"
| "lived d s (t # ts) (use # uses) = (counter t d = counter_after (counter s d) use \<and> lived d t ts uses)"

lemma counter_nonneg: "0 \<le> counter s d"
  by (simp add: counter_def split: option.split)

lemma counter_after_le: "0 \<le> c \<Longrightarrow> counter_after c use \<le> c + int (sum_list use)"
  by (induction c use rule: counter_after.induct) auto

lemma counter_after_restart: "1 < length use \<Longrightarrow> counter_after c use \<le> int (sum_list use)"
proof (cases use rule: remdups_adj.cases)
  case (3 n m ns)
  then show ?thesis using counter_after_le [of 0 "m # ns"] by simp
qed simp_all

lemma used_bounded:
  assumes "interval_between s t = Ok iv" and "counter t d = counter_after (counter s d) use"
  shows "used iv d \<le> int (sum_list use)" "length use \<le> 1 \<Longrightarrow> used iv d = int (sum_list use)"
proof -
  show *: "used iv d = int (sum_list use)" if "length use \<le> 1"
    using that assms used_interval_between [OF assms(1), of d] by (cases use) auto
  show "used iv d \<le> int (sum_list use)"
  proof (cases "length use \<le> 1")
    case False
    then have "counter t d \<le> int (sum_list use)" using counter_after_restart [of use] assms(2) by simp
    then show ?thesis using used_interval_between [OF assms(1), of d] counter_nonneg [of s d] by (simp split: if_splits)
  qed (use * in simp)
qed

lemma metered_bounded:
  assumes "metered s ts = Ok ivs" and "lived d s ts uses"
  shows "sum_list (map (\<lambda>iv. used iv d) ivs) \<le> int (sum_list (map sum_list uses))"
    "\<forall>use \<in> set uses. length use \<le> 1 \<Longrightarrow>
      sum_list (map (\<lambda>iv. used iv d) ivs) = int (sum_list (map sum_list uses))"
  using assms
proof (induction d s ts uses arbitrary: ivs rule: lived.induct)
  case (3 d s t ts use uses)
  {
    case 1
    then show ?case using 3 used_bounded(1) by (fastforce simp: result_simps intro: add_mono)
  next
    case 2
    then show ?case using 3 used_bounded(2) by (fastforce simp: result_simps)
  }
qed (auto simp: result_simps)

text \<open>Consecutive intervals of one workload abut: each starts where the one before ends.\<close>

fun abut :: "i64 \<Rightarrow> usage_interval list \<Rightarrow> bool" where
  "abut t [] = True"
| "abut t (iv # ivs) =
     (interval_start_millis iv = t \<and> t < interval_end_millis iv \<and> abut (interval_end_millis iv) ivs)"

lemma metered_abut:
  assumes "metered s ts = Ok ivs"
  shows "abut (collected_at_millis s) ivs" "\<forall>iv \<in> set ivs. interval_workload_id iv = sample_workload_id s"
  using assms
  by (induction s ts arbitrary: ivs rule: metered.induct)
    (auto simp: result_simps interval_between_bounds)

lemma colon_not_in_show_int: "CHR '':'' \<notin> set (show_int x)"
proof
  assume "CHR '':'' \<in> set (show_int x)"
  from show_int_chars [OF this] show False by (auto simp: is_ascii_digit_def byte_def)
qed

lemma settlement_key_inject:
  assumes "inj uuid_text" and "\<And>u. CHR '':'' \<notin> set (uuid_text u)"
  shows "settlement_key uuid_text i = settlement_key uuid_text j \<longleftrightarrow>
    interval_workload_id i = interval_workload_id j
    \<and> interval_start_millis i = interval_start_millis j
    \<and> interval_sample_id i = interval_sample_id j"
proof -
  have "settlement_key uuid_text i = settlement_key uuid_text j \<longleftrightarrow>
    uuid_text (interval_workload_id i) = uuid_text (interval_workload_id j) \<and>
    show_i64 (interval_start_millis i) @ CHR '':'' # interval_sample_id i
    = show_i64 (interval_start_millis j) @ CHR '':'' # interval_sample_id j"
    using append_sep_inject [OF assms(2) assms(2)] by (simp add: settlement_key_def)
  also have "\<dots> \<longleftrightarrow> interval_workload_id i = interval_workload_id j \<and>
      show_i64 (interval_start_millis i) = show_i64 (interval_start_millis j) \<and>
      interval_sample_id i = interval_sample_id j"
    using append_sep_inject [OF colon_not_in_show_int colon_not_in_show_int] assms(1)
    by (simp add: show_i64_def inj_eq)
  finally show ?thesis by (simp add: show_i64_def show_int_inject i64_eq_iff)
qed

section \<open>Enforcement and price lists\<close>

fun rank_enforcement :: "enforcement_step \<Rightarrow> nat" where
  "rank_enforcement NoStep = 0"
| "rank_enforcement Notify = 1"
| "rank_enforcement Pause = 2"
| "rank_enforcement Stop = 3"

lemma rank_enforcement_inject: "rank_enforcement a = rank_enforcement b \<longleftrightarrow> a = b"
  by (cases a; cases b) simp_all

instantiation enforcement_step :: linorder
begin

definition less_eq_enforcement_step :: "enforcement_step \<Rightarrow> enforcement_step \<Rightarrow> bool" where
  "a \<le> b \<longleftrightarrow> rank_enforcement a \<le> rank_enforcement b"

definition less_enforcement_step :: "enforcement_step \<Rightarrow> enforcement_step \<Rightarrow> bool" where
  "a < b \<longleftrightarrow> rank_enforcement a < rank_enforcement b"

instance
  by standard (auto simp: less_eq_enforcement_step_def less_enforcement_step_def
      simp flip: rank_enforcement_inject)

end

lemma max_by_key_greatest:
  assumes "max_by_key k xs = Some x"
  shows "x \<in> set xs \<and> (\<forall>y \<in> set xs. k y \<le> k x)"
  using assms
proof (induction xs arbitrary: x)
  case (Cons a xs)
  show ?case
  proof (cases "max_by_key k xs")
    case None
    then have "xs = []" by (cases xs) (auto split: option.splits)
    with Cons.prems show ?thesis by simp
  next
    case (Some y)
    with Cons.IH [OF Some] Cons.prems show ?thesis by (auto split: if_splits)
  qed
qed simp

lemma max_by_key_None_iff: "max_by_key k xs = None \<longleftrightarrow> xs = []"
  by (cases xs) (auto split: option.splits)

lemma price_list_at_newest:
  assumes "price_list_at pls at = Some l"
  shows "l \<in> set pls" "effective_from_millis l \<le> at"
    "\<forall>l' \<in> set pls. effective_from_millis l' \<le> at \<longrightarrow> effective_from_millis l' \<le> effective_from_millis l"
  using max_by_key_greatest [OF assms [unfolded price_list_at_def]] by auto

lemma price_list_at_None_iff:
  "price_list_at pls at = None \<longleftrightarrow> (\<forall>l \<in> set pls. at < effective_from_millis l)"
  by (auto simp: price_list_at_def max_by_key_None_iff filter_empty_conv not_le)

section \<open>Properties\<close>

lemma exact_charge_in_range:
  assumes "\<forall>d. priceable (rates p) d (used iv d)"
  shows "in_i64 (- int_of (charge_amount (exact_charge uuid_text iv p)))"
    and "0 \<le> int_of (charge_amount (exact_charge uuid_text iv p))"
proof -
  have "0 \<le> line_cost (rates p) d (used iv d)" for d
    using line_cost_bounds [of "used iv d" "rates p" d] assms by (simp add: used_def split: option.splits)
  then show nonneg: "0 \<le> int_of (charge_amount (exact_charge uuid_text iv p))"
    unfolding price_exact_charge(2) [OF assms] by (intro sum_list_nonneg) auto
  then show "in_i64 (- int_of (charge_amount (exact_charge uuid_text iv p)))"
    using int_of_bounds [of "charge_amount (exact_charge uuid_text iv p)"] by (simp add: in_i64_def)
qed

text \<open>
  C27: pricing is exact. An interval prices exactly when every billable dimension it uses has
  a rate and the product of use and rate fits 64 bits, and then the amount is the sum over
  the dimensions of the ceiling of \<open>use * rate / 10^9\<close>, with one line per dimension that
  costs anything; ingress is never in it.
\<close>

theorem price_exact:
  "price uuid_text iv p = Ok c
   \<longleftrightarrow> (\<forall>d. priceable (rates p) d (used iv d)) \<and> c = exact_charge uuid_text iv p"
  by (rule price_Ok_iff)

lemma ceil_bounds:
  fixes x :: int
  shows "x \<le> 1000000000 * ((x + 999999999) div 1000000000)"
    and "1000000000 * ((x + 999999999) div 1000000000) < x + 1000000000"
  using div_mult_mod_eq [of "x + 999999999" 1000000000] pos_mod_bound [of 1000000000 "x + 999999999"]
    pos_mod_sign [of 1000000000 "x + 999999999"] by linarith+

lemma line_cost_split:
  assumes "priceable rs d a" and "priceable rs d b" and "0 \<le> a" and "0 \<le> b"
  shows "line_cost rs d (a + b) \<le> line_cost rs d a + line_cost rs d b"
    and "line_cost rs d a + line_cost rs d b \<le> line_cost rs d (a + b) + of_bool (billable d)"
proof -
  define c :: "int \<Rightarrow> int" where "c x = (x + 999999999) div 1000000000" for x
  have "c (x + y) \<le> c x + c y" and "c x + c y \<le> c (x + y) + 1" for x y
    using ceil_bounds [of x] ceil_bounds [of y] ceil_bounds [of "x + y"]
    unfolding c_def [symmetric] by linarith+
  then show "line_cost rs d (a + b) \<le> line_cost rs d a + line_cost rs d b"
    and "line_cost rs d a + line_cost rs d b \<le> line_cost rs d (a + b) + of_bool (billable d)"
    by (simp_all add: line_cost_def distrib_right c_def split: option.split)
qed

text \<open>
  Rounding is bounded. When two intervals together use what a third one uses, billing
  them apart never costs less than billing the third and costs at most one minor unit more
  for each of the seven billable dimensions.
\<close>

theorem price_split:
  assumes "price uuid_text i p = Ok ci" and "price uuid_text j p = Ok cj" and "price uuid_text k p = Ok ck"
    and "\<And>d. used k d = used i d + used j d"
  shows "int_of (charge_amount ck) \<le> int_of (charge_amount ci) + int_of (charge_amount cj)
    \<and> int_of (charge_amount ci) + int_of (charge_amount cj) \<le> int_of (charge_amount ck) + 7"
proof -
  have amount: "int_of (charge_amount c) = sum_list (map (\<lambda>d. line_cost (rates p) d (used iv d)) dimension_ALL)"
    and pr: "priceable (rates p) d (used iv d)" if "price uuid_text iv p = Ok c" for iv c d
    using that price_exact_charge(2) by (auto simp: price_Ok_iff)
  have nonneg: "0 \<le> used iv d" for iv d by (simp add: used_def split: option.split)
  note split = line_cost_split [OF pr [OF assms(1)] pr [OF assms(2)] nonneg nonneg, folded assms(4)]
  have "int_of (charge_amount ck) \<le> int_of (charge_amount ci) + int_of (charge_amount cj)"
    unfolding amount [OF assms(1)] amount [OF assms(2)] amount [OF assms(3)] dimension_ALL_def
    using split(1) [of CpuMillis] split(1) [of MemoryMibSeconds] split(1) [of StorageMibSeconds]
      split(1) [of DiskReadBytes] split(1) [of DiskWriteBytes] split(1) [of NetworkIngressBytes]
      split(1) [of NetworkEgressBytes] split(1) [of AcceleratorMillis] by simp
  moreover have "int_of (charge_amount ci) + int_of (charge_amount cj) \<le> int_of (charge_amount ck) + 7"
    unfolding amount [OF assms(1)] amount [OF assms(2)] amount [OF assms(3)] dimension_ALL_def
    using split(2) [of CpuMillis] split(2) [of MemoryMibSeconds] split(2) [of StorageMibSeconds]
      split(2) [of DiskReadBytes] split(2) [of DiskWriteBytes] split(2) [of NetworkIngressBytes]
      split(2) [of NetworkEgressBytes] split(2) [of AcceleratorMillis] by (simp add: billable_def)
  ultimately show ?thesis ..
qed

definition sample_interval :: "u64 \<Rightarrow> usage_interval" where
  "sample_interval cpu =
     \<lparr>interval_workload_id = 7, interval_start_millis = I64 0, interval_end_millis = I64 10,
      interval_sample_id = ''a'', deltas = [CpuMillis \<mapsto> cpu]\<rparr>"

definition sample_prices :: price_list where
  "sample_prices = \<lparr>price_version = ''v1'', effective_from_millis = I64 0, rates = [CpuMillis \<mapsto> 1500000000]\<rparr>"

lemma sample_used: "used (sample_interval n) d
  = (if d = CpuMillis then uint n else 0)"
  by (simp add: used_def sample_interval_def)

lemma sample_priceable: "uint n < 1000 \<Longrightarrow> priceable (rates sample_prices) d (used (sample_interval n) d)"
  by (simp add: sample_used priceable_def sample_prices_def billable_def)

lemma sample_price:
  "uint n < 1000 \<Longrightarrow> price show_u64 (sample_interval n) sample_prices
     = Ok (exact_charge show_u64 (sample_interval n) sample_prices)"
  using price_exact_charge(1) sample_priceable by blast

theorem price_split_witness:
  "int_of (charge_amount (exact_charge show_u64 (sample_interval 8) sample_prices))
   \<le> int_of (charge_amount (exact_charge show_u64 (sample_interval 3) sample_prices))
     + int_of (charge_amount (exact_charge show_u64 (sample_interval 5) sample_prices))"
  using price_split [OF sample_price [of 3] sample_price [of 5] sample_price [of 8]]
  by (simp add: sample_used)

text \<open>
  C28: metering is exact across restarts. However the readings of a workload are spaced, the
  intervals derived from them abut without gap or overlap, belong to that workload, and add up
  to what the counter had reached at the last reading of each of its lives, less what it stood
  at in the first reading. So whatever the workload used and however often it restarted, no
  more is metered than was used, and exactly that where it did not restart.
\<close>

theorem metering_exact:
  assumes "metered s ts = Ok ivs"
  shows "abut (collected_at_millis s) ivs
    \<and> (\<forall>iv \<in> set ivs. interval_workload_id iv = sample_workload_id s)
    \<and> sum_list (map (\<lambda>iv. used iv d) ivs)
        = sum_list (map last (lives (map (\<lambda>t. counter t d) (s # ts)))) - counter s d
    \<and> (\<forall>uses. lived d s ts uses \<longrightarrow>
        sum_list (map (\<lambda>iv. used iv d) ivs) \<le> int (sum_list (map sum_list uses))
        \<and> ((\<forall>use \<in> set uses. length use \<le> 1) \<longrightarrow>
            sum_list (map (\<lambda>iv. used iv d) ivs) = int (sum_list (map sum_list uses))))"
  using metered_abut [OF assms] metered_sum [OF assms] metered_bounded [OF assms] by blast

definition sample_reading :: "int \<Rightarrow> u64 \<Rightarrow> usage_sample" where
  "sample_reading at cpu =
     \<lparr>sample_workload_id = 7, provider_sample_id = ''a'', sample_provider = ''a501'',
      collected_at_millis = I64 at, cumulative = [CpuMillis \<mapsto> cpu]\<rparr>"

text \<open>A counter read as 10, 15, 4 and 40, whose workload restarted after the second reading.\<close>

theorem metering_exact_witness:
  "\<exists>ivs. metered (sample_reading 1 10) [sample_reading 2 15, sample_reading 4 4, sample_reading 5 40] = Ok ivs
    \<and> sum_list (map (\<lambda>iv. used iv CpuMillis) ivs) = 45
    \<and> sum_list (map (\<lambda>iv. used iv CpuMillis) ivs) \<le> int (sum_list (map sum_list [[5], [3, 4], [36]]))"
proof -
  let ?ts = "[sample_reading 2 15, sample_reading 4 4, sample_reading 5 40]"
  obtain ivs where ivs: "metered (sample_reading 1 10) ?ts = Ok ivs"
    by (simp add: interval_between_def sample_reading_def i64_simps)
  have "lived CpuMillis (sample_reading 1 10) ?ts [[5], [3, 4], [36]]"
    by (simp add: counter_def sample_reading_def)
  then have "sum_list (map (\<lambda>iv. used iv CpuMillis) ivs) = 45"
    "sum_list (map (\<lambda>iv. used iv CpuMillis) ivs) \<le> int (sum_list (map sum_list [[5], [3, 4], [36]]))"
    using metering_exact [OF ivs, of CpuMillis] by (simp add: counter_def sample_reading_def, blast)
  with ivs show ?thesis by blast
qed

text \<open>
  Settlement keys identify intervals. Two intervals have the same key exactly when they
  are the same reading of the same workload from the same instant, so one commit per key is
  one charge per interval. It rests on the text of a UUID being injective and free of colons.
\<close>

theorem settlement_key_injective:
  assumes "inj uuid_text" and "\<And>u. CHR '':'' \<notin> set (uuid_text u)"
  shows "settlement_key uuid_text i = settlement_key uuid_text j \<longleftrightarrow>
    interval_workload_id i = interval_workload_id j
    \<and> interval_start_millis i = interval_start_millis j
    \<and> interval_sample_id i = interval_sample_id j"
  by (rule settlement_key_inject [OF assms])

lemma show_u64_text: "inj (show_u64 :: uuid \<Rightarrow> string)" "CHR '':'' \<notin> set (show_u64 (u :: uuid))"
proof -
  show "inj (show_u64 :: uuid \<Rightarrow> string)"
    by (rule injI) (simp add: show_u64_def show_nat_inject word_unat_eq_iff)
  show "CHR '':'' \<notin> set (show_u64 u)"
    using show_nat_digits [of "unat u"] by (auto simp: show_u64_def is_ascii_digit_def byte_def)
qed

theorem settlement_key_injective_witness:
  "settlement_key show_u64 (sample_interval 3)
   \<noteq> settlement_key show_u64 (sample_interval 3\<lparr>interval_sample_id := ''b''\<rparr>)"
  using settlement_key_injective [OF show_u64_text,
      of "sample_interval 3" "sample_interval 3\<lparr>interval_sample_id := ''b''\<rparr>"]
  by (simp add: sample_interval_def)

text \<open>
  C29: a priced charge settles and can be given back. Settlement of a charge that pricing
  produced never overflows and is never unbalanced; it moves exactly the charged amount,
  which is not negative, from the wallet to revenue under the settlement key, and the refund
  of that record is accepted, balanced, and undoes it on every account.
\<close>

theorem charge_settles_and_refunds:
  assumes "price uuid_text iv p = Ok c" and "wallet \<noteq> revenue"
  shows "\<exists>r r'. settle c wallet revenue at = Ok r \<and> balances r
    \<and> idempotency_key r = settlement_key uuid_text iv
    \<and> 0 \<le> int_of (charge_amount c)
    \<and> posted r wallet = - int_of (charge_amount c) \<and> posted r revenue = int_of (charge_amount c)
    \<and> refund r reason at' = Ok r' \<and> balances r'
    \<and> (\<forall>account. posted r account + posted r' account = 0)"
proof -
  from assms(1) have pr: "\<forall>d. priceable (rates p) d (used iv d)" and c: "c = exact_charge uuid_text iv p"
    by (simp_all add: price_Ok_iff)
  define n where "n = int_of (charge_amount c)"
  have n: "in_i64 n" "in_i64 (- n)" "0 \<le> n"
    using exact_charge_in_range [OF pr] by (simp_all add: n_def c)
  then have "charge_amount c \<noteq> i64_MIN" by (auto simp: n_def i64_MIN_def)
  define r where "r = paying_record (charge_settlement_key c) at (Some (charge_price_version c)) wallet revenue n"
  have settle: "settle c wallet revenue at = Ok r"
    using \<open>charge_amount c \<noteq> i64_MIN\<close> by (simp add: settle_eq r_def n_def)
  have "balances r" using settle by (auto simp: settle_def Let_def result_simps split: if_splits)
  moreover have refund: "refund r reason at'
    = Ok (paying_record (''refund:'' @ charge_settlement_key c @ '':'' @ reason) at' (Some (charge_price_version c)) wallet revenue (- n))"
    unfolding r_def by (rule refund_paying [OF n(1,2)])
  moreover note refund_Ok(1,2) [OF refund]
  moreover have "posted r wallet = - n" "posted r revenue = n"
    using posted_paying [OF n(1,2)] assms(2) by (simp_all add: r_def)
  moreover have "idempotency_key r = settlement_key uuid_text iv"
    by (simp add: r_def paying_record_def c exact_charge_def)
  ultimately show ?thesis using settle n(3) unfolding n_def [symmetric] by auto
qed

theorem charge_settles_and_refunds_witness:
  "\<exists>r r'. settle (exact_charge show_u64 (sample_interval 3) sample_prices) ''w'' ''rev'' (I64 10) = Ok r
    \<and> refund r ''late'' (I64 20) = Ok r' \<and> posted r ''rev'' + posted r' ''rev'' = 0"
  using charge_settles_and_refunds [OF sample_price [of 3], of "''w''" "''rev''" "I64 10" "''late''" "I64 20"]
  by force

text \<open>
  C30: a hold is a ceiling. What is captured of a hold is between zero and what was held and
  comes from an open hold; it leaves the held account, reaches revenue and touches no other
  account, in a record that balances and whose refund is accepted and undoes it on every
  account. A capture is refused only where the hold is finished or the amount is outside it:
  it never overflows and is never unbalanced.
\<close>

theorem capture_within_hold:
  assumes "hold_account h \<noteq> revenue"
  shows "case capture h amount revenue at of
      Inl e \<Rightarrow> (if hold_open h then e = CaptureExceedsHold \<and> int_of amount \<notin> {0..int_of (hold_amount h)}
               else e = HoldClosed)
    | Inr r \<Rightarrow> hold_open h \<and> balances r
        \<and> posted r revenue = int_of amount \<and> posted r (hold_account h) = - int_of amount
        \<and> posted r revenue \<in> {0..int_of (hold_amount h)}
        \<and> (\<forall>account. account \<noteq> revenue \<and> account \<noteq> hold_account h \<longrightarrow> posted r account = 0)
        \<and> (\<exists>r'. refund r reason at' = Ok r' \<and> balances r' \<and> (\<forall>account. posted r account + posted r' account = 0))"
proof (cases "hold_open h \<and> int_of amount \<in> {0..int_of (hold_amount h)}")
  case False
  then show ?thesis by (auto simp: capture_eq hold_open_def)
next
  case True
  define r where
    "r = paying_record (''capture:'' @ hold_idempotency_key h) at None (hold_account h) revenue (int_of amount)"
  have n: "in_i64 (int_of amount)" "in_i64 (- int_of amount)"
    using True int_of_bounds [of amount] by (auto simp: in_i64_def)
  have capture: "capture h amount revenue at = Ok r" using True by (simp add: capture_eq hold_open_def r_def)
  moreover have "balances r" using capture by (auto simp: capture_def Let_def result_simps split: if_splits)
  moreover have "posted r account = (if account = revenue then int_of amount else 0)
      - (if account = hold_account h then int_of amount else 0)" for account
    unfolding r_def by (rule posted_paying [OF n])
  moreover obtain r' where "refund r reason at' = Ok r'"
    unfolding r_def using refund_paying [OF n] by blast
  moreover note refund_Ok(1,2) [OF this]
  ultimately show ?thesis using True assms by auto
qed

theorem capture_within_hold_witness:
  "\<exists>r r'. capture \<lparr>hold_idempotency_key = ''h'', hold_account = ''w'', hold_amount = I64 9, hold_state = Held\<rparr>
      (I64 4) ''rev'' (I64 1) = Ok r \<and> posted r ''w'' = - 4 \<and> refund r ''late'' (I64 2) = Ok r' \<and> posted r' ''w'' = 4"
proof -
  define h where
    "h = \<lparr>hold_idempotency_key = ''h'', hold_account = ''w'', hold_amount = I64 9, hold_state = Held\<rparr>"
  obtain r where r: "capture h (I64 4) ''rev'' (I64 1) = Ok r" by (simp add: capture_eq h_def)
  have "hold_account h \<noteq> ''rev''" by (simp add: h_def)
  from capture_within_hold [where amount = "I64 4" and at = "I64 1" and reason = "''late''" and at' = "I64 2", OF this] r
  obtain r' where "posted r ''w'' = - 4" "refund r ''late'' (I64 2) = Ok r'" "\<forall>a. posted r a + posted r' a = 0"
    by (auto simp: h_def)
  moreover from this have "posted r' ''w'' = 4" by (smt (verit))
  ultimately show ?thesis using r unfolding h_def by blast
qed

text \<open>
  C31: a correction restores the right amount. For a mispriced settlement the proposed record,
  if there is one, brings what revenue was paid to exactly the recomputed amount and takes
  the difference from the wallet, in a record that balances and touches no other account; there
  is no proposal exactly when the amounts agree; and an error means the difference, or its
  negation, is not an \<open>i64\<close>. No other discrepancy is given a proposal.
\<close>

theorem correction_restores:
  assumes "wallet \<noteq> revenue"
  shows "(case corrective_entry (Mispriced key settled recomputed) wallet revenue at of
      Inl e \<Rightarrow> e = Overflow \<and> (\<not> in_i64 (int_of recomputed - int_of settled)
                             \<or> \<not> in_i64 (int_of settled - int_of recomputed))
    | Inr None \<Rightarrow> settled = recomputed
    | Inr (Some r) \<Rightarrow> settled \<noteq> recomputed
        \<and> int_of settled + posted r revenue = int_of recomputed
        \<and> posted r wallet = - posted r revenue \<and> balances r
        \<and> (\<forall>account. account \<noteq> wallet \<and> account \<noteq> revenue \<longrightarrow> posted r account = 0))
    \<and> (\<forall>other. corrective_entry other wallet revenue at \<noteq> Ok None \<longrightarrow> (\<exists>k a b. other = Mispriced k a b))"
proof -
  have "corrective_entry other wallet revenue at = Ok None \<or> (\<exists>k a b. other = Mispriced k a b)" for other
    by (cases other) (simp_all add: corrective_entry_def)
  then show ?thesis
    using assms by (auto simp: corrective_entry_eq Let_def posted_paying paying_balances i64_eq_iff)
qed

theorem correction_restores_witness:
  "case corrective_entry (Mispriced ''k'' (I64 5) (I64 3)) ''w'' ''rev'' (I64 0) of
     Inr (Some r) \<Rightarrow> posted r ''rev'' = - 2 | _ \<Rightarrow> False"
  using correction_restores [of "''w''" "''rev''" "I64 3" "I64 5" "''k''" "I64 0"]
  by (auto simp: corrective_entry_eq i64_eq_iff in_i64_def)

text \<open>
  Enforcement only escalates. A creature that owes longer, or owes at all where it did
  not, never gets a milder step, and no step is taken against a balance that is not
  negative.
\<close>

theorem enforcement_escalates:
  assumes "balance' \<le> balance" and "negative_for \<le> negative_for'"
  shows "enforcement balance negative_for policy \<le> enforcement balance' negative_for' policy
    \<and> (enforcement balance negative_for policy = NoStep \<longleftrightarrow> 0 \<le> int_of balance)"
  using assms
  by (auto simp: enforcement_def less_eq_enforcement_step_def i64_le_iff i64_less_iff)

theorem enforcement_escalates_witness:
  "enforcement (I64 (- 1)) (I64 5) \<lparr>grace_millis = I64 10, pause_millis = I64 10\<rparr>
   \<le> enforcement (I64 (- 2)) (I64 25) \<lparr>grace_millis = I64 10, pause_millis = I64 10\<rparr>"
  using enforcement_escalates [of "I64 (- 2)" "I64 (- 1)" "I64 5" "I64 25"
      "\<lparr>grace_millis = I64 10, pause_millis = I64 10\<rparr>"]
  by (simp add: i64_le_iff)

text \<open>
  Negation reverses the order in which a record's running sum moves, so a record that
  balances through the most negative running sum has a refund that is refused.
\<close>

lemma refund_refused_at_minimum:
  "\<exists>r. balances r \<and> refund r reason at = Err Unbalanced"
proof -
  define half where "half = (4611686018427387904 :: int)"
  let ?e = "\<lambda>n. \<lparr>entry_account = ''a'', entry_amount = I64 n\<rparr>"
  let ?r = "\<lparr>idempotency_key = ''k'', record_at_millis = I64 0,
    record_entries = [?e (- half), ?e (- half), ?e half, ?e half], record_price_version = None\<rparr>"
  have "balances ?r"
    by (simp add: balances_def half_def checked_add_i64_def checked_i64_def in_i64_def)
  moreover have "refund ?r reason at = Err Unbalanced"
    by (simp add: refund_def balances_def half_def checked_neg_i64_def checked_add_i64_def checked_i64_def
        in_i64_def Let_def)
  ultimately show ?thesis by blast
qed

end
