(* ===== verification/Identity.thy ===== *)
theory Identity
  imports Domain_Core
begin

text \<open>
  Identity rules: \<open>crates/aseman-domain/src/identity.rs\<close>. Typed subjects and their canonical
  text, what each kind of key may sign, the validity window of a credential, and which
  epoch of a subject's keys verifies at a given time. The \<open>uuid\<close> crate's printing and
  parsing are the parameters \<open>uuid_text\<close> and \<open>parse_uuid\<close>. Byte vectors are byte strings.
\<close>

section \<open>Subjects and purposes\<close>

datatype subject_kind = User | Creature | Node | Service | Workload | ModulePublisher

definition subject_kind_ALL :: "subject_kind list" where
  "subject_kind_ALL = [User, Creature, Node, Service, Workload, ModulePublisher]"

fun subject_kind_as_str :: "subject_kind \<Rightarrow> string" where
  "subject_kind_as_str User = ''user''"
| "subject_kind_as_str Creature = ''creature''"
| "subject_kind_as_str Node = ''node''"
| "subject_kind_as_str Service = ''service''"
| "subject_kind_as_str Workload = ''workload''"
| "subject_kind_as_str ModulePublisher = ''module_publisher''"

record subject =
  subject_kind :: subject_kind
  subject_uuid :: uuid

datatype authentication_error =
    UnsupportedVersion
  | UnsupportedAlgorithm
  | Malformed
  | UnknownKey
  | KeySubjectMismatch
  | KeyPurposeMismatch
  | LegacyKeyCannotSign
  | RevokedKey
  | EpochNotAccepted
  | AudienceMismatch
  | NotYetValid
  | Expired
  | LifetimeTooLong
  | BodyDigestMismatch
  | BadSignature
  | Replayed

fun authentication_error_code :: "authentication_error \<Rightarrow> string" where
  "authentication_error_code UnsupportedVersion = ''unsupported_version''"
| "authentication_error_code UnsupportedAlgorithm = ''unsupported_algorithm''"
| "authentication_error_code Malformed = ''malformed''"
| "authentication_error_code UnknownKey = ''unknown_key''"
| "authentication_error_code KeySubjectMismatch = ''key_subject_mismatch''"
| "authentication_error_code KeyPurposeMismatch = ''key_purpose_mismatch''"
| "authentication_error_code LegacyKeyCannotSign = ''legacy_key_cannot_sign''"
| "authentication_error_code RevokedKey = ''revoked_key''"
| "authentication_error_code EpochNotAccepted = ''epoch_not_accepted''"
| "authentication_error_code AudienceMismatch = ''audience_mismatch''"
| "authentication_error_code NotYetValid = ''not_yet_valid''"
| "authentication_error_code Expired = ''expired''"
| "authentication_error_code LifetimeTooLong = ''lifetime_too_long''"
| "authentication_error_code BodyDigestMismatch = ''body_digest_mismatch''"
| "authentication_error_code BadSignature = ''bad_signature''"
| "authentication_error_code Replayed = ''replayed''"

text \<open>\<open>Display\<close> and \<open>FromStr\<close> of a subject.\<close>

definition subject_text :: "(uuid \<Rightarrow> string) \<Rightarrow> subject \<Rightarrow> string" where
  "subject_text uuid_text s =
     subject_kind_as_str (subject_kind s) @ '':'' @ uuid_text (subject_uuid s)"

text \<open>\<open>str::split_once\<close> on a character.\<close>

fun split_once :: "char \<Rightarrow> string \<Rightarrow> (string \<times> string) option" where
  "split_once c [] = None"
| "split_once c (x # xs) =
     (if x = c then Some ([], xs) else map_option (\<lambda>(a, b). (x # a, b)) (split_once c xs))"

definition subject_from_str ::
  "(uuid \<Rightarrow> string) \<Rightarrow> (string \<Rightarrow> uuid option) \<Rightarrow> string \<Rightarrow> (subject, authentication_error) result"
where
  "subject_from_str uuid_text parse_uuid text =
     and_then (ok_or Malformed (split_once (CHR '':'') text)) (\<lambda>(kind, id).
     and_then (ok_or Malformed (List.find (\<lambda>k. subject_kind_as_str k = kind) subject_kind_ALL)) (\<lambda>kind.
     and_then (ok_or Malformed (parse_uuid id)) (\<lambda>id.
       let s = \<lparr>subject_kind = kind, subject_uuid = id\<rparr>
       in if subject_text uuid_text s \<noteq> text then Err Malformed else Ok s)))"

datatype key_purpose = Authentication | Descriptor | TokenIssuing | Introduction

fun key_purpose_as_str :: "key_purpose \<Rightarrow> string" where
  "key_purpose_as_str Authentication = ''authentication''"
| "key_purpose_as_str Descriptor = ''descriptor''"
| "key_purpose_as_str TokenIssuing = ''token_issuing''"
| "key_purpose_as_str Introduction = ''introduction''"

datatype signature_context =
    RequestContext
  | ChallengeContext
  | TokenContext
  | DescriptorContext
  | RevocationContext
  | IntroductionContext

fun signature_context_as_str :: "signature_context \<Rightarrow> string" where
  "signature_context_as_str RequestContext = ''request''"
| "signature_context_as_str ChallengeContext = ''challenge''"
| "signature_context_as_str TokenContext = ''token''"
| "signature_context_as_str DescriptorContext = ''descriptor''"
| "signature_context_as_str RevocationContext = ''revocation''"
| "signature_context_as_str IntroductionContext = ''introduction''"

definition issues_authority :: "signature_context \<Rightarrow> bool" where
  "issues_authority c \<longleftrightarrow>
     c \<in> {TokenContext, DescriptorContext, RevocationContext, IntroductionContext}"

definition signs :: "key_purpose \<Rightarrow> signature_context \<Rightarrow> bool" where
  "signs p c \<longleftrightarrow>
     (p, c) \<in> {(Authentication, RequestContext), (Authentication, ChallengeContext),
               (TokenIssuing, TokenContext),
               (Descriptor, DescriptorContext), (Descriptor, RevocationContext),
               (Introduction, IntroductionContext)}"

section \<open>Credential windows\<close>

definition MIN_NONCE_BYTES :: nat where
  "MIN_NONCE_BYTES = 16"

definition MAX_NONCE_BYTES :: nat where
  "MAX_NONCE_BYTES = 64"

definition MAX_GUEST_CREDENTIAL_MILLIS :: i64 where
  "MAX_GUEST_CREDENTIAL_MILLIS = I64 (5 * 60 * 1000)"

record freshness_policy =
  max_clock_skew_millis :: i64
  max_lifetime_millis :: i64

definition freshness_GUEST :: freshness_policy where
  "freshness_GUEST = \<lparr>max_clock_skew_millis = I64 30000,
                      max_lifetime_millis = MAX_GUEST_CREDENTIAL_MILLIS\<rparr>"

record credential_window =
  issued_at_millis :: i64
  window_not_before_millis :: i64
  window_expires_at_millis :: i64

definition window_check ::
  "credential_window \<Rightarrow> i64 \<Rightarrow> freshness_policy \<Rightarrow> (unit, authentication_error) result" where
  "window_check w now policy =
     (let skew = max_clock_skew_millis policy in
      if issued_at_millis w > window_not_before_millis w
         \<or> window_not_before_millis w \<ge> window_expires_at_millis w
      then Err Malformed
      else if sub_i64 (window_expires_at_millis w) (issued_at_millis w) > max_lifetime_millis policy
      then Err LifetimeTooLong
      else if window_not_before_millis w > saturating_add_i64 now skew then Err NotYetValid
      else if now \<ge> saturating_add_i64 (window_expires_at_millis w) skew then Err Expired
      else Ok ())"

definition replay_retention_until :: "credential_window \<Rightarrow> freshness_policy \<Rightarrow> i64" where
  "replay_retention_until w policy =
     saturating_add_i64 (window_expires_at_millis w) (max_clock_skew_millis policy)"

section \<open>Keys and proofs\<close>

record key_epoch =
  epoch_subject :: subject
  epoch_purpose :: key_purpose
  epoch_number :: u32
  epoch_not_before_millis :: i64
  epoch_expires_at_millis :: "i64 option"
  retired_at_millis :: "i64 option"
  revoked_at_millis :: "i64 option"
  epoch_legacy :: bool

record identity_key =
  key_key_id :: string
  key_public_key :: string
  key_epoch :: key_epoch

record key_description =
  description_key_id :: string
  description_legacy :: bool

record challenge =
  challenge_nonce :: string
  challenge_subject :: subject
  challenge_audience :: string
  challenge_expires_at_millis :: i64

record introduction =
  introduction_subject :: subject
  introduction_public_key :: string
  introduction_epoch :: u32
  introduction_not_before_millis :: i64
  introduction_expires_at_millis :: "i64 option"

record signed_proof =
  proof_context :: signature_context
  proof_algorithm :: string
  proof_key_id :: string
  proof_key_epoch :: u32
  proof_subject :: subject
  proof_audience :: string
  proof_window :: credential_window
  proof_nonce :: string
  proof_request_id :: string
  proof_action :: string
  proof_resource :: string
  proof_body_digest :: string
  proof_signature :: string

record rotation_policy =
  overlap_millis :: i64

definition rotation_DEFAULT :: rotation_policy where
  "rotation_DEFAULT = \<lparr>overlap_millis = I64 (24 * 60 * 60 * 1000)\<rparr>"

text \<open>The epochs that have started and are not revoked at \<open>now\<close>, and the newest of them.\<close>

definition live_epochs :: "key_epoch list \<Rightarrow> i64 \<Rightarrow> key_epoch list" where
  "live_epochs epochs now =
     filter (\<lambda>k. epoch_not_before_millis k \<le> now
                 \<and> is_none_or (\<lambda>revoked. revoked > now) (revoked_at_millis k)) epochs"

definition iter_max :: "'a::linorder list \<Rightarrow> 'a option" where
  "iter_max xs = (if xs = [] then None else Some (Max (set xs)))"

definition accept_epoch ::
  "key_epoch list \<Rightarrow> u32 \<Rightarrow> signature_context \<Rightarrow> i64 \<Rightarrow> rotation_policy
   \<Rightarrow> (unit, authentication_error) result" where
  "accept_epoch epochs n context now rotation =
     and_then (ok_or UnknownKey (List.find (\<lambda>k. epoch_number k = n) epochs)) (\<lambda>key.
       if \<not> signs (epoch_purpose key) context then Err KeyPurposeMismatch
       else if is_some_and (\<lambda>revoked. revoked \<le> now) (revoked_at_millis key) then Err RevokedKey
       else if epoch_legacy key \<and> issues_authority context then Err LegacyKeyCannotSign
       else if epoch_not_before_millis key > now then Err NotYetValid
       else if is_some_and (\<lambda>expires. expires \<le> now) (epoch_expires_at_millis key) then Err Expired
       else and_then (ok_or EpochNotAccepted (iter_max (map epoch_number (live_epochs epochs now))))
         (\<lambda>current.
            let in_overlap = is_none_or
                  (\<lambda>retired. now < saturating_add_i64 retired (overlap_millis rotation))
                  (retired_at_millis key)
            in if n = current \<or> saturating_add n 1 = current \<and> in_overlap then Ok ()
               else Err EpochNotAccepted))"

section \<open>Lemmas\<close>

lemma split_once_Some_iff:
  "split_once c s = Some (a, b) \<longleftrightarrow> s = a @ c # b \<and> c \<notin> set a"
  by (induction s arbitrary: a b) (auto simp: Cons_eq_append_conv)

lemma subject_kind_as_str_inject: "subject_kind_as_str a = subject_kind_as_str b \<longleftrightarrow> a = b"
  by (cases a; cases b) simp_all

lemma subject_kind_no_colon: "CHR '':'' \<notin> set (subject_kind_as_str k)"
  by (cases k) simp_all

lemma find_subject_kind:
  "List.find (\<lambda>k. subject_kind_as_str k = subject_kind_as_str kind) subject_kind_ALL = Some kind"
  by (cases kind) (simp_all add: subject_kind_ALL_def)

lemma subject_text_inject:
  assumes "inj uuid_text"
  shows "subject_text uuid_text s = subject_text uuid_text t \<longleftrightarrow> s = t"
  using append_sep_inject [OF subject_kind_no_colon subject_kind_no_colon,
      of "subject_kind s" "uuid_text (subject_uuid s)" "subject_kind t" "uuid_text (subject_uuid t)"] assms
  by (auto simp: subject_text_def subject_kind_as_str_inject inj_eq)

lemma subject_from_str_Ok:
  "subject_from_str uuid_text parse_uuid text = Ok s \<Longrightarrow> subject_text uuid_text s = text"
  by (auto simp: subject_from_str_def result_simps Let_def split: if_splits)

lemma signature_context_as_str_inject:
  "signature_context_as_str a = signature_context_as_str b \<longleftrightarrow> a = b"
  by (cases a; cases b) simp_all

lemma signs_purpose_unique: "signs p c \<Longrightarrow> signs q c \<Longrightarrow> p = q"
  by (auto simp: signs_def)

lemma window_check_Ok:
  assumes "window_check w now policy = Ok ()"
  shows "issued_at_millis w \<le> window_not_before_millis w"
    "window_not_before_millis w < window_expires_at_millis w"
    "window_not_before_millis w \<le> saturating_add_i64 now (max_clock_skew_millis policy)"
    "now < replay_retention_until w policy"
  using assms by (auto simp: window_check_def replay_retention_until_def Let_def split: if_splits)

text \<open>
  What the window rule means over the integers: the code's subtraction is exact when the
  claimed times are not further apart than an \<open>i64\<close> reaches.
\<close>

definition window_valid :: "credential_window \<Rightarrow> i64 \<Rightarrow> freshness_policy \<Rightarrow> bool" where
  "window_valid w now policy \<longleftrightarrow>
     (let issued = int_of (issued_at_millis w); start = int_of (window_not_before_millis w);
          expires = int_of (window_expires_at_millis w); skew = int_of (max_clock_skew_millis policy)
      in issued \<le> start \<and> start < expires \<and> expires - issued \<le> int_of (max_lifetime_millis policy)
         \<and> start \<le> int_of now + skew \<and> int_of now < expires + skew)"

lemma int_of_sub_i64: "in_i64 (int_of x - int_of y) \<Longrightarrow> int_of (sub_i64 x y) = int_of x - int_of y"
  by (simp add: sub_i64_def int_of_I64_in del: int_of_I64)

lemma window_check_exact:
  assumes "in_i64 (int_of (window_expires_at_millis w) - int_of (issued_at_millis w))"
    and "in_i64 (int_of now + int_of (max_clock_skew_millis policy))"
    and "in_i64 (int_of (window_expires_at_millis w) + int_of (max_clock_skew_millis policy))"
  shows "window_check w now policy = Ok () \<longleftrightarrow> window_valid w now policy"
  using assms
  by (auto simp: window_check_def window_valid_def Let_def i64_le_iff i64_less_iff
      int_of_sub_i64 int_of_saturating_add in_i64_def split: if_splits)

lemma iter_max_Some_iff:
  "iter_max xs = Some m \<longleftrightarrow> m \<in> set xs \<and> (\<forall>x \<in> set xs. x \<le> m)"
proof (cases "xs = []")
  case False
  then have "Max (set xs) \<in> set xs" and "\<forall>x \<in> set xs. x \<le> Max (set xs)" by simp_all
  moreover have "Max (set xs) = m" if "m \<in> set xs" "\<forall>x \<in> set xs. x \<le> m"
    using that by (intro Max_eqI) auto
  ultimately show ?thesis using False by (auto simp: iter_max_def)
qed (simp add: iter_max_def)

lemma accept_epoch_Ok_iff:
  "accept_epoch epochs n context now rotation = Ok () \<longleftrightarrow>
    (\<exists>key current. List.find (\<lambda>k. epoch_number k = n) epochs = Some key
       \<and> signs (epoch_purpose key) context
       \<and> (epoch_legacy key \<longrightarrow> \<not> issues_authority context)
       \<and> key \<in> set (live_epochs epochs now)
       \<and> (\<forall>expires. epoch_expires_at_millis key = Some expires \<longrightarrow> now < expires)
       \<and> current \<in> epoch_number ` set (live_epochs epochs now)
       \<and> (\<forall>k \<in> set (live_epochs epochs now). epoch_number k \<le> current)
       \<and> (n = current \<or> saturating_add n 1 = current
            \<and> (\<forall>retired. retired_at_millis key = Some retired
                  \<longrightarrow> now < saturating_add_i64 retired (overlap_millis rotation))))"
  (is "_ \<longleftrightarrow> ?rhs")
proof (cases "List.find (\<lambda>k. epoch_number k = n) epochs")
  case None
  then show ?thesis by (simp add: accept_epoch_def)
next
  case (Some key)
  then have "key \<in> set epochs" by (metis find_Some_iff nth_mem)
  then have "key \<in> set (live_epochs epochs now) \<longleftrightarrow>
    epoch_not_before_millis key \<le> now \<and> \<not> is_some_and (\<lambda>revoked. revoked \<le> now) (revoked_at_millis key)"
    by (auto simp: live_epochs_def is_none_or_iff is_some_and_iff not_le)
  with Some show ?thesis
    by (auto simp: accept_epoch_def result_simps iter_max_Some_iff Let_def is_some_and_iff
        is_none_or_iff not_le not_less)
qed

section \<open>Properties\<close>

text \<open>
  C25: the text of a subject is canonical. Parsing accepts exactly the printed form of a
  subject and returns that subject, so no two spellings name the same identity. It rests on
  the UUID parser accepting what the UUID printer prints.
\<close>

theorem subject_text_roundtrip:
  assumes "\<And>u. parse_uuid (uuid_text u) = Some u"
  shows "subject_from_str uuid_text parse_uuid text = Ok s \<longleftrightarrow> text = subject_text uuid_text s"
proof
  assume "subject_from_str uuid_text parse_uuid text = Ok s"
  then show "text = subject_text uuid_text s" by (metis subject_from_str_Ok)
next
  assume t: "text = subject_text uuid_text s"
  then have "split_once (CHR '':'') text
    = Some (subject_kind_as_str (subject_kind s), uuid_text (subject_uuid s))"
    by (simp add: split_once_Some_iff subject_text_def subject_kind_no_colon)
  then show "subject_from_str uuid_text parse_uuid text = Ok s"
    using t by (cases s) (simp add: subject_from_str_def find_subject_kind assms Let_def)
qed

definition parse_decimal_uuid :: "string \<Rightarrow> uuid option" where
  "parse_decimal_uuid s = Some (of_nat (read_nat s))"

theorem subject_text_roundtrip_witness:
  "subject_from_str show_u64 parse_decimal_uuid ''node:42'' = Ok \<lparr>subject_kind = Node, subject_uuid = 42\<rparr>"
proof -
  have "parse_decimal_uuid (show_u64 u) = Some u" for u
    by (simp add: parse_decimal_uuid_def show_u64_def read_show_nat)
  note roundtrip = subject_text_roundtrip [OF this]
  have "show_nat 42 = ''42''" by code_simp
  then have "subject_text show_u64 \<lparr>subject_kind = Node, subject_uuid = 42\<rparr> = ''node:42''"
    by (simp add: subject_text_def show_u64_def)
  with roundtrip show ?thesis by metis
qed

text \<open>
  C26: key rotation is bounded. Whatever a directory holds, at any instant at most two epochs
  of a subject's key verify a context: the newest live one and, in its overlap, the one
  before it; each is started, not revoked, not expired, of a purpose that signs the
  context, and not a legacy key where the context issues authority.
\<close>

theorem accepted_epochs_bounded:
  assumes "accept_epoch epochs n context now rotation = Ok ()"
    and "accept_epoch epochs m context now rotation = Ok ()" and "n < m"
  shows "m = n + 1 \<and> (\<forall>k \<in> set (live_epochs epochs now). epoch_number k \<le> m)
    \<and> (\<exists>key \<in> set (live_epochs epochs now). epoch_number key = n
          \<and> signs (epoch_purpose key) context \<and> (epoch_legacy key \<longrightarrow> \<not> issues_authority context)
          \<and> (\<forall>expires. epoch_expires_at_millis key = Some expires \<longrightarrow> now < expires)
          \<and> (\<forall>retired. retired_at_millis key = Some retired
                \<longrightarrow> now < saturating_add_i64 retired (overlap_millis rotation)))"
proof -
  from assms(1) obtain key current where key: "List.find (\<lambda>k. epoch_number k = n) epochs = Some key"
      "signs (epoch_purpose key) context" "epoch_legacy key \<longrightarrow> \<not> issues_authority context"
      "key \<in> set (live_epochs epochs now)"
      "\<forall>expires. epoch_expires_at_millis key = Some expires \<longrightarrow> now < expires"
      "\<forall>k \<in> set (live_epochs epochs now). epoch_number k \<le> current"
      "n = current \<or> saturating_add n 1 = current
        \<and> (\<forall>retired. retired_at_millis key = Some retired
              \<longrightarrow> now < saturating_add_i64 retired (overlap_millis rotation))"
    unfolding accept_epoch_Ok_iff by blast
  from assms(2) obtain key' where "List.find (\<lambda>k. epoch_number k = m) epochs = Some key'"
      "key' \<in> set (live_epochs epochs now)"
    unfolding accept_epoch_Ok_iff by blast
  then have "m \<le> current" using key(6) by (metis (mono_tags, lifting) find_Some_iff)
  with assms(3) key(7) have retired: "saturating_add n 1 = current"
      "\<forall>retired. retired_at_millis key = Some retired
          \<longrightarrow> now < saturating_add_i64 retired (overlap_millis rotation)"
    by auto
  have "uint n + 1 < 2 ^ 32" using assms(3) uint_bounded [of m] by (simp add: word_less_def)
  then have succ: "saturating_add n 1 = n + 1" "uint (n + 1) = uint n + 1"
    by (simp_all add: saturating_add_def uint_word_ariths)
  then have "m = n + 1"
    using \<open>m \<le> current\<close> retired(1) assms(3) by (simp add: word_le_def word_less_def word_uint_eq_iff)
  moreover have "epoch_number key = n" using key(1) by (metis (mono_tags, lifting) find_Some_iff)
  ultimately show ?thesis using key retired succ by auto
qed

definition sample_epoch :: "u32 \<Rightarrow> i64 option \<Rightarrow> key_epoch" where
  "sample_epoch n retired =
     \<lparr>epoch_subject = \<lparr>subject_kind = Node, subject_uuid = 1\<rparr>, epoch_purpose = Descriptor,
      epoch_number = n, epoch_not_before_millis = I64 0, epoch_expires_at_millis = None,
      retired_at_millis = retired, revoked_at_millis = None, epoch_legacy = False\<rparr>"

theorem accepted_epochs_bounded_witness:
  "let epochs = [sample_epoch 1 (Some (I64 100)), sample_epoch 2 None]
   in accept_epoch epochs 1 DescriptorContext (I64 200) rotation_DEFAULT = Ok ()
      \<and> accept_epoch epochs 2 DescriptorContext (I64 200) rotation_DEFAULT = Ok ()
      \<and> (2 :: u32) = 1 + 1"
proof -
  let ?epochs = "[sample_epoch 1 (Some (I64 100)), sample_epoch 2 None]"
  have "Max {1 :: u32, 2} = 2" by (simp add: max_def)
  then have ok: "accept_epoch ?epochs 1 DescriptorContext (I64 200) rotation_DEFAULT = Ok ()"
      "accept_epoch ?epochs 2 DescriptorContext (I64 200) rotation_DEFAULT = Ok ()"
    by (simp_all add: accept_epoch_def sample_epoch_def signs_def live_epochs_def iter_max_def
        i64_le_iff i64_less_iff rotation_DEFAULT_def int_of_saturating_add saturating_add_def)
  with accepted_epochs_bounded [OF ok] show ?thesis by simp
qed

text \<open>
  The subtraction of the lifetime check is a plain \<open>-\<close> and wraps: a credential issued at the
  smallest time and expiring at the largest has a lifetime of \<open>2^64 - 1\<close> milliseconds, which
  the code reads as \<open>-1\<close>, so it passes a five-minute limit at every instant but the last.
\<close>

definition endless_window :: credential_window where
  "endless_window = \<lparr>issued_at_millis = i64_MIN, window_not_before_millis = i64_MIN,
                     window_expires_at_millis = i64_MAX\<rparr>"

lemma window_lifetime_bypass:
  assumes "now < i64_MAX"
  shows "window_check endless_window now freshness_GUEST = Ok ()
    \<and> int_of (window_expires_at_millis endless_window) - int_of (issued_at_millis endless_window) > 2 ^ 63"
  using assms int_of_bounds [of now]
  by (simp add: window_check_def endless_window_def freshness_GUEST_def i64_MIN_def i64_MAX_def
      sub_i64_def i64_le_iff i64_less_iff int_of_saturating_add MAX_GUEST_CREDENTIAL_MILLIS_def Let_def)

end
