(* ===== verification/Identity_Wire.thy ===== *)
theory Identity_Wire
  imports Identity
begin

text \<open>
  Identity wire formats: \<open>crates/aseman-contracts/src/identity.rs\<close>. The versioned multicodec
  encoding of public keys, key identifiers, the exact bytes a signature covers, and the
  checks on a proof as it travels. The cryptographic crates and the base-58 and base-64
  codecs are the fields of a record \<open>crypto\<close> the definitions take.
\<close>

section \<open>Byte strings\<close>

text \<open>\<open>to_be_bytes\<close>: the \<open>n\<close> low bytes of a number, most significant first.\<close>

fun be_bytes :: "nat \<Rightarrow> nat \<Rightarrow> string" where
  "be_bytes 0 x = []"
| "be_bytes (Suc n) x = be_bytes n (x div 256) @ [char_of (x mod 256)]"

definition u32_be :: "u32 \<Rightarrow> string" where
  "u32_be x = be_bytes 4 (unat x)"

definition i64_be :: "i64 \<Rightarrow> string" where
  "i64_be x = be_bytes 8 (nat (int_of x mod 2 ^ 64))"

text \<open>One field of a signed structure: \<open>u32::try_from(len).unwrap_or(u32::MAX)\<close> and the bytes.\<close>

definition length_prefixed :: "string \<Rightarrow> string" where
  "length_prefixed part = be_bytes 4 (min (length part) (2 ^ 32 - 1)) @ part"

section \<open>Public keys\<close>

record crypto =
  sha256 :: "string \<Rightarrow> string"
  bs58_encode :: "string \<Rightarrow> string"
  bs58_decode :: "string \<Rightarrow> string option"
  base64_decode :: "string \<Rightarrow> string option"
  rsa_spki :: "string \<Rightarrow> bool"
  ed25519_verify :: "string \<Rightarrow> string \<Rightarrow> string \<Rightarrow> bool"
  rsa_pss_signature :: "string \<Rightarrow> bool"
  rsa_pss_verify :: "string \<Rightarrow> string \<Rightarrow> string \<Rightarrow> bool"

definition KEY_ENCODING_VERSION :: nat where
  "KEY_ENCODING_VERSION = 1"

definition SIGNATURE_PROTOCOL :: string where
  "SIGNATURE_PROTOCOL = ''aseman-signature-v1''"

definition PROOF_VERSION :: u8 where
  "PROOF_VERSION = 1"

definition SHA256_MULTIHASH :: string where
  "SHA256_MULTIHASH = map char_of [18 :: nat, 32]"

datatype key_algorithm = Ed25519 | LegacyRsa | LegacySecp256k1

fun multicodec :: "key_algorithm \<Rightarrow> string" where
  "multicodec Ed25519 = map char_of [237 :: nat, 1]"
| "multicodec LegacyRsa = map char_of [133 :: nat, 36]"
| "multicodec LegacySecp256k1 = map char_of [231 :: nat, 1]"

fun signature_algorithm :: "key_algorithm \<Rightarrow> string" where
  "signature_algorithm Ed25519 = ''ed25519''"
| "signature_algorithm LegacyRsa = ''rsa-pss-sha256''"
| "signature_algorithm LegacySecp256k1 = ''ecdsa-secp256k1-sha256''"

definition is_legacy :: "key_algorithm \<Rightarrow> bool" where
  "is_legacy a \<longleftrightarrow> a \<noteq> Ed25519"

record public_key =
  pk_algorithm :: key_algorithm
  pk_key :: string

definition legacy_rsa :: "crypto \<Rightarrow> string \<Rightarrow> (public_key, authentication_error) result" where
  "legacy_rsa c spki_der =
     (if rsa_spki c spki_der then Ok \<lparr>pk_algorithm = LegacyRsa, pk_key = spki_der\<rparr> else Err Malformed)"

definition pk_encode :: "public_key \<Rightarrow> string" where
  "pk_encode k = char_of KEY_ENCODING_VERSION # multicodec (pk_algorithm k) @ pk_key k"

fun find_map :: "('a \<Rightarrow> 'b option) \<Rightarrow> 'a list \<Rightarrow> 'b option" where
  "find_map f [] = None"
| "find_map f (x # xs) = (case f x of Some y \<Rightarrow> Some y | None \<Rightarrow> find_map f xs)"

text \<open>The shape each algorithm requires of its key bytes: the final \<open>match\<close> of \<open>decode\<close>.\<close>

definition pk_shaped :: "crypto \<Rightarrow> key_algorithm \<Rightarrow> string \<Rightarrow> (public_key, authentication_error) result" where
  "pk_shaped c algorithm key =
     (case algorithm of
        Ed25519 \<Rightarrow> if length key = 32 then Ok \<lparr>pk_algorithm = algorithm, pk_key = key\<rparr>
                   else Err Malformed
      | LegacyRsa \<Rightarrow> legacy_rsa c key
      | LegacySecp256k1 \<Rightarrow>
          if length key = 33 \<and> hd key \<in> {char_of (2 :: nat), char_of (3 :: nat)}
          then Ok \<lparr>pk_algorithm = algorithm, pk_key = key\<rparr> else Err Malformed)"

definition pk_decode :: "crypto \<Rightarrow> string \<Rightarrow> (public_key, authentication_error) result" where
  "pk_decode c encoded =
     (case encoded of
        [] \<Rightarrow> Err Malformed
      | version # rest \<Rightarrow>
          if version \<noteq> char_of KEY_ENCODING_VERSION then Err UnsupportedVersion
          else and_then
            (ok_or UnsupportedAlgorithm
              (find_map (\<lambda>a. map_option (Pair a) (strip_prefix (multicodec a) rest))
                 [Ed25519, LegacyRsa, LegacySecp256k1]))
            (\<lambda>(algorithm, key). pk_shaped c algorithm key))"

definition multibase :: "crypto \<Rightarrow> string \<Rightarrow> string" where
  "multibase c bytes = CHR ''z'' # bs58_encode c bytes"

definition from_multibase :: "crypto \<Rightarrow> string \<Rightarrow> (string, authentication_error) result" where
  "from_multibase c text =
     and_then (ok_or Malformed (strip_prefix ''z'' text)) (\<lambda>body.
     and_then (ok_or Malformed (bs58_decode c body)) (\<lambda>bytes.
       if multibase c bytes \<noteq> text then Err Malformed else Ok bytes))"

definition pk_to_multibase :: "crypto \<Rightarrow> public_key \<Rightarrow> string" where
  "pk_to_multibase c k = multibase c (pk_encode k)"

definition pk_from_multibase :: "crypto \<Rightarrow> string \<Rightarrow> (public_key, authentication_error) result" where
  "pk_from_multibase c text = and_then (from_multibase c text) (pk_decode c)"

definition fingerprint :: "crypto \<Rightarrow> public_key \<Rightarrow> string" where
  "fingerprint c k = sha256 c (pk_encode k)"

definition pk_key_id :: "crypto \<Rightarrow> public_key \<Rightarrow> string" where
  "pk_key_id c k = multibase c (SHA256_MULTIHASH @ fingerprint c k)"

definition is_key_id :: "crypto \<Rightarrow> string \<Rightarrow> bool" where
  "is_key_id c text =
     (case from_multibase c text of
        Inl _ \<Rightarrow> False
      | Inr bytes \<Rightarrow> length bytes = 34 \<and> take 2 bytes = SHA256_MULTIHASH)"

definition pk_verify ::
  "crypto \<Rightarrow> public_key \<Rightarrow> string \<Rightarrow> string \<Rightarrow> (unit, authentication_error) result" where
  "pk_verify c k message sig =
     (case pk_algorithm k of
        Ed25519 \<Rightarrow> if ed25519_verify c (pk_key k) message sig then Ok () else Err BadSignature
      | LegacyRsa \<Rightarrow>
          if \<not> rsa_spki c (pk_key k) then Err Malformed
          else if \<not> rsa_pss_signature c sig then Err BadSignature
          else if rsa_pss_verify c (pk_key k) message sig then Ok () else Err BadSignature
      | LegacySecp256k1 \<Rightarrow> Err UnsupportedAlgorithm)"

section \<open>Signed bytes\<close>

record signed_fields =
  sf_algorithm :: string
  sf_key_id :: string
  sf_key_epoch :: u32
  sf_subject :: subject
  sf_audience :: string
  sf_window :: credential_window
  sf_nonce :: string
  sf_request_id :: string
  sf_action :: string
  sf_resource :: string
  sf_body_digest :: string

definition signed_parts :: "(uuid \<Rightarrow> string) \<Rightarrow> signed_fields \<Rightarrow> string list" where
  "signed_parts uuid_text f =
     [sf_algorithm f, sf_key_id f, u32_be (sf_key_epoch f), subject_text uuid_text (sf_subject f),
      sf_audience f, i64_be (issued_at_millis (sf_window f)),
      i64_be (window_not_before_millis (sf_window f)), i64_be (window_expires_at_millis (sf_window f)),
      sf_nonce f, sf_request_id f, sf_action f, sf_resource f, sf_body_digest f]"

definition signing_input :: "(uuid \<Rightarrow> string) \<Rightarrow> signature_context \<Rightarrow> signed_fields \<Rightarrow> string" where
  "signing_input uuid_text context f =
     SIGNATURE_PROTOCOL @ [char_of (0 :: nat)] @ signature_context_as_str context @ [char_of (0 :: nat)]
     @ concat (map length_prefixed (signed_parts uuid_text f))"

definition INTRODUCTION_PROTOCOL :: string where
  "INTRODUCTION_PROTOCOL = ''aseman-introduction-v1''"

definition introduction_parts :: "(uuid \<Rightarrow> string) \<Rightarrow> introduction \<Rightarrow> string list" where
  "introduction_parts uuid_text i =
     [subject_text uuid_text (introduction_subject i), introduction_public_key i,
      u32_be (introduction_epoch i), i64_be (introduction_not_before_millis i),
      (case introduction_expires_at_millis i of None \<Rightarrow> [] | Some t \<Rightarrow> i64_be t)]"

definition introduction_bytes :: "(uuid \<Rightarrow> string) \<Rightarrow> introduction \<Rightarrow> string" where
  "introduction_bytes uuid_text i =
     INTRODUCTION_PROTOCOL @ [char_of (0 :: nat)]
     @ concat (map length_prefixed (introduction_parts uuid_text i))"

definition body_digest :: "crypto \<Rightarrow> string \<Rightarrow> string" where
  "body_digest c body = sha256 c body"

section \<open>The proof as it travels\<close>

record signed_request_proof =
  srp_version :: u8
  srp_context :: signature_context
  srp_algorithm :: string
  srp_key_id :: string
  srp_key_epoch :: u32
  srp_subject :: string
  srp_audience :: string
  srp_issued_at_millis :: i64
  srp_not_before_millis :: i64
  srp_expires_at_millis :: i64
  srp_nonce :: string
  srp_request_id :: string
  srp_action :: string
  srp_resource :: string
  srp_body_digest :: string
  srp_signature :: string

definition base64url :: "crypto \<Rightarrow> string \<Rightarrow> (string, authentication_error) result" where
  "base64url c text = ok_or Malformed (base64_decode c text)"

definition bounded_text :: "string \<Rightarrow> bool" where
  "bounded_text text \<longleftrightarrow> text \<noteq> [] \<and> length text \<le> 1024"

definition proof_parse ::
  "(uuid \<Rightarrow> string) \<Rightarrow> (string \<Rightarrow> uuid option) \<Rightarrow> crypto \<Rightarrow> signed_request_proof
   \<Rightarrow> (signed_proof, authentication_error) result" where
  "proof_parse uuid_text parse_uuid c r =
     (if srp_version r \<noteq> PROOF_VERSION then Err UnsupportedVersion
      else if srp_algorithm r \<notin> set [''ed25519'', ''rsa-pss-sha256''] then Err UnsupportedAlgorithm
      else and_then (base64url c (srp_nonce r)) (\<lambda>nonce.
        and_then (and_then (base64url c (srp_body_digest r))
                    (\<lambda>d. if length d = 32 then Ok d else Err Malformed)) (\<lambda>digest.
          if \<not> (MIN_NONCE_BYTES \<le> length nonce \<and> length nonce \<le> MAX_NONCE_BYTES)
             \<or> \<not> is_key_id c (srp_key_id r)
             \<or> \<not> bounded_text (srp_audience r)
             \<or> \<not> bounded_text (srp_request_id r)
             \<or> \<not> bounded_text (srp_action r)
             \<or> length (srp_resource r) > 4096
          then Err Malformed
          else and_then (subject_from_str uuid_text parse_uuid (srp_subject r)) (\<lambda>subject.
            and_then (base64url c (srp_signature r)) (\<lambda>sig.
              Ok \<lparr>proof_context = srp_context r, proof_algorithm = srp_algorithm r,
                  proof_key_id = srp_key_id r, proof_key_epoch = srp_key_epoch r,
                  proof_subject = subject, proof_audience = srp_audience r,
                  proof_window = \<lparr>issued_at_millis = srp_issued_at_millis r,
                                  window_not_before_millis = srp_not_before_millis r,
                                  window_expires_at_millis = srp_expires_at_millis r\<rparr>,
                  proof_nonce = nonce, proof_request_id = srp_request_id r,
                  proof_action = srp_action r, proof_resource = srp_resource r,
                  proof_body_digest = digest, proof_signature = sig\<rparr>)))))"

definition proof_fields :: "signed_proof \<Rightarrow> signed_fields" where
  "proof_fields p =
     \<lparr>sf_algorithm = proof_algorithm p, sf_key_id = proof_key_id p, sf_key_epoch = proof_key_epoch p,
      sf_subject = proof_subject p, sf_audience = proof_audience p, sf_window = proof_window p,
      sf_nonce = proof_nonce p, sf_request_id = proof_request_id p, sf_action = proof_action p,
      sf_resource = proof_resource p, sf_body_digest = proof_body_digest p\<rparr>"

definition verify_proof_signature ::
  "(uuid \<Rightarrow> string) \<Rightarrow> crypto \<Rightarrow> signed_proof \<Rightarrow> public_key \<Rightarrow> (unit, authentication_error) result" where
  "verify_proof_signature uuid_text c p k =
     (if pk_key_id c k \<noteq> proof_key_id p then Err UnknownKey
      else if signature_algorithm (pk_algorithm k) \<noteq> proof_algorithm p then Err UnsupportedAlgorithm
      else pk_verify c k (signing_input uuid_text (proof_context p) (proof_fields p)) (proof_signature p))"

section \<open>Injectivity of the signed bytes\<close>

lemma length_be_bytes [simp]: "length (be_bytes n x) = n"
  by (induction n arbitrary: x) auto

lemma char_of_mod_inject: "char_of (x mod 256) = (char_of (y mod 256) :: char) \<longleftrightarrow> x mod 256 = (y mod 256 :: nat)"
  by (metis of_char_of mod_mod_trivial)

lemma be_bytes_inject:
  assumes "x < 256 ^ n" and "y < 256 ^ n"
  shows "be_bytes n x = be_bytes n y \<longleftrightarrow> x = y"
  using assms
proof (induction n arbitrary: x y)
  case (Suc n)
  then have "x div 256 < 256 ^ n" "y div 256 < 256 ^ n" by (auto simp: less_mult_imp_div_less)
  then have "be_bytes (Suc n) x = be_bytes (Suc n) y \<longleftrightarrow> x div 256 = y div 256 \<and> x mod 256 = y mod 256"
    using Suc.IH by (simp add: char_of_mod_inject)
  then show ?case by (metis div_mult_mod_eq)
qed simp

lemma u32_be_inject: "u32_be x = u32_be y \<longleftrightarrow> x = y"
  using be_bytes_inject [of "unat x" 4 "unat y"] unsigned_less [of x] unsigned_less [of y]
  by (simp add: u32_be_def word_unat_eq_iff)

lemma i64_be_inject: "i64_be x = i64_be y \<longleftrightarrow> x = y"
proof -
  have "nat (i mod 2 ^ 64) < 256 ^ 8" for i :: int
    using pos_mod_bound [of "2 ^ 64" i] by (simp add: nat_less_iff)
  then have "i64_be x = i64_be y \<longleftrightarrow> nat (int_of x mod 2 ^ 64) = nat (int_of y mod 2 ^ 64)"
    unfolding i64_be_def by (intro be_bytes_inject) simp_all
  also have "\<dots> \<longleftrightarrow> int_of x mod 2 ^ 64 = int_of y mod 2 ^ 64" by (simp add: eq_nat_nat_iff)
  also have "\<dots> \<longleftrightarrow> x = y"
  proof
    assume "int_of x mod 2 ^ 64 = int_of y mod 2 ^ 64"
    then have "I64 (int_of x) = I64 (int_of y)"
      by (simp add: i64_eq_iff mod_add_cong del: I64_int_of)
    then show "x = y" by simp
  qed simp
  finally show ?thesis .
qed

lemma length_prefixed_append_inject:
  assumes "length a < 2 ^ 32" and "length b < 2 ^ 32"
  shows "length_prefixed a @ x = length_prefixed b @ y \<longleftrightarrow> a = b \<and> x = y"
proof
  assume eq: "length_prefixed a @ x = length_prefixed b @ y"
  then have "be_bytes 4 (length a) = be_bytes 4 (length b)" and rest: "a @ x = b @ y"
    using assms by (simp_all add: length_prefixed_def min_def)
  then have "length a = length b" using be_bytes_inject [of "length a" 4 "length b"] assms by simp
  with rest show "a = b \<and> x = y" by simp
qed simp

lemma concat_length_prefixed_inject:
  assumes "length xs = length ys" and "\<forall>x \<in> set xs. length x < 2 ^ 32" and "\<forall>y \<in> set ys. length y < 2 ^ 32"
  shows "concat (map length_prefixed xs) = concat (map length_prefixed ys) \<longleftrightarrow> xs = ys"
  using assms
  by (induction xs ys rule: list_induct2) (simp_all add: length_prefixed_append_inject)

text \<open>Fields a verifier can be handed: every variable-length part is shorter than \<open>2^32\<close> bytes.\<close>

definition signable :: "(uuid \<Rightarrow> string) \<Rightarrow> signed_fields \<Rightarrow> bool" where
  "signable uuid_text f \<longleftrightarrow> list_all (\<lambda>part. length part < 2 ^ 32) (signed_parts uuid_text f)"

lemma signed_parts_inject:
  assumes "inj uuid_text"
  shows "signed_parts uuid_text f = signed_parts uuid_text g \<longleftrightarrow> f = g"
  by (auto simp: signed_parts_def u32_be_inject i64_be_inject subject_text_inject [OF assms]
      intro!: signed_fields.equality credential_window.equality)

lemma signature_context_no_nul: "char_of (0 :: nat) \<notin> set (signature_context_as_str c)"
  by (cases c) (simp_all add: char_of_def)

lemma signing_input_inject:
  assumes "inj uuid_text" and "signable uuid_text f" and "signable uuid_text g"
  shows "signing_input uuid_text c f = signing_input uuid_text d g \<longleftrightarrow> c = d \<and> f = g"
proof -
  have "signing_input uuid_text c f = signing_input uuid_text d g \<longleftrightarrow>
    c = d \<and> concat (map length_prefixed (signed_parts uuid_text f))
      = concat (map length_prefixed (signed_parts uuid_text g))"
    using append_sep_inject [OF signature_context_no_nul signature_context_no_nul]
    by (simp add: signing_input_def signature_context_as_str_inject)
  also have "\<dots> \<longleftrightarrow> c = d \<and> signed_parts uuid_text f = signed_parts uuid_text g"
    using assms(2,3) by (subst concat_length_prefixed_inject)
      (auto simp: signable_def list_all_iff signed_parts_def)
  finally show ?thesis by (simp add: signed_parts_inject [OF assms(1)])
qed

lemma introduction_parts_inject:
  assumes "inj uuid_text" and "introduction_parts uuid_text a = introduction_parts uuid_text b"
  shows "a = b"
proof -
  have ne: "i64_be t \<noteq> []" for t by (simp add: i64_be_def flip: length_0_conv)
  have "introduction_expires_at_millis a = introduction_expires_at_millis b"
    using assms(2) ne ne [symmetric]
    by (auto simp: introduction_parts_def i64_be_inject split: option.splits)
  with assms show ?thesis
    by (auto simp: introduction_parts_def u32_be_inject i64_be_inject subject_text_inject
        intro!: introduction.equality)
qed

lemma introduction_bytes_inject:
  assumes "inj uuid_text"
    and "\<forall>part \<in> set (introduction_parts uuid_text a @ introduction_parts uuid_text b). length part < 2 ^ 32"
  shows "introduction_bytes uuid_text a = introduction_bytes uuid_text b \<longleftrightarrow> a = b"
proof
  assume eq: "introduction_bytes uuid_text a = introduction_bytes uuid_text b"
  have "length (introduction_parts uuid_text a) = length (introduction_parts uuid_text b)"
    by (simp add: introduction_parts_def)
  then have "introduction_parts uuid_text a = introduction_parts uuid_text b"
    using eq assms(2) by (simp add: introduction_bytes_def concat_length_prefixed_inject)
  then show "a = b" by (rule introduction_parts_inject [OF assms(1)])
qed simp

section \<open>The native verifier\<close>

text \<open>\<open>modules/identity-native\<close>: the verifier the nodes run.\<close>

definition native_verify ::
  "(uuid \<Rightarrow> string) \<Rightarrow> crypto \<Rightarrow> signed_proof \<Rightarrow> identity_key \<Rightarrow> (unit, authentication_error) result" where
  "native_verify uuid_text c p key =
     and_then (pk_decode c (key_public_key key)) (\<lambda>k.
       if pk_key_id c k \<noteq> key_key_id key then Err Malformed
       else verify_proof_signature uuid_text c p k)"

definition native_describe_key :: "crypto \<Rightarrow> string \<Rightarrow> (key_description, authentication_error) result" where
  "native_describe_key c bytes =
     and_then (pk_decode c bytes) (\<lambda>k.
       Ok \<lparr>description_key_id = pk_key_id c k, description_legacy = is_legacy (pk_algorithm k)\<rparr>)"

section \<open>Encodings\<close>

text \<open>The keys the decoder can return.\<close>

definition pk_wf :: "crypto \<Rightarrow> public_key \<Rightarrow> bool" where
  "pk_wf c k =
     (case pk_algorithm k of
        Ed25519 \<Rightarrow> length (pk_key k) = 32
      | LegacyRsa \<Rightarrow> rsa_spki c (pk_key k)
      | LegacySecp256k1 \<Rightarrow>
          length (pk_key k) = 33 \<and> hd (pk_key k) \<in> {char_of (2 :: nat), char_of (3 :: nat)})"

lemma find_multicodec:
  "find_map (\<lambda>a. map_option (Pair a) (strip_prefix (multicodec a) rest)) [Ed25519, LegacyRsa, LegacySecp256k1]
     = Some (a, key) \<longleftrightarrow> rest = multicodec a @ key"
proof -
  have distinct: "char_of (237 :: nat) \<noteq> (char_of (133 :: nat) :: char)"
      "char_of (237 :: nat) \<noteq> (char_of (231 :: nat) :: char)"
      "char_of (133 :: nat) \<noteq> (char_of (231 :: nat) :: char)"
    by (simp_all add: char_of_def)
  then show ?thesis
    using distinct [symmetric]
    by (cases a) (auto simp: strip_prefix_Some_iff split: option.splits)
qed

lemma pk_shaped_Ok_iff:
  "pk_shaped c a key = Ok k \<longleftrightarrow> k = \<lparr>pk_algorithm = a, pk_key = key\<rparr> \<and> pk_wf c k"
  by (cases a) (auto simp: pk_shaped_def legacy_rsa_def pk_wf_def)

lemma pk_decode_Ok_iff: "pk_decode c bytes = Ok k \<longleftrightarrow> bytes = pk_encode k \<and> pk_wf c k"
proof (cases bytes)
  case (Cons v rest)
  have "pk_decode c bytes = Ok k \<longleftrightarrow> v = char_of KEY_ENCODING_VERSION
    \<and> (\<exists>a key. rest = multicodec a @ key \<and> k = \<lparr>pk_algorithm = a, pk_key = key\<rparr> \<and> pk_wf c k)"
    unfolding pk_decode_def Cons list.case
    by (simp add: find_multicodec result_simps pk_shaped_Ok_iff del: find_map.simps multicodec.simps)
  also have "\<dots> \<longleftrightarrow> bytes = pk_encode k \<and> pk_wf c k"
    by (cases k) (auto simp: Cons pk_encode_def)
  finally show ?thesis .
qed (simp add: pk_decode_def pk_encode_def)

lemma from_multibase_canonical: "from_multibase c text = Ok bytes \<Longrightarrow> text = multibase c bytes"
  by (auto simp: from_multibase_def result_simps split: if_splits)

lemma proof_parse_Ok:
  assumes "proof_parse uuid_text parse_uuid c r = Ok p"
  shows "length (proof_nonce p) \<le> 64" "16 \<le> length (proof_nonce p)"
    "is_key_id c (proof_key_id p)" "length (proof_audience p) \<le> 1024"
    "length (proof_request_id p) \<le> 1024" "length (proof_action p) \<le> 1024"
    "length (proof_resource p) \<le> 4096" "length (proof_body_digest p) = 32"
    "length (proof_algorithm p) \<le> 14"
  using assms
  by (auto simp: proof_parse_def result_simps bounded_text_def MIN_NONCE_BYTES_def MAX_NONCE_BYTES_def
      split: if_splits)

lemma subject_kind_short: "length (subject_kind_as_str k) \<le> 16"
  by (cases k) simp_all

lemma parsed_signable:
  assumes "proof_parse uuid_text parse_uuid c r = Ok p"
    and "\<And>u. length (uuid_text u) = 36" and "\<And>b. length (bs58_encode c b) \<le> 2 * length b"
  shows "signable uuid_text (proof_fields p)"
proof -
  note short = proof_parse_Ok [OF assms(1)]
  from short(3) obtain b where "proof_key_id p = multibase c b" "length b = 34"
    by (auto simp: is_key_id_def dest: from_multibase_canonical split: sum.splits)
  then have "length (proof_key_id p) < 2 ^ 32" using assms(3) [of b] by (simp add: multibase_def)
  with short subject_kind_short [of "subject_kind (proof_subject p)"] assms(2) show ?thesis
    by (simp add: signable_def signed_parts_def proof_fields_def u32_be_def i64_be_def subject_text_def)
qed

section \<open>Properties\<close>

text \<open>
  C23: a signature binds every field and the context. Two proofs that pass the encoding checks
  have the same signed bytes exactly when they agree on the context and on every signed
  field, so a signature made for one context, audience, window, nonce, action, resource or
  body is never a signature over another. It rests on the text of a UUID being injective and
  36 bytes long, and on base-58 text being at most twice its input.
\<close>

theorem signing_input_injective:
  assumes "inj uuid_text" and "\<And>u. length (uuid_text u) = 36"
    and "\<And>b. length (bs58_encode c b) \<le> 2 * length b"
    and "proof_parse uuid_text parse_uuid c r = Ok p" and "proof_parse uuid_text parse_uuid c s = Ok q"
  shows "signing_input uuid_text (proof_context p) (proof_fields p)
      = signing_input uuid_text (proof_context q) (proof_fields q)
    \<longleftrightarrow> proof_context p = proof_context q \<and> proof_fields p = proof_fields q"
  by (intro signing_input_inject assms(1) parsed_signable [OF assms(4,2,3)] parsed_signable [OF assms(5,2,3)])

definition plain_crypto :: crypto where
  "plain_crypto =
     \<lparr>sha256 = take 32, bs58_encode = id, bs58_decode = Some, base64_decode = Some,
      rsa_spki = (\<lambda>_. True), ed25519_verify = (\<lambda>k m sig. sig = m), rsa_pss_signature = (\<lambda>_. True),
      rsa_pss_verify = (\<lambda>k m sig. sig = m)\<rparr>"

definition fixed_uuid_text :: "uuid \<Rightarrow> string" where
  "fixed_uuid_text u = be_bytes 36 (unat u)"

lemma fixed_uuid_text: "inj fixed_uuid_text" "length (fixed_uuid_text u) = 36"
proof -
  have "unat u < 2 ^ 128" for u :: uuid using unsigned_less [of u, where 'a = nat] by simp
  then have "unat u < 256 ^ 36" for u :: uuid by (rule less_trans) simp
  then show "inj fixed_uuid_text"
    by (intro injI) (simp add: fixed_uuid_text_def be_bytes_inject word_unat_eq_iff)
qed (simp add: fixed_uuid_text_def)

definition sample_request :: "string \<Rightarrow> signed_request_proof" where
  "sample_request action =
     \<lparr>srp_version = 1, srp_context = RequestContext, srp_algorithm = ''ed25519'',
      srp_key_id = CHR ''z'' # map char_of [18 :: nat, 32] @ replicate 32 (CHR ''k''),
      srp_key_epoch = 1,
      srp_subject = subject_text fixed_uuid_text \<lparr>subject_kind = User, subject_uuid = 5\<rparr>,
      srp_audience = ''node'', srp_issued_at_millis = I64 0, srp_not_before_millis = I64 0,
      srp_expires_at_millis = I64 60000, srp_nonce = replicate 16 (CHR ''n''),
      srp_request_id = ''r'', srp_action = action, srp_resource = '''',
      srp_body_digest = replicate 32 (CHR ''d''), srp_signature = ''s''\<rparr>"

definition sample_proof :: "string \<Rightarrow> signed_proof" where
  "sample_proof action =
     \<lparr>proof_context = RequestContext, proof_algorithm = ''ed25519'',
      proof_key_id = srp_key_id (sample_request action), proof_key_epoch = 1,
      proof_subject = \<lparr>subject_kind = User, subject_uuid = 5\<rparr>, proof_audience = ''node'',
      proof_window = \<lparr>issued_at_millis = I64 0, window_not_before_millis = I64 0,
                      window_expires_at_millis = I64 60000\<rparr>,
      proof_nonce = replicate 16 (CHR ''n''), proof_request_id = ''r'', proof_action = action,
      proof_resource = '''', proof_body_digest = replicate 32 (CHR ''d''), proof_signature = ''s''\<rparr>"

lemma sample_parses:
  assumes "bounded_text action"
  shows "proof_parse fixed_uuid_text (\<lambda>_. Some 5) plain_crypto (sample_request action) = Ok (sample_proof action)"
proof -
  let ?s = "\<lparr>subject_kind = User, subject_uuid = 5\<rparr>"
  have once: "split_once (CHR '':'') (subject_text fixed_uuid_text ?s) = Some (''user'', fixed_uuid_text 5)"
    unfolding split_once_Some_iff by (simp add: subject_text_def)
  have parsed: "subject_from_str fixed_uuid_text (\<lambda>_. Some 5) (subject_text fixed_uuid_text ?s) = Ok ?s"
    using find_subject_kind [of User] by (simp add: subject_from_str_def once Let_def)
  have "is_key_id plain_crypto (srp_key_id (sample_request action))"
    by (simp add: is_key_id_def from_multibase_def multibase_def plain_crypto_def sample_request_def
        SHA256_MULTIHASH_def)
  then show ?thesis using assms parsed
    by (simp add: proof_parse_def sample_request_def sample_proof_def base64url_def PROOF_VERSION_def
        plain_crypto_def MIN_NONCE_BYTES_def MAX_NONCE_BYTES_def bounded_text_def)
qed

theorem signing_input_injective_witness:
  "signing_input fixed_uuid_text RequestContext (proof_fields (sample_proof ''read''))
   \<noteq> signing_input fixed_uuid_text RequestContext (proof_fields (sample_proof ''write''))"
proof -
  have "length (bs58_encode plain_crypto b) \<le> 2 * length b" for b by (simp add: plain_crypto_def)
  note inject = signing_input_injective [OF fixed_uuid_text this
      sample_parses [of "''read''"] sample_parses [of "''write''"]]
  have "bounded_text ''read''" "bounded_text ''write''" by (simp_all add: bounded_text_def)
  with inject show ?thesis by (simp add: sample_proof_def proof_fields_def)
qed

text \<open>
  C24: a public key has one encoding. Decoding accepts exactly the encodings of well-shaped keys
  (32 bytes for Ed25519, 33 with a compressed-point tag for secp256k1, an RSA key for RSA) and
  returns the key that was encoded.
\<close>

theorem key_encoding_roundtrip: "pk_decode c bytes = Ok k \<longleftrightarrow> bytes = pk_encode k \<and> pk_wf c k"
  by (rule pk_decode_Ok_iff)

end
