(* ===== verification/Auto_Store.thy ===== *)
theory Auto_Store
  imports Identity
begin

text \<open>
  The storage module as the services use it: \<open>crates/aseman-capsule/src/auto.rs\<close>. Each call
  is one transaction. What the provider does with a transaction (begins it or not, commits
  it, reports a conflict, or fails after the commit) is the argument \<open>trx_end\<close>; what other
  writers do between the attempts of a retried decision is a function on the state. A
  transaction that commits saw and changed the state at its commit: the providers promise
  serializable transactions.
\<close>

section \<open>Errors\<close>

datatype storage_error =
    StorageInvalid string
  | StorageConflict string
  | StorageNotFound string
  | StorageUnsupported string
  | StorageUnavailable string

datatype port_error =
    NotFound
  | Conflict
  | Denied string
  | Unavailable string
  | Deadline
  | Unsupported string
  | Refused string
  | Failed string

fun storage_error_text :: "storage_error \<Rightarrow> string" where
  "storage_error_text (StorageInvalid m) = ''invalid storage request: '' @ m"
| "storage_error_text (StorageConflict m) = ''storage conflict: '' @ m"
| "storage_error_text (StorageNotFound m) = ''not found: '' @ m"
| "storage_error_text (StorageUnsupported m) = ''unsupported by the storage provider: '' @ m"
| "storage_error_text (StorageUnavailable m) = ''storage unavailable: '' @ m"

fun port :: "storage_error \<Rightarrow> port_error" where
  "port (StorageConflict m) = Conflict"
| "port (StorageNotFound m) = NotFound"
| "port e = Failed (storage_error_text e)"

section \<open>Transactions\<close>

datatype trx_end =
    Commits
  | BeginFails storage_error
  | CommitFails storage_error
  | CommitLost string

datatype mode = ReadOnly | ReadWrite

definition auto_run ::
  "trx_end \<Rightarrow> mode \<Rightarrow> ('db \<Rightarrow> ('a \<times> 'db, storage_error) result) \<Rightarrow> 'db
   \<Rightarrow> ('a, storage_error) result \<times> 'db" where
  "auto_run end mode operation db =
     (case end of
        BeginFails e \<Rightarrow> (Err e, db)
      | _ \<Rightarrow>
          (case operation db of
             Inl e \<Rightarrow> (Err e, db)
           | Inr (value, db') \<Rightarrow>
               let written = (case mode of ReadWrite \<Rightarrow> db' | ReadOnly \<Rightarrow> db)
               in case end of
                    Commits \<Rightarrow> (Ok value, written)
                  | BeginFails e \<Rightarrow> (Err e, db)
                  | CommitFails e \<Rightarrow> (Err e, db)
                  | CommitLost m \<Rightarrow> (Err (StorageUnavailable m), written)))"

definition MAX_CAS_ATTEMPTS :: nat where
  "MAX_CAS_ATTEMPTS = 8"

text \<open>
  \<open>AutoCommit::decide\<close>: one element of the list per attempt, the changes other writers made
  before it and how its transaction ends.
\<close>

fun decide_attempts ::
  "(('db \<Rightarrow> 'db) \<times> trx_end) list \<Rightarrow> ('db \<Rightarrow> (('a, port_error) result \<times> 'db, storage_error) result) \<Rightarrow> 'db
   \<Rightarrow> ('a, port_error) result \<times> 'db" where
  "decide_attempts [] operation db = (Err Conflict, db)"
| "decide_attempts ((others, end) # rest) operation db0 =
     (let db = others db0 in
      case end of
        BeginFails e \<Rightarrow> (Err (port e), db)
      | _ \<Rightarrow>
          (case operation db of
             Inl (StorageConflict m) \<Rightarrow> decide_attempts rest operation db
           | Inl e \<Rightarrow> (Err (port e), db)
           | Inr (Inl refusal, _) \<Rightarrow> (Err refusal, db)
           | Inr (Inr value, db') \<Rightarrow>
               (case end of
                  Commits \<Rightarrow> (Ok value, db')
                | BeginFails e \<Rightarrow> (Err (port e), db)
                | CommitFails (StorageConflict m) \<Rightarrow> decide_attempts rest operation db
                | CommitFails e \<Rightarrow> (Err (port e), db)
                | CommitLost m \<Rightarrow> (Err (port (StorageUnavailable m)), db'))))"

type_synonym 'db environment = "nat \<Rightarrow> ('db \<Rightarrow> 'db) \<times> trx_end"

definition decide ::
  "'db environment \<Rightarrow> ('db \<Rightarrow> (('a, port_error) result \<times> 'db, storage_error) result) \<Rightarrow> 'db
   \<Rightarrow> ('a, port_error) result \<times> 'db" where
  "decide env operation db = decide_attempts (map env [0..<MAX_CAS_ATTEMPTS]) operation db"

text \<open>An environment in which no other writer runs and every transaction commits.\<close>

definition calm :: "'db environment" where
  "calm n = (id, Commits)"

section \<open>Nonces, challenges and idempotency keys\<close>

text \<open>
  The three tables, each keyed by its unique column. The message of a conflict or of a missing
  record is not part of what a port returns, so its text is immaterial here; the number of
  rows a purge removed is left out.
\<close>

record nonce_row =
  nonce_key_ref :: string
  retain_until_millis :: i64

record challenge_row =
  row_subject :: string
  row_audience :: string
  row_expires_at_millis :: i64

record idempotency_row =
  row_claim_subject :: string
  row_request_key :: string
  row_digest :: string
  row_claimed_at_millis :: i64
  row_response :: "string option"
  row_completed :: bool

record auto_db =
  replay_nonce :: "string \<rightharpoonup> nonce_row"
  identity_challenge :: "string \<rightharpoonup> challenge_row"
  public_idempotency :: "string \<rightharpoonup> idempotency_row"

definition hex_digit :: "nat \<Rightarrow> char" where
  "hex_digit n = char_of (if n < 10 then 48 + n else 87 + n)"

definition hex :: "string \<Rightarrow> string" where
  "hex bytes = concat (map (\<lambda>b. [hex_digit (byte b div 16), hex_digit (byte b mod 16)]) bytes)"

definition nonce_key :: "string \<Rightarrow> string \<Rightarrow> string" where
  "nonce_key key_id nonce = key_id @ ''|'' @ hex nonce"

definition record_nonce ::
  "trx_end \<Rightarrow> string \<Rightarrow> string \<Rightarrow> i64 \<Rightarrow> i64 \<Rightarrow> auto_db \<Rightarrow> (bool, port_error) result \<times> auto_db" where
  "record_nonce end key_id nonce retain now db =
     (let key = nonce_key key_id nonce;
          recorded = auto_run end ReadWrite (\<lambda>db.
            if is_some_and (\<lambda>stored. retain_until_millis stored > now) (replay_nonce db key)
            then Ok (False, db)
            else Ok (True, db\<lparr>replay_nonce := (replay_nonce db)(key \<mapsto>
                   (case replay_nonce db key of
                      None \<Rightarrow> \<lparr>nonce_key_ref = key_id, retain_until_millis = retain\<rparr>
                    | Some stored \<Rightarrow> stored\<lparr>retain_until_millis := retain\<rparr>))\<rparr>)) db
      in case recorded of
           (Inl (StorageConflict m), db') \<Rightarrow> (Ok False, db')
         | (other, db') \<Rightarrow> (map_err port other, db'))"

definition purge_expired_nonces :: "trx_end \<Rightarrow> i64 \<Rightarrow> auto_db \<Rightarrow> (unit, port_error) result \<times> auto_db" where
  "purge_expired_nonces end now db =
     (case auto_run end ReadWrite (\<lambda>db. Ok ((),
        db\<lparr>replay_nonce := (\<lambda>k. case replay_nonce db k of
              Some row \<Rightarrow> if retain_until_millis row \<le> now then None else Some row | None \<Rightarrow> None),
           identity_challenge := (\<lambda>k. case identity_challenge db k of
              Some row \<Rightarrow> if row_expires_at_millis row \<le> now then None else Some row | None \<Rightarrow> None)\<rparr>)) db of
        (r, db') \<Rightarrow> (map_err port r, db'))"

text \<open>\<open>issue\<close>: the 32 random bytes are an argument; \<open>create\<close> refuses a taken key.\<close>

definition challenge_issue ::
  "(uuid \<Rightarrow> string) \<Rightarrow> trx_end \<Rightarrow> string \<Rightarrow> subject \<Rightarrow> string \<Rightarrow> i64 \<Rightarrow> auto_db
   \<Rightarrow> (challenge, port_error) result \<times> auto_db" where
  "challenge_issue uuid_text end nonce subject audience expires db =
     (case auto_run end ReadWrite (\<lambda>db.
        case identity_challenge db (hex nonce) of
          Some _ \<Rightarrow> Err (StorageConflict ''unique'')
        | None \<Rightarrow> Ok ((), db\<lparr>identity_challenge := (identity_challenge db)(hex nonce \<mapsto>
              \<lparr>row_subject = subject_text uuid_text subject, row_audience = audience,
               row_expires_at_millis = expires\<rparr>)\<rparr>)) db of
        (Inl e, db') \<Rightarrow> (Err (port e), db')
      | (Inr _, db') \<Rightarrow> (Ok \<lparr>challenge_nonce = nonce, challenge_subject = subject,
             challenge_audience = audience, challenge_expires_at_millis = expires\<rparr>, db'))"

definition challenge_consume ::
  "(uuid \<Rightarrow> string) \<Rightarrow> trx_end \<Rightarrow> string \<Rightarrow> subject \<Rightarrow> string \<Rightarrow> i64 \<Rightarrow> auto_db
   \<Rightarrow> (bool, port_error) result \<times> auto_db" where
  "challenge_consume uuid_text end nonce subject audience now db =
     (case auto_run end ReadWrite (\<lambda>db.
        case identity_challenge db (hex nonce) of
          None \<Rightarrow> Ok (False, db)
        | Some row \<Rightarrow>
            if row_subject row \<noteq> subject_text uuid_text subject \<or> row_audience row \<noteq> audience
               \<or> row_expires_at_millis row \<le> now
            then Ok (False, db)
            else Ok (True, db\<lparr>identity_challenge := (identity_challenge db)(hex nonce := None)\<rparr>)) db of
        (r, db') \<Rightarrow> (map_err port r, db'))"

datatype public_action_claim = Claimed | InProgress | Completed string | Mismatch

definition claim_key :: "string \<Rightarrow> string \<Rightarrow> string" where
  "claim_key subject key = subject @ [char_of (31 :: nat)] @ key"

definition idempotency_claim ::
  "trx_end \<Rightarrow> trx_end \<Rightarrow> i64 \<Rightarrow> string \<Rightarrow> string \<Rightarrow> string \<Rightarrow> auto_db
   \<Rightarrow> (public_action_claim, port_error) result \<times> auto_db" where
  "idempotency_claim create_end read_end now subject key digest db =
     (let record = claim_key subject key in
      case auto_run create_end ReadWrite (\<lambda>db.
        case public_idempotency db record of
          Some _ \<Rightarrow> Err (StorageConflict ''unique'')
        | None \<Rightarrow> Ok ((), db\<lparr>public_idempotency := (public_idempotency db)(record \<mapsto>
              \<lparr>row_claim_subject = subject, row_request_key = key, row_digest = digest,
               row_claimed_at_millis = now, row_response = None, row_completed = False\<rparr>)\<rparr>)) db of
        (Inr _, db') \<Rightarrow> (Ok Claimed, db')
      | (Inl (StorageConflict m), db') \<Rightarrow>
          (case auto_run read_end ReadOnly (\<lambda>db.
             case public_idempotency db record of
               None \<Rightarrow> Err (StorageNotFound ''PublicIdempotency'')
             | Some stored \<Rightarrow> Ok (stored, db)) db' of
             (Inl e, db'') \<Rightarrow> (Err (port e), db'')
           | (Inr stored, db'') \<Rightarrow>
               if row_digest stored \<noteq> digest then (Ok Mismatch, db'')
               else if row_completed stored
               then (Ok (Completed (case row_response stored of None \<Rightarrow> [] | Some r \<Rightarrow> r)), db'')
               else (Ok InProgress, db''))
      | (Inl e, db') \<Rightarrow> (Err (port e), db'))"

definition idempotency_complete ::
  "trx_end \<Rightarrow> string \<Rightarrow> string \<Rightarrow> string \<Rightarrow> auto_db \<Rightarrow> (unit, port_error) result \<times> auto_db" where
  "idempotency_complete end subject key response db =
     (case auto_run end ReadWrite (\<lambda>db.
        case public_idempotency db (claim_key subject key) of
          None \<Rightarrow> Ok (False, db)
        | Some row \<Rightarrow> Ok (True, db\<lparr>public_idempotency := (public_idempotency db)(claim_key subject key \<mapsto>
              row\<lparr>row_response := Some response, row_completed := True\<rparr>)\<rparr>)) db of
        (Inl e, db') \<Rightarrow> (Err (port e), db')
      | (Inr updated, db') \<Rightarrow> (if updated then Ok () else Err NotFound, db'))"

definition idempotency_release ::
  "trx_end \<Rightarrow> string \<Rightarrow> string \<Rightarrow> auto_db \<Rightarrow> (unit, port_error) result \<times> auto_db" where
  "idempotency_release end subject key db =
     (case auto_run end ReadWrite (\<lambda>db.
        if is_some_and (\<lambda>claim. \<not> row_completed claim) (public_idempotency db (claim_key subject key))
        then Ok ((), db\<lparr>public_idempotency := (public_idempotency db)(claim_key subject key := None)\<rparr>)
        else Ok ((), db)) db of
        (r, db') \<Rightarrow> (map_err port r, db'))"

section \<open>Decisions are atomic\<close>

lemma map_calm: "map calm [0..<MAX_CAS_ATTEMPTS] = (id, Commits) # replicate 7 (id, Commits)"
  by (simp add: MAX_CAS_ATTEMPTS_def calm_def upt_conv_Cons numeral_eq_Suc)

lemma decide_calm:
  "decide calm operation db =
     (case operation db of
        Inl (StorageConflict m) \<Rightarrow> decide_attempts (replicate 7 (id, Commits)) operation db
      | Inl e \<Rightarrow> (Err (port e), db)
      | Inr (Inl refusal, _) \<Rightarrow> (Err refusal, db)
      | Inr (Inr value, db') \<Rightarrow> (Ok value, db'))"
  by (simp add: decide_def map_calm split: sum.split prod.split storage_error.split)

text \<open>The states a decision may start from: those the other writers reach from \<open>db\<close>.\<close>

inductive reached :: "(('db \<Rightarrow> 'db) \<times> trx_end) list \<Rightarrow> 'db \<Rightarrow> 'db \<Rightarrow> bool"
  for attempts db where
  reached_start: "reached attempts db db"
| reached_others: "reached attempts db mid \<Longrightarrow> (others, e) \<in> set attempts \<Longrightarrow> reached attempts db (others mid)"

lemma reached_mono: "reached a db d \<Longrightarrow> set a \<subseteq> set b \<Longrightarrow> reached b db d"
  by (induction rule: reached.induct) (auto intro: reached.intros)

lemma reached_trans:
  assumes "reached a d e" and "reached a c d"
  shows "reached a c e"
  using assms(1)
proof (induction rule: reached.induct)
  case reached_start
  show ?case by (rule assms(2))
qed (rule reached_others)

lemma decide_attempts_atomic:
  assumes "decide_attempts attempts operation db = (r, db')"
  shows "reached attempts db db' \<and> (\<forall>v. r \<noteq> Ok v)
    \<or> (\<exists>mid v. reached attempts db mid \<and> operation mid = Ok (Ok v, db') \<and> (\<forall>w. r = Ok w \<longrightarrow> w = v))"
  using assms
proof (induction attempts arbitrary: db)
  case Nil
  then show ?case by (auto intro: reached.intros)
next
  case (Cons attempt rest)
  obtain others e where attempt: "attempt = (others, e)" by (cases attempt)
  let ?as = "(others, e) # rest"
  have start: "reached ?as db (others db)" by (auto intro: reached.intros)
  have later: "reached ?as db d" if "reached rest (others db) d" for d
    using reached_trans [OF reached_mono [OF that] start] by auto
  show ?case
  proof (cases "decide_attempts rest operation (others db) = (r, db')")
    case True
    from Cons.IH [OF this] later show ?thesis unfolding attempt by blast
  next
    case False
    then show ?thesis
      using Cons.prems start unfolding attempt
      by (auto simp: Let_def split: trx_end.splits sum.splits storage_error.splits prod.splits)
  qed
qed

lemma decide_invariant:
  assumes "decide env operation db = (r, db')" and "I db"
    and "\<And>n d. I d \<Longrightarrow> I (fst (env n) d)"
    and "\<And>d v d'. I d \<Longrightarrow> operation d = Ok (Ok v, d') \<Longrightarrow> I d'"
  shows "I db'"
proof -
  have "I d" if "reached (map env [0..<MAX_CAS_ATTEMPTS]) db d" for d
    using that
  proof (induction rule: reached.induct)
    case reached_start
    show ?case by (rule assms(2))
  next
    case (reached_others mid others e)
    then show ?case using assms(3) by (metis fst_conv imageE set_map)
  qed
  with decide_attempts_atomic [OF assms(1) [unfolded decide_def]] assms(4) show ?thesis by blast
qed

text \<open>
  An environment in which no other writer runs: \<open>ends\<close> gives the end of each attempt's
  transaction.
\<close>

definition quiet :: "(nat \<Rightarrow> trx_end) \<Rightarrow> 'db environment" where
  "quiet ends n = (id, ends n)"

lemma decide_quiet:
  assumes "decide (quiet ends) operation db = (r, db')"
  shows "db' = db \<and> (\<forall>v. r \<noteq> Ok v) \<or> (\<exists>v. operation db = Ok (Ok v, db') \<and> (\<forall>w. r = Ok w \<longrightarrow> w = v))"
proof -
  have "d = db" if "reached (map (quiet ends) [0..<MAX_CAS_ATTEMPTS]) db d" for d
    using that by (induction rule: reached.induct) (auto simp: quiet_def)
  with decide_attempts_atomic [OF assms [unfolded decide_def]] show ?thesis by metis
qed

lemma quiet_commits: "quiet (\<lambda>_. Commits) = calm"
  by (rule ext) (simp add: quiet_def calm_def)

lemma auto_run_cases:
  assumes "auto_run e ReadWrite operation db = (r, db')"
  shows "db' = db \<and> (\<forall>v. r = Ok v \<longrightarrow> operation db = Ok (v, db))
    \<or> (\<exists>v. operation db = Ok (v, db') \<and> (\<forall>w. r = Ok w \<longrightarrow> w = v))"
  using assms
  by (auto simp: auto_run_def Let_def split: trx_end.splits sum.splits)

section \<open>Keys of the tables\<close>

lemma hex_digit_inject:
  assumes "m < 16" and "n < 16"
  shows "hex_digit m = hex_digit n \<longleftrightarrow> m = n"
proof -
  have "of_char (hex_digit k) = (if k < 10 then 48 + k else 87 + k)" if "k < 16" for k :: nat
    using that by (simp add: hex_digit_def)
  then have "hex_digit m = hex_digit n \<longleftrightarrow>
    (if m < 10 then 48 + m else 87 + m) = (if n < 10 then 48 + n else 87 + n)"
    using assms by (metis of_char_eq_iff)
  with assms show ?thesis by (auto split: if_splits)
qed

lemma hex_inject: "hex a = hex b \<longleftrightarrow> a = b"
proof (induction a arbitrary: b)
  case Nil
  then show ?case by (cases b) (simp_all add: hex_def)
next
  case (Cons x a)
  show ?case
  proof (cases b)
    case (Cons y b')
    have small: "byte c div 16 < 16" "byte c mod 16 < 16" for c
      using of_char_of [of "byte c"] by (simp_all add: byte_def less_mult_imp_div_less)
    have "byte x div 16 = byte y div 16 \<and> byte x mod 16 = byte y mod 16 \<longleftrightarrow> x = y"
      by (metis byte_def div_mult_mod_eq of_char_eq_iff)
    with Cons Cons.IH [of b'] show ?thesis
      by (auto simp: hex_def hex_digit_inject small)
  qed (simp add: hex_def)
qed

lemma hex_chars: "c \<in> set (hex s) \<Longrightarrow> is_ascii_hexdigit c"
proof -
  have "is_ascii_hexdigit (hex_digit n)" if "n < 16" for n
    using that by (auto simp: hex_digit_def is_ascii_hexdigit_def is_ascii_digit_def byte_char_of)
  moreover have "byte c div 16 < 16" "byte c mod 16 < 16" for c
    using of_char_of [of "byte c"] by (simp_all add: byte_def less_mult_imp_div_less)
  moreover assume "c \<in> set (hex s)"
  ultimately show ?thesis by (auto simp: hex_def)
qed

lemma bar_not_in_hex: "CHR ''|'' \<notin> set (hex s)"
  using hex_chars [of "CHR ''|''" s] by (auto simp: is_ascii_hexdigit_def is_ascii_digit_def byte_def)

lemma nonce_key_inject: "nonce_key k n = nonce_key k' n' \<longleftrightarrow> k = k' \<and> n = n'"
proof -
  have "nonce_key k n = nonce_key k' n' \<longleftrightarrow>
    rev (hex n) @ CHR ''|'' # rev k = rev (hex n') @ CHR ''|'' # rev k'"
    unfolding nonce_key_def by (metis append.assoc append_Cons append_Nil rev.simps(2) rev_append rev_rev_ident)
  also have "\<dots> \<longleftrightarrow> rev (hex n) = rev (hex n') \<and> rev k = rev k'"
    by (intro append_sep_inject) (simp_all add: bar_not_in_hex)
  finally show ?thesis by (auto simp: hex_inject)
qed

section \<open>Nonces\<close>

text \<open>
  What recording a nonce does: nothing at all, or, where no live record of the pair exists,
  a record that lives until the retention time. Only the second answers \<open>True\<close>.
\<close>

lemma record_nonce_cases:
  assumes "record_nonce e key_id nonce retain now db = (r, db')"
  shows "db' = db \<and> r \<noteq> Ok True
    \<or> \<not> is_some_and (\<lambda>stored. retain_until_millis stored > now) (replay_nonce db (nonce_key key_id nonce))
      \<and> (\<exists>row. retain_until_millis row = retain
             \<and> db' = db\<lparr>replay_nonce := (replay_nonce db)(nonce_key key_id nonce \<mapsto> row)\<rparr>)"
proof (cases "is_some_and (\<lambda>stored. retain_until_millis stored > now) (replay_nonce db (nonce_key key_id nonce))")
  case True
  with assms show ?thesis
    by (auto simp: record_nonce_def auto_run_def Let_def split: trx_end.splits storage_error.splits)
next
  case False
  let ?row = "case replay_nonce db (nonce_key key_id nonce) of
      None \<Rightarrow> \<lparr>nonce_key_ref = key_id, retain_until_millis = retain\<rparr>
    | Some stored \<Rightarrow> stored\<lparr>retain_until_millis := retain\<rparr>"
  have "retain_until_millis ?row = retain" by (simp split: option.split)
  moreover have "db' = db \<and> r \<noteq> Ok True
    \<or> db' = db\<lparr>replay_nonce := (replay_nonce db)(nonce_key key_id nonce \<mapsto> ?row)\<rparr>"
    using assms False
    by (auto simp: record_nonce_def auto_run_def Let_def split: trx_end.splits storage_error.splits)
  ultimately show ?thesis using False by blast
qed

lemma purge_nonces:
  assumes "purge_expired_nonces e now db = (r, db')" and "replay_nonce db k = Some row"
    and "now < retain_until_millis row"
  shows "replay_nonce db' k = Some row"
  using assms by (auto simp: purge_expired_nonces_def auto_run_def Let_def split: trx_end.splits)

section \<open>Idempotency keys\<close>

text \<open>
  A key is claimed once: while its row exists no other claim of it is answered \<open>Claimed\<close>, a
  completed row is never released, and a later claim of the same request reads the response.
\<close>

lemma claim_Claimed:
  assumes "idempotency_claim ce re now subject key digest db = (Ok Claimed, db')"
  shows "public_idempotency db (claim_key subject key) = None"
    "\<exists>row. public_idempotency db' = (public_idempotency db)(claim_key subject key \<mapsto> row)
       \<and> row_digest row = digest \<and> \<not> row_completed row"
  using assms
  by (auto simp: idempotency_claim_def auto_run_def Let_def
      split: trx_end.splits option.splits storage_error.splits if_splits)

lemma claim_existing:
  assumes "public_idempotency db (claim_key subject key) = Some row"
  shows "snd (idempotency_claim ce re now subject key digest db) = db"
    "fst (idempotency_claim ce re now subject key digest db) \<noteq> Ok Claimed"
    "fst (idempotency_claim ce re now subject key digest db) = Ok (Completed response) \<Longrightarrow>
       row_completed row \<and> row_digest row = digest
       \<and> response = (case row_response row of None \<Rightarrow> [] | Some r \<Rightarrow> r)"
  using assms
  by (auto simp: idempotency_claim_def auto_run_def Let_def
      split: trx_end.splits option.splits storage_error.splits if_splits)

lemma release_keeps_completed:
  assumes "public_idempotency db k = Some row" and "row_completed row"
  shows "public_idempotency (snd (idempotency_release e subject key db)) k = Some row"
  using assms
  by (auto simp: idempotency_release_def auto_run_def Let_def is_some_and_iff split: trx_end.splits)

end
