(* ===== verification/Key_Directory.thy ===== *)
theory Key_Directory
  imports Identity_Wire Auto_Store
begin

text \<open>
  The identity key directory on the capsule protocol:
  \<open>crates/aseman-capsule/src/identity.rs\<close>. A key epoch is one capsule whose body is a map of
  fields; times are stored in microseconds. The capsules of the kind \<open>core.identity_key\<close> are
  a table with the two unique indexes its schema declares (the key identifier; subject,
  purpose and epoch); a write names the revision it replaces. The port the use cases are
  written against is the record \<open>key_directory\<close>, and its contract the locale
  \<open>key_directory_laws\<close>, which the capsule directory interprets.
\<close>

section \<open>Capsule values\<close>

datatype capsule_value =
    Null
  | Bool bool
  | Integer i64
  | Float u64
  | Bytes string
  | Text string
  | Array "capsule_value list"
  | Object "(string \<times> capsule_value) list"

type_synonym fields = "string \<rightharpoonup> capsule_value"

definition text_field :: "fields \<Rightarrow> string \<Rightarrow> string" where
  "text_field fs name = (case fs name of Some (Text v) \<Rightarrow> v | _ \<Rightarrow> [])"

definition PURPOSES :: "key_purpose list" where
  "PURPOSES = [Authentication, Descriptor, TokenIssuing, Introduction]"

text \<open>\<open>micros\<close> and \<open>millis\<close> occur in each repository, with the name of what it stores in the messages.\<close>

definition micros_of :: "string \<Rightarrow> i64 \<Rightarrow> (capsule_value, port_error) result" where
  "micros_of owner m = ok_or (Failed (owner @ '' time overflows microseconds''))
     (map_option Integer (checked_i64 (int_of m * 1000)))"

abbreviation micros :: "i64 \<Rightarrow> (capsule_value, port_error) result" where
  "micros \<equiv> micros_of ''key''"

definition optional_micros :: "i64 option \<Rightarrow> (capsule_value option, port_error) result" where
  "optional_micros m =
     (case m of None \<Rightarrow> Ok None | Some t \<Rightarrow> and_then (micros t) (\<lambda>v. Ok (Some v)))"

text \<open>\<open>/\<close> on \<open>i64\<close> rounds towards zero.\<close>

definition div_i64 :: "i64 \<Rightarrow> int \<Rightarrow> i64" where
  "div_i64 x n = I64 (if int_of x < 0 then - ((- int_of x) div n) else int_of x div n)"

definition time_field :: "string \<Rightarrow> fields \<Rightarrow> string \<Rightarrow> (i64 option, port_error) result" where
  "time_field owner fs name =
     (case fs name of
        None \<Rightarrow> Ok None
      | Some Null \<Rightarrow> Ok None
      | Some (Integer m) \<Rightarrow> Ok (Some (div_i64 m 1000))
      | Some _ \<Rightarrow> Err (Failed (owner @ '' '' @ name @ '' is not a time'')))"

abbreviation millis_field :: "fields \<Rightarrow> string \<Rightarrow> (i64 option, port_error) result" where
  "millis_field \<equiv> time_field ''identity key''"

definition set_optional :: "string \<Rightarrow> capsule_value option \<Rightarrow> fields \<Rightarrow> fields" where
  "set_optional name v fs = (case v of None \<Rightarrow> fs | Some x \<Rightarrow> fs(name \<mapsto> x))"

definition required_fields :: "identity_key \<Rightarrow> capsule_value \<Rightarrow> fields" where
  "required_fields key not_before =
     (let e = key_epoch key in
      [''subject_kind'' \<mapsto> Text (subject_kind_as_str (subject_kind (epoch_subject e))),
       ''subject_id'' \<mapsto> Bytes (be_bytes 16 (unat (subject_uuid (epoch_subject e)))),
       ''purpose'' \<mapsto> Text (key_purpose_as_str (epoch_purpose e)),
       ''epoch'' \<mapsto> Integer (I64 (uint (epoch_number e))),
       ''key_id'' \<mapsto> Text (key_key_id key),
       ''public_key'' \<mapsto> Bytes (key_public_key key),
       ''not_before_micros'' \<mapsto> not_before,
       ''legacy'' \<mapsto> Bool (epoch_legacy e)])"

definition key_fields :: "identity_key \<Rightarrow> (fields, port_error) result" where
  "key_fields key =
     (let e = key_epoch key in
      and_then (micros (epoch_not_before_millis e)) (\<lambda>not_before.
      and_then (optional_micros (epoch_expires_at_millis e)) (\<lambda>expires.
      and_then (optional_micros (retired_at_millis e)) (\<lambda>retired.
      and_then (optional_micros (revoked_at_millis e)) (\<lambda>revoked.
        Ok (set_optional ''revoked_at_micros'' revoked
           (set_optional ''retired_at_micros'' retired
           (set_optional ''expires_at_micros'' expires (required_fields key not_before))))))))) "

text \<open>\<open>Uuid::from_slice\<close>: sixteen bytes, most significant first.\<close>

definition be_value :: "string \<Rightarrow> nat" where
  "be_value bytes = foldl (\<lambda>a c. 256 * a + byte c) 0 bytes"

definition uuid_from_slice :: "string \<Rightarrow> uuid option" where
  "uuid_from_slice bytes = (if length bytes = 16 then Some (of_nat (be_value bytes)) else None)"

definition u32_of_i64 :: "i64 \<Rightarrow> u32 option" where
  "u32_of_i64 x = (if 0 \<le> int_of x \<and> int_of x < 2 ^ 32 then Some (word_of_int (int_of x)) else None)"

text \<open>The messages of the conversions that fail are those of the crates that convert.\<close>

definition key_record ::
  "string \<Rightarrow> string \<Rightarrow> fields \<Rightarrow> (identity_key, port_error) result" where
  "key_record uuid_message integer_message fs =
     and_then (ok_or (Failed (''unknown subject kind '' @ text_field fs ''subject_kind''))
       (List.find (\<lambda>k. subject_kind_as_str k = text_field fs ''subject_kind'') subject_kind_ALL)) (\<lambda>kind.
     and_then (case fs ''subject_id'' of
         Some (Bytes b) \<Rightarrow> ok_or (Failed uuid_message) (uuid_from_slice b)
       | _ \<Rightarrow> Err (Failed ''identity key has no subject'')) (\<lambda>id.
     and_then (ok_or (Failed (''unknown key purpose '' @ text_field fs ''purpose''))
       (List.find (\<lambda>p. key_purpose_as_str p = text_field fs ''purpose'') PURPOSES)) (\<lambda>purpose.
     and_then (case fs ''epoch'' of
         Some (Integer n) \<Rightarrow> ok_or (Failed integer_message) (u32_of_i64 n)
       | _ \<Rightarrow> Err (Failed ''identity key has no epoch'')) (\<lambda>n.
     and_then (case fs ''public_key'' of
         Some (Bytes b) \<Rightarrow> Ok b
       | _ \<Rightarrow> Err (Failed ''identity key has no public key'')) (\<lambda>public_key.
     and_then (millis_field fs ''not_before_micros'') (\<lambda>not_before_opt.
     and_then (ok_or (Failed ''identity key has no validity start'') not_before_opt) (\<lambda>not_before.
     and_then (millis_field fs ''expires_at_micros'') (\<lambda>expires.
     and_then (millis_field fs ''retired_at_micros'') (\<lambda>retired.
     and_then (millis_field fs ''revoked_at_micros'') (\<lambda>revoked.
       Ok \<lparr>key_key_id = text_field fs ''key_id'', key_public_key = public_key,
           key_epoch = \<lparr>epoch_subject = \<lparr>subject_kind = kind, subject_uuid = id\<rparr>,
             epoch_purpose = purpose, epoch_number = n, epoch_not_before_millis = not_before,
             epoch_expires_at_millis = expires, retired_at_millis = retired,
             revoked_at_millis = revoked,
             epoch_legacy = (fs ''legacy'' = Some (Bool True))\<rparr>\<rparr>))))))))))"

section \<open>The body of a key capsule round-trips\<close>

lemma be_value_be_bytes: "x < 256 ^ n \<Longrightarrow> be_value (be_bytes n x) = x"
proof (induction n arbitrary: x)
  case (Suc n)
  then have "x div 256 < 256 ^ n" by (auto simp: less_mult_imp_div_less)
  with Suc.IH have "be_value (be_bytes n (x div 256)) = x div 256" by blast
  then show ?case by (simp add: be_value_def byte_def)
qed (simp add: be_value_def)

lemma uuid_from_slice_bytes: "uuid_from_slice (be_bytes 16 (unat u)) = Some u"
proof -
  have "unat u < 256 ^ 16" using unsigned_less [of u, where 'a = nat] by simp
  then show ?thesis by (simp add: uuid_from_slice_def be_value_be_bytes)
qed

lemma micros_Ok_iff: "micros_of owner m = Ok v \<longleftrightarrow> (\<exists>i. v = Integer i \<and> int_of i = int_of m * 1000)"
  by (auto simp: micros_of_def result_simps checked_i64_Some_iff)

lemma div_i64_exact:
  assumes "int_of i = int_of m * 1000"
  shows "div_i64 i 1000 = m"
proof -
  have "- (int_of m * 1000) div 1000 = - int_of m"
    using nonzero_mult_div_cancel_right [of 1000 "- int_of m"] by simp
  then show ?thesis using assms by (simp add: div_i64_def)
qed

lemma optional_micros_Ok:
  "optional_micros m = Ok v \<Longrightarrow>
     (m = None \<and> v = None) \<or> (\<exists>t i. m = Some t \<and> v = Some (Integer i) \<and> int_of i = int_of t * 1000)"
  by (auto simp: optional_micros_def result_simps micros_Ok_iff split: option.splits)

lemma find_purpose:
  "List.find (\<lambda>p. key_purpose_as_str p = key_purpose_as_str purpose) PURPOSES = Some purpose"
  by (cases purpose) (simp_all add: PURPOSES_def)

lemma u32_of_i64_uint: "u32_of_i64 (I64 (uint (n :: u32))) = Some n"
proof -
  have "int_of (I64 (uint n)) = uint n"
    using uint_bounded [of n]
    by (intro int_of_I64_in) (simp add: in_i64_def order_trans [OF _ uint_nonnegative])
  then show ?thesis using uint_bounded [of n] by (simp add: u32_of_i64_def del: int_of_I64)
qed

lemma key_fields_Ok_iff:
  "key_fields k = Ok f \<longleftrightarrow> (\<exists>nb ex rt rv.
     micros (epoch_not_before_millis (key_epoch k)) = Ok nb
     \<and> optional_micros (epoch_expires_at_millis (key_epoch k)) = Ok ex
     \<and> optional_micros (retired_at_millis (key_epoch k)) = Ok rt
     \<and> optional_micros (revoked_at_millis (key_epoch k)) = Ok rv
     \<and> f = set_optional ''revoked_at_micros'' rv (set_optional ''retired_at_micros'' rt
           (set_optional ''expires_at_micros'' ex (required_fields k nb))))"
  unfolding key_fields_def Let_def result_simps by blast

lemma set_optional_upd:
  "set_optional n (Some v) fs = fs(n \<mapsto> v)"
  "(set_optional n x fs)(n \<mapsto> v) = fs(n \<mapsto> v)"
  "m \<noteq> n \<Longrightarrow> (set_optional m x fs)(n \<mapsto> v) = set_optional m x (fs(n \<mapsto> v))"
  by (auto simp: set_optional_def split: option.split)

text \<open>The fields the body always has; the three optional times are read separately.\<close>

lemma key_fields_Ok:
  assumes "key_fields k = Ok f"
  shows "f ''subject_kind'' = Some (Text (subject_kind_as_str (subject_kind (epoch_subject (key_epoch k)))))"
    "f ''subject_id'' = Some (Bytes (be_bytes 16 (unat (subject_uuid (epoch_subject (key_epoch k))))))"
    "f ''purpose'' = Some (Text (key_purpose_as_str (epoch_purpose (key_epoch k))))"
    "f ''epoch'' = Some (Integer (I64 (uint (epoch_number (key_epoch k)))))"
    "f ''key_id'' = Some (Text (key_key_id k))" "f ''public_key'' = Some (Bytes (key_public_key k))"
    "f ''legacy'' = Some (Bool (epoch_legacy (key_epoch k)))"
    "millis_field f ''not_before_micros'' = Ok (Some (epoch_not_before_millis (key_epoch k)))"
    "millis_field f ''expires_at_micros'' = Ok (epoch_expires_at_millis (key_epoch k))"
    "millis_field f ''retired_at_micros'' = Ok (retired_at_millis (key_epoch k))"
    "millis_field f ''revoked_at_micros'' = Ok (revoked_at_millis (key_epoch k))"
proof -
  from assms obtain nb ex rt rv where
    m: "micros (epoch_not_before_millis (key_epoch k)) = Ok nb"
       "optional_micros (epoch_expires_at_millis (key_epoch k)) = Ok ex"
       "optional_micros (retired_at_millis (key_epoch k)) = Ok rt"
       "optional_micros (revoked_at_millis (key_epoch k)) = Ok rv"
    and f: "f = set_optional ''revoked_at_micros'' rv (set_optional ''retired_at_micros'' rt
           (set_optional ''expires_at_micros'' ex (required_fields k nb)))"
    by (auto simp: key_fields_Ok_iff)
  show "f ''subject_kind'' = Some (Text (subject_kind_as_str (subject_kind (epoch_subject (key_epoch k)))))"
    "f ''subject_id'' = Some (Bytes (be_bytes 16 (unat (subject_uuid (epoch_subject (key_epoch k))))))"
    "f ''purpose'' = Some (Text (key_purpose_as_str (epoch_purpose (key_epoch k))))"
    "f ''epoch'' = Some (Integer (I64 (uint (epoch_number (key_epoch k)))))"
    "f ''key_id'' = Some (Text (key_key_id k))" "f ''public_key'' = Some (Bytes (key_public_key k))"
    "f ''legacy'' = Some (Bool (epoch_legacy (key_epoch k)))"
    unfolding f set_optional_def required_fields_def Let_def by (simp_all split: option.split del: int_of_I64)
  show "millis_field f ''not_before_micros'' = Ok (Some (epoch_not_before_millis (key_epoch k)))"
    using m(1) unfolding f set_optional_def required_fields_def Let_def
    by (auto simp: micros_Ok_iff time_field_def div_i64_exact split: option.split)
  show "millis_field f ''expires_at_micros'' = Ok (epoch_expires_at_millis (key_epoch k))"
    using optional_micros_Ok [OF m(2)] unfolding f set_optional_def required_fields_def Let_def
    by (auto simp: time_field_def div_i64_exact split: option.split)
  show "millis_field f ''retired_at_micros'' = Ok (retired_at_millis (key_epoch k))"
    using optional_micros_Ok [OF m(3)] unfolding f set_optional_def required_fields_def Let_def
    by (auto simp: time_field_def div_i64_exact split: option.split)
  show "millis_field f ''revoked_at_micros'' = Ok (revoked_at_millis (key_epoch k))"
    using optional_micros_Ok [OF m(4)] unfolding f set_optional_def required_fields_def Let_def
    by (auto simp: time_field_def div_i64_exact split: option.split)
qed

lemma key_record_fields:
  assumes "key_fields k = Ok f"
  shows "key_record um im f = Ok k"
proof -
  note f = key_fields_Ok [OF assms]
  have t: "text_field f ''subject_kind'' = subject_kind_as_str (subject_kind (epoch_subject (key_epoch k)))"
      "text_field f ''purpose'' = key_purpose_as_str (epoch_purpose (key_epoch k))"
      "text_field f ''key_id'' = key_key_id k"
    by (simp_all add: text_field_def f)
  show ?thesis
    by (simp add: key_record_def t f find_subject_kind find_purpose uuid_from_slice_bytes u32_of_i64_uint
        del: int_of_I64)
qed

section \<open>The port\<close>

record 'd key_directory =
  kd_key :: "'d \<Rightarrow> string \<Rightarrow> (identity_key option, port_error) result"
  kd_epochs :: "'d \<Rightarrow> subject \<Rightarrow> key_purpose \<Rightarrow> (identity_key list, port_error) result"
  kd_register :: "identity_key \<Rightarrow> 'd \<Rightarrow> (unit, port_error) result \<times> 'd"
  kd_retire :: "string \<Rightarrow> i64 \<Rightarrow> 'd \<Rightarrow> (unit, port_error) result \<times> 'd"
  kd_revoke :: "string \<Rightarrow> i64 \<Rightarrow> 'd \<Rightarrow> (unit, port_error) result \<times> 'd"

definition keep_earliest_time :: "i64 \<Rightarrow> i64 option \<Rightarrow> i64 option" where
  "keep_earliest_time at recorded = Some (case recorded of None \<Rightarrow> at | Some r \<Rightarrow> min r at)"

definition retired_at :: "i64 \<Rightarrow> identity_key \<Rightarrow> identity_key" where
  "retired_at at k = k\<lparr>key_epoch := (key_epoch k)\<lparr>retired_at_millis := keep_earliest_time at (retired_at_millis (key_epoch k))\<rparr>\<rparr>"

definition revoked_at :: "i64 \<Rightarrow> identity_key \<Rightarrow> identity_key" where
  "revoked_at at k = k\<lparr>key_epoch := (key_epoch k)\<lparr>revoked_at_millis := keep_earliest_time at (revoked_at_millis (key_epoch k))\<rparr>\<rparr>"

definition same_epoch :: "identity_key \<Rightarrow> identity_key \<Rightarrow> bool" where
  "same_epoch k k' \<longleftrightarrow>
     epoch_subject (key_epoch k) = epoch_subject (key_epoch k')
     \<and> epoch_purpose (key_epoch k) = epoch_purpose (key_epoch k')
     \<and> epoch_number (key_epoch k) = epoch_number (key_epoch k')"

locale key_directory_laws =
  fixes dir :: "'d key_directory"
    and ok :: "'d \<Rightarrow> bool"
    and keys :: "'d \<Rightarrow> identity_key set"
  assumes key_Some: "ok d \<Longrightarrow> kd_key dir d i = Ok (Some k) \<Longrightarrow> k \<in> keys d \<and> key_key_id k = i"
    and epochs_Ok: "ok d \<Longrightarrow> kd_epochs dir d s p = Ok ks \<Longrightarrow> k \<in> set ks
      \<Longrightarrow> k \<in> keys d \<and> epoch_subject (key_epoch k) = s \<and> epoch_purpose (key_epoch k) = p"
    and unique_id: "ok d \<Longrightarrow> k \<in> keys d \<Longrightarrow> k' \<in> keys d \<Longrightarrow> key_key_id k = key_key_id k' \<Longrightarrow> k = k'"
    and unique_epoch: "ok d \<Longrightarrow> k \<in> keys d \<Longrightarrow> k' \<in> keys d \<Longrightarrow> same_epoch k k' \<Longrightarrow> k = k'"
    and register_law: "ok d \<Longrightarrow> kd_register dir k d = (r, d') \<Longrightarrow>
      ok d' \<and> (if r = Ok () then keys d' = insert k (keys d) else keys d' = keys d)"
    and retire_law: "ok d \<Longrightarrow> kd_retire dir i at d = (r, d') \<Longrightarrow>
      ok d' \<and> (if r = Ok () then keys d' = (\<lambda>k. if key_key_id k = i then retired_at at k else k) ` keys d
               else keys d' = keys d)"
    and revoke_law: "ok d \<Longrightarrow> kd_revoke dir i at d = (r, d') \<Longrightarrow>
      ok d' \<and> (if r = Ok () then keys d' = (\<lambda>k. if key_key_id k = i then revoked_at at k else k) ` keys d
               else keys d' = keys d)"
    and revoke_known: "ok d \<Longrightarrow> kd_revoke dir i at d = (Ok (), d') \<Longrightarrow> \<exists>k \<in> keys d. key_key_id k = i"

section \<open>The capsule directory\<close>

record capsule_row =
  row_id :: uuid
  row_revision :: u64
  row_body :: fields

type_synonym capsule_table = "capsule_row list"

definition MAX_QUERY_LIMIT :: nat where
  "MAX_QUERY_LIMIT = 10000"

definition key_query :: "(fields \<Rightarrow> bool) \<Rightarrow> capsule_table \<Rightarrow> capsule_row list" where
  "key_query predicate t = take MAX_QUERY_LIMIT (filter (\<lambda>row. predicate (row_body row)) t)"

definition key_capsule :: "string \<Rightarrow> capsule_table \<Rightarrow> capsule_row option" where
  "key_capsule i t =
     (case key_query (\<lambda>fs. fs ''key_id'' = Some (Text i)) t of [] \<Rightarrow> None | row # _ \<Rightarrow> Some row)"

text \<open>The unique indexes of the schema.\<close>

definition index_conflict :: "fields \<Rightarrow> fields \<Rightarrow> bool" where
  "index_conflict a b \<longleftrightarrow>
     a ''key_id'' = b ''key_id''
     \<or> list_all (\<lambda>name. a name = b name) [''subject_kind'', ''subject_id'', ''purpose'', ''epoch'']"

text \<open>A compare-and-swap write of one capsule: the revision it replaces must be the stored one.\<close>

definition put_revision :: "capsule_row \<Rightarrow> u64 \<Rightarrow> capsule_table \<Rightarrow> (unit, port_error) result \<times> capsule_table" where
  "put_revision row expected t =
     (if \<exists>r \<in> set t. row_id r = row_id row \<and> row_revision r = expected
      then (Ok (), map (\<lambda>r. if row_id r = row_id row then row else r) t)
      else (Err Conflict, t))"

fun keep_earliest_attempts ::
  "(capsule_table \<Rightarrow> capsule_table) list \<Rightarrow> string \<Rightarrow> string \<Rightarrow> i64 \<Rightarrow> capsule_table
   \<Rightarrow> (unit, port_error) result \<times> capsule_table" where
  "keep_earliest_attempts [] i name at t = (Err Conflict, t)"
| "keep_earliest_attempts (others # rest) i name at t =
     (case key_capsule i t of
        None \<Rightarrow> (Err NotFound, t)
      | Some current \<Rightarrow>
          (case millis_field (row_body current) name of
             Inl e \<Rightarrow> (Err e, t)
           | Inr recorded \<Rightarrow>
               if is_some_and (\<lambda>r. r \<le> at) recorded then (Ok (), t)
               else case micros at of
                 Inl e \<Rightarrow> (Err e, t)
               | Inr v \<Rightarrow>
                   (case put_revision (current\<lparr>row_revision := row_revision current + 1,
                                              row_body := (row_body current)(name \<mapsto> v)\<rparr>)
                           (row_revision current) (others t) of
                      (Inl Conflict, t') \<Rightarrow> keep_earliest_attempts rest i name at t'
                    | other \<Rightarrow> other)))"

text \<open>
  The directory over the table. \<open>down\<close> is the failure of the store, if it fails; \<open>new_id\<close> draws
  the capsule's identifier; \<open>um\<close> and \<open>im\<close> are the messages of failed conversions.
\<close>

fun records :: "('a \<Rightarrow> ('b, 'e) result) \<Rightarrow> 'a list \<Rightarrow> ('b list, 'e) result" where
  "records f [] = Ok []"
| "records f (x # xs) = and_then (f x) (\<lambda>y. and_then (records f xs) (\<lambda>ys. Ok (y # ys)))"

definition capsule_key ::
  "string \<Rightarrow> string \<Rightarrow> capsule_table \<Rightarrow> string \<Rightarrow> (identity_key option, port_error) result" where
  "capsule_key um im t i =
     (case key_capsule i t of
        None \<Rightarrow> Ok None
      | Some row \<Rightarrow> and_then (key_record um im (row_body row)) (\<lambda>k. Ok (Some k)))"

definition capsule_epochs ::
  "string \<Rightarrow> string \<Rightarrow> capsule_table \<Rightarrow> subject \<Rightarrow> key_purpose \<Rightarrow> (identity_key list, port_error) result" where
  "capsule_epochs um im t s p =
     and_then (records (\<lambda>row. key_record um im (row_body row))
       (key_query (\<lambda>fs.
          fs ''subject_kind'' = Some (Text (subject_kind_as_str (subject_kind s)))
          \<and> fs ''subject_id'' = Some (Bytes (be_bytes 16 (unat (subject_uuid s))))
          \<and> fs ''purpose'' = Some (Text (key_purpose_as_str p))) t))
       (\<lambda>ks. Ok (sort_key (\<lambda>k. epoch_number (key_epoch k)) ks))"

definition capsule_register ::
  "(capsule_table \<Rightarrow> uuid) \<Rightarrow> identity_key \<Rightarrow> capsule_table \<Rightarrow> (unit, port_error) result \<times> capsule_table" where
  "capsule_register new_id k t =
     (case key_fields k of
        Inl e \<Rightarrow> (Err e, t)
      | Inr fs \<Rightarrow>
          if \<exists>r \<in> set t. row_id r = new_id t \<or> index_conflict (row_body r) fs then (Err Conflict, t)
          else (Ok (), t @ [\<lparr>row_id = new_id t, row_revision = 1, row_body = fs\<rparr>]))"

definition capsule_keep ::
  "string \<Rightarrow> string \<Rightarrow> i64 \<Rightarrow> capsule_table \<Rightarrow> (unit, port_error) result \<times> capsule_table" where
  "capsule_keep name i at t =
     keep_earliest_attempts (replicate MAX_CAS_ATTEMPTS id) i name at t"

definition capsule_directory ::
  "string \<Rightarrow> string \<Rightarrow> (capsule_table \<Rightarrow> uuid) \<Rightarrow> port_error option \<Rightarrow> capsule_table key_directory" where
  "capsule_directory um im new_id down =
     (case down of
        Some e \<Rightarrow> \<lparr>kd_key = (\<lambda>_ _. Err e), kd_epochs = (\<lambda>_ _ _. Err e), kd_register = (\<lambda>_ t. (Err e, t)),
                   kd_retire = (\<lambda>_ _ t. (Err e, t)), kd_revoke = (\<lambda>_ _ t. (Err e, t))\<rparr>
      | None \<Rightarrow> \<lparr>kd_key = capsule_key um im, kd_epochs = capsule_epochs um im,
                 kd_register = capsule_register new_id,
                 kd_retire = capsule_keep ''retired_at_micros'',
                 kd_revoke = capsule_keep ''revoked_at_micros''\<rparr>)"

section \<open>The capsule directory keeps the contract\<close>

definition table_keys :: "capsule_table \<Rightarrow> identity_key set" where
  "table_keys t = {k. \<exists>r \<in> set t. key_fields k = Ok (row_body r)}"

definition table_ok :: "capsule_table \<Rightarrow> bool" where
  "table_ok t \<longleftrightarrow> distinct (map row_id t)
     \<and> (\<forall>r \<in> set t. \<exists>k. key_fields k = Ok (row_body r))
     \<and> (\<forall>r \<in> set t. \<forall>r' \<in> set t. index_conflict (row_body r) (row_body r') \<longrightarrow> r = r')"

lemma key_fields_inject: "key_fields k = Ok f \<Longrightarrow> key_fields k' = Ok f \<Longrightarrow> k = k'"
  by (metis key_record_fields sum.inject(2))

lemma key_purpose_as_str_inject: "key_purpose_as_str a = key_purpose_as_str b \<longleftrightarrow> a = b"
  by (cases a; cases b) simp_all

lemma uuid_bytes_inject: "be_bytes 16 (unat (u :: uuid)) = be_bytes 16 (unat v) \<longleftrightarrow> u = v"
  by (metis option.inject uuid_from_slice_bytes)

lemma epoch_value_inject: "I64 (uint (m :: u32)) = I64 (uint n) \<longleftrightarrow> m = n"
  by (metis option.inject u32_of_i64_uint)

lemma index_conflict_iff:
  assumes "key_fields k = Ok f" and "key_fields k' = Ok f'"
  shows "index_conflict f f' \<longleftrightarrow> key_key_id k = key_key_id k' \<or> same_epoch k k'"
proof -
  obtain s s' where s: "epoch_subject (key_epoch k) = s" "epoch_subject (key_epoch k') = s'" by simp
  have "subject_kind_as_str (subject_kind s) = subject_kind_as_str (subject_kind s')
      \<and> be_bytes 16 (unat (subject_uuid s)) = be_bytes 16 (unat (subject_uuid s')) \<longleftrightarrow> s = s'"
    unfolding subject_kind_as_str_inject uuid_bytes_inject by (cases s; cases s') simp
  then show ?thesis
    using key_fields_Ok [OF assms(1)] key_fields_Ok [OF assms(2)] s
    by (auto simp: index_conflict_def same_epoch_def key_purpose_as_str_inject epoch_value_inject
        simp del: int_of_I64)
qed

lemma table_ok_unique:
  assumes "table_ok t" and "k \<in> table_keys t" and "k' \<in> table_keys t"
    and "key_key_id k = key_key_id k' \<or> same_epoch k k'"
  shows "k = k'"
proof -
  obtain r r' where r: "r \<in> set t" "key_fields k = Ok (row_body r)" "r' \<in> set t" "key_fields k' = Ok (row_body r')"
    using assms(2,3) by (auto simp: table_keys_def)
  with assms(1,4) have "r = r'" by (auto simp: table_ok_def index_conflict_iff)
  with r show ?thesis using key_fields_inject by blast
qed

lemma key_capsule_Some:
  assumes "table_ok t" and "key_capsule i t = Some row"
  shows "row \<in> set t" "\<exists>k. key_fields k = Ok (row_body row) \<and> key_key_id k = i"
proof -
  have "row \<in> set (key_query (\<lambda>fs. fs ''key_id'' = Some (Text i)) t)"
    using assms(2) by (auto simp: key_capsule_def split: list.splits)
  then have row: "row \<in> set t" "row_body row ''key_id'' = Some (Text i)"
    by (auto simp: key_query_def dest: in_set_takeD)
  with assms(1) obtain k where "key_fields k = Ok (row_body row)" by (auto simp: table_ok_def)
  with row show "row \<in> set t" "\<exists>k. key_fields k = Ok (row_body row) \<and> key_key_id k = i"
    by (auto simp: key_fields_Ok)
qed

lemma key_capsule_None:
  assumes "key_capsule i t = None" and "k \<in> table_keys t"
  shows "key_key_id k \<noteq> i"
proof -
  have "filter (\<lambda>row. row_body row ''key_id'' = Some (Text i)) t = []"
    using assms(1) by (auto simp: key_capsule_def key_query_def MAX_QUERY_LIMIT_def split: list.splits)
  with assms(2) show ?thesis by (auto simp: table_keys_def filter_empty_conv key_fields_Ok)
qed

lemma capsule_epochs_Ok:
  assumes "table_ok t" and "capsule_epochs um im t s p = Ok ks" and "k \<in> set ks"
  shows "k \<in> table_keys t \<and> epoch_subject (key_epoch k) = s \<and> epoch_purpose (key_epoch k) = p"
proof -
  have records: "records f xs = Ok ys \<Longrightarrow> y \<in> set ys \<Longrightarrow> \<exists>x \<in> set xs. f x = Ok y"
    for f :: "capsule_row \<Rightarrow> (identity_key, port_error) result" and xs ys y
    by (induction xs arbitrary: ys) (auto simp: result_simps)
  from assms(2,3) obtain row where row: "row \<in> set t" "key_record um im (row_body row) = Ok k"
      "row_body row ''subject_kind'' = Some (Text (subject_kind_as_str (subject_kind s)))"
      "row_body row ''subject_id'' = Some (Bytes (be_bytes 16 (unat (subject_uuid s))))"
      "row_body row ''purpose'' = Some (Text (key_purpose_as_str p))"
    by (auto simp: capsule_epochs_def result_simps key_query_def dest!: records in_set_takeD)
  from assms(1) row(1) obtain k' where k': "key_fields k' = Ok (row_body row)" by (auto simp: table_ok_def)
  with row(2) have "k' = k" by (simp add: key_record_fields)
  with k' row show ?thesis
    by (auto simp: table_keys_def key_fields_Ok subject_kind_as_str_inject uuid_bytes_inject
        key_purpose_as_str_inject intro!: subject.equality)
qed

lemma capsule_register_law:
  assumes "table_ok t" and "capsule_register new_id k t = (r, t')"
  shows "table_ok t' \<and> (if r = Ok () then table_keys t' = insert k (table_keys t) else table_keys t' = table_keys t)"
proof (cases "r = Ok ()")
  case True
  with assms(2) obtain fs where fs: "key_fields k = Ok fs"
      "\<forall>r \<in> set t. row_id r \<noteq> new_id t \<and> \<not> index_conflict (row_body r) fs"
      "t' = t @ [\<lparr>row_id = new_id t, row_revision = 1, row_body = fs\<rparr>]"
    by (auto simp: capsule_register_def split: sum.splits if_splits)
  have "\<not> index_conflict fs (row_body r)" if "r \<in> set t" for r
    using fs(2) that by (auto simp: index_conflict_def)
  with fs assms(1) have "table_ok t'" by (auto simp: table_ok_def)
  moreover have "table_keys t' = insert k (table_keys t)"
    using fs key_fields_inject by (auto simp: table_keys_def)
  ultimately show ?thesis using True by simp
next
  case False
  with assms show ?thesis by (auto simp: capsule_register_def split: sum.splits if_splits)
qed

text \<open>A time field and the update of a key it stands for.\<close>

definition stands_for :: "string \<Rightarrow> (i64 \<Rightarrow> identity_key \<Rightarrow> identity_key) \<Rightarrow> bool" where
  "stands_for name upd \<longleftrightarrow>
     name \<notin> set [''key_id'', ''subject_kind'', ''subject_id'', ''purpose'', ''epoch'']
     \<and> (\<forall>at k. key_key_id (upd at k) = key_key_id k)
     \<and> (\<forall>at k f. key_fields k = Ok f \<longrightarrow> (\<exists>recorded. millis_field f name = Ok recorded
          \<and> (is_some_and (\<lambda>r. r \<le> at) recorded \<longrightarrow> upd at k = k)
          \<and> (\<forall>v. \<not> is_some_and (\<lambda>r. r \<le> at) recorded \<longrightarrow> micros at = Ok v
                \<longrightarrow> key_fields (upd at k) = Ok (f(name \<mapsto> v)))))"

lemma keep_earliest_time_cases:
  "is_some_and (\<lambda>r. r \<le> at) recorded \<Longrightarrow> keep_earliest_time at recorded = recorded"
  "\<not> is_some_and (\<lambda>r. r \<le> at) recorded \<Longrightarrow> keep_earliest_time at recorded = Some at"
  by (cases recorded; simp add: keep_earliest_time_def min_def)+

lemma stands_for_retired: "stands_for ''retired_at_micros'' retired_at"
  unfolding stands_for_def
proof (intro conjI allI impI)
  fix at k f assume f: "key_fields k = Ok f"
  have "key_fields (retired_at at k) = Ok (f(''retired_at_micros'' \<mapsto> v))"
    if later: "\<not> is_some_and (\<lambda>r. r \<le> at) (retired_at_millis (key_epoch k))" and v: "micros at = Ok v" for v
  proof -
    have "optional_micros (keep_earliest_time at (retired_at_millis (key_epoch k))) = Ok (Some v)"
      using v keep_earliest_time_cases(2) [OF later] by (simp add: optional_micros_def)
    moreover have "required_fields (retired_at at k) nb = required_fields k nb" for nb
      by (simp add: required_fields_def retired_at_def Let_def)
    ultimately show ?thesis using f unfolding key_fields_Ok_iff
      by (auto simp: retired_at_def set_optional_upd simp del: fun_upd_apply)
  qed
  moreover have "retired_at at k = k" if "is_some_and (\<lambda>r. r \<le> at) (retired_at_millis (key_epoch k))"
    using keep_earliest_time_cases(1) [OF that] by (simp add: retired_at_def)
  ultimately show "\<exists>recorded. millis_field f ''retired_at_micros'' = Ok recorded
          \<and> (is_some_and (\<lambda>r. r \<le> at) recorded \<longrightarrow> retired_at at k = k)
          \<and> (\<forall>v. \<not> is_some_and (\<lambda>r. r \<le> at) recorded \<longrightarrow> micros at = Ok v
                \<longrightarrow> key_fields (retired_at at k) = Ok (f(''retired_at_micros'' \<mapsto> v)))"
    using key_fields_Ok(10) [OF f] by blast
qed (simp_all add: retired_at_def)

lemma stands_for_revoked: "stands_for ''revoked_at_micros'' revoked_at"
  unfolding stands_for_def
proof (intro conjI allI impI)
  fix at k f assume f: "key_fields k = Ok f"
  have "key_fields (revoked_at at k) = Ok (f(''revoked_at_micros'' \<mapsto> v))"
    if later: "\<not> is_some_and (\<lambda>r. r \<le> at) (revoked_at_millis (key_epoch k))" and v: "micros at = Ok v" for v
  proof -
    have "optional_micros (keep_earliest_time at (revoked_at_millis (key_epoch k))) = Ok (Some v)"
      using v keep_earliest_time_cases(2) [OF later] by (simp add: optional_micros_def)
    moreover have "required_fields (revoked_at at k) nb = required_fields k nb" for nb
      by (simp add: required_fields_def revoked_at_def Let_def)
    ultimately show ?thesis using f unfolding key_fields_Ok_iff
      by (auto simp: revoked_at_def set_optional_upd simp del: fun_upd_apply)
  qed
  moreover have "revoked_at at k = k" if "is_some_and (\<lambda>r. r \<le> at) (revoked_at_millis (key_epoch k))"
    using keep_earliest_time_cases(1) [OF that] by (simp add: revoked_at_def)
  ultimately show "\<exists>recorded. millis_field f ''revoked_at_micros'' = Ok recorded
          \<and> (is_some_and (\<lambda>r. r \<le> at) recorded \<longrightarrow> revoked_at at k = k)
          \<and> (\<forall>v. \<not> is_some_and (\<lambda>r. r \<le> at) recorded \<longrightarrow> micros at = Ok v
                \<longrightarrow> key_fields (revoked_at at k) = Ok (f(''revoked_at_micros'' \<mapsto> v)))"
    using key_fields_Ok(11) [OF f] by blast
qed (simp_all add: revoked_at_def)

lemma table_update:
  fixes n :: u64
  assumes "table_ok t" and "row \<in> set t" and "key_fields k = Ok (row_body row)"
    and "key_fields k' = Ok fs" and "key_key_id k' = key_key_id k"
    and "\<And>name. name \<in> set [''key_id'', ''subject_kind'', ''subject_id'', ''purpose'', ''epoch''] \<Longrightarrow> fs name = row_body row name"
  defines "t' \<equiv> map (\<lambda>r. if row_id r = row_id row then row\<lparr>row_revision := n, row_body := fs\<rparr> else r) t"
  shows "table_ok t'" "table_keys t' = (\<lambda>x. if key_key_id x = key_key_id k then k' else x) ` table_keys t"
proof -
  have same: "r = row" if "r \<in> set t" "row_id r = row_id row" for r
    using assms(1,2) that by (auto simp: table_ok_def distinct_map dest: inj_onD)
  then have set: "set t' = insert (row\<lparr>row_revision := n, row_body := fs\<rparr>) (set t - {row})"
    using assms(2) unfolding t'_def by auto
  have ids: "map row_id t' = map row_id t" unfolding t'_def by simp
  have index: "index_conflict fs b \<longleftrightarrow> index_conflict (row_body row) b"
      "index_conflict b fs \<longleftrightarrow> index_conflict b (row_body row)" for b
    using assms(6) by (simp_all add: index_conflict_def)
  show "table_ok t'" using assms(1,2,4)
    unfolding table_ok_def ids set by (auto simp: index)
  have only: "key_key_id x = key_key_id k \<longleftrightarrow> x = k" if "x \<in> table_keys t" for x
    using table_ok_unique [OF assms(1) that, of k] assms(2,3) by (auto simp: table_keys_def)
  have row: "x = k" if "key_fields x = Ok (row_body row)" for x
    using that assms(3) key_fields_inject by blast
  have "table_keys t' = insert k' (table_keys t - {k})"
  proof -
    have "r = row" if "r \<in> set t" "key_fields k = Ok (row_body r)" for r
      using assms(1,2,3) that by (auto simp: table_ok_def index_conflict_def)
    then show ?thesis
      using row assms(4) key_fields_inject by (auto simp: table_keys_def set)
  qed
  also have "\<dots> = (\<lambda>x. if key_key_id x = key_key_id k then k' else x) ` table_keys t"
  proof -
    have "k \<in> table_keys t" using assms(2,3) by (auto simp: table_keys_def)
    with only show ?thesis by auto
  qed
  finally show "table_keys t' = (\<lambda>x. if key_key_id x = key_key_id k then k' else x) ` table_keys t" .
qed

lemma capsule_keep_law:
  assumes "table_ok t" and "stands_for name upd" and "capsule_keep name i at t = (r, t')"
  shows "table_ok t' \<and> (if r = Ok () then table_keys t' = (\<lambda>k. if key_key_id k = i then upd at k else k) ` table_keys t
      else table_keys t' = table_keys t)"
proof (cases "key_capsule i t")
  case None
  then have "t' = t" "r = Err NotFound"
    using assms(3) by (simp_all add: capsule_keep_def MAX_CAS_ATTEMPTS_def numeral_eq_Suc)
  with assms(1) show ?thesis by simp
next
  case (Some row)
  obtain k where row: "row \<in> set t" and k: "key_fields k = Ok (row_body row)" "key_key_id k = i"
    using key_capsule_Some [OF assms(1) Some] by blast
  obtain recorded where recorded: "millis_field (row_body row) name = Ok recorded"
      "is_some_and (\<lambda>r. r \<le> at) recorded \<Longrightarrow> upd at k = k"
      "\<And>v. \<not> is_some_and (\<lambda>r. r \<le> at) recorded \<Longrightarrow> micros at = Ok v
         \<Longrightarrow> key_fields (upd at k) = Ok ((row_body row)(name \<mapsto> v))"
    using assms(2) k(1) unfolding stands_for_def by blast
  have only: "x = k" if "x \<in> table_keys t" "key_key_id x = i" for x
    using table_ok_unique [OF assms(1) that(1), of k] row k that(2) by (auto simp: table_keys_def)
  show ?thesis
  proof (cases "is_some_and (\<lambda>r. r \<le> at) recorded")
    case True
    then have "t' = t" "r = Ok ()"
      using assms(3) Some recorded(1) by (simp_all add: capsule_keep_def MAX_CAS_ATTEMPTS_def numeral_eq_Suc)
    moreover have "(\<lambda>k. if key_key_id k = i then upd at k else k) ` table_keys t = table_keys t"
      using only recorded(2) [OF True] by (force simp: image_iff)
    ultimately show ?thesis using assms(1) by simp
  next
    case False
    show ?thesis
    proof (cases "micros at")
      case (Inl e)
      then have "t' = t" "r = Err e"
        using assms(3) Some recorded(1) False
        by (simp_all add: capsule_keep_def MAX_CAS_ATTEMPTS_def numeral_eq_Suc)
      with assms(1) show ?thesis by simp
    next
      case (Inr v)
      let ?row = "row\<lparr>row_revision := row_revision row + 1, row_body := (row_body row)(name \<mapsto> v)\<rparr>"
      have t': "t' = map (\<lambda>r. if row_id r = row_id row then ?row else r) t" "r = Ok ()"
        using assms(3) Some recorded(1) False Inr row
        by (auto simp: capsule_keep_def MAX_CAS_ATTEMPTS_def numeral_eq_Suc put_revision_def split: if_splits)
      have "key_key_id (upd at k) = key_key_id k" using assms(2) by (simp add: stands_for_def)
      moreover have "((row_body row)(name \<mapsto> v)) n = row_body row n"
        if "n \<in> set [''key_id'', ''subject_kind'', ''subject_id'', ''purpose'', ''epoch'']" for n
        using that assms(2) unfolding stands_for_def by auto
      ultimately have "table_ok t'" "table_keys t' = (\<lambda>x. if key_key_id x = key_key_id k then upd at k else x) ` table_keys t"
        unfolding t' using table_update [OF assms(1) row k(1) recorded(3) [OF False Inr]] by blast+
      moreover have "(\<lambda>x. if key_key_id x = key_key_id k then upd at k else x) ` table_keys t
        = (\<lambda>k. if key_key_id k = i then upd at k else k) ` table_keys t"
        using only k(2) by (intro image_cong) auto
      ultimately show ?thesis using t'(2) by simp
    qed
  qed
qed

interpretation capsule: key_directory_laws "capsule_directory um im new_id down" table_ok table_keys
proof
  fix t i k
  assume t: "table_ok t" and "kd_key (capsule_directory um im new_id down) t i = Ok (Some k)"
  then obtain row where row: "key_capsule i t = Some row" "key_record um im (row_body row) = Ok k"
    by (auto simp: capsule_directory_def capsule_key_def result_simps split: option.splits)
  from key_capsule_Some [OF t row(1)] obtain k' where "row \<in> set t" "key_fields k' = Ok (row_body row)" "key_key_id k' = i"
    by blast
  with row(2) show "k \<in> table_keys t \<and> key_key_id k = i"
    by (auto simp: table_keys_def key_record_fields)
next
  fix t s p ks k
  assume "table_ok t" "kd_epochs (capsule_directory um im new_id down) t s p = Ok ks" "k \<in> set ks"
  then show "k \<in> table_keys t \<and> epoch_subject (key_epoch k) = s \<and> epoch_purpose (key_epoch k) = p"
    using capsule_epochs_Ok by (auto simp: capsule_directory_def split: option.splits)
next
  fix t k r t'
  assume "table_ok t" "kd_register (capsule_directory um im new_id down) k t = (r, t')"
  then show "table_ok t' \<and> (if r = Ok () then table_keys t' = insert k (table_keys t) else table_keys t' = table_keys t)"
    using capsule_register_law by (auto simp: capsule_directory_def split: option.splits)
next
  fix t i at r t'
  assume "table_ok t" "kd_retire (capsule_directory um im new_id down) i at t = (r, t')"
  then show "table_ok t' \<and> (if r = Ok () then table_keys t' = (\<lambda>k. if key_key_id k = i then retired_at at k else k) ` table_keys t
      else table_keys t' = table_keys t)"
    using capsule_keep_law [OF _ stands_for_retired] by (auto simp: capsule_directory_def split: option.splits)
next
  fix t i at r t'
  assume "table_ok t" "kd_revoke (capsule_directory um im new_id down) i at t = (r, t')"
  then show "table_ok t' \<and> (if r = Ok () then table_keys t' = (\<lambda>k. if key_key_id k = i then revoked_at at k else k) ` table_keys t
      else table_keys t' = table_keys t)"
    using capsule_keep_law [OF _ stands_for_revoked] by (auto simp: capsule_directory_def split: option.splits)
next
  fix t i at t'
  assume t: "table_ok t" and "kd_revoke (capsule_directory um im new_id down) i at t = (Ok (), t')"
  then have "key_capsule i t \<noteq> None"
    by (auto simp: capsule_directory_def capsule_keep_def MAX_CAS_ATTEMPTS_def numeral_eq_Suc split: option.splits)
  then show "\<exists>k \<in> table_keys t. key_key_id k = i"
    using key_capsule_Some [OF t] by (fastforce simp: table_keys_def)
qed (auto intro: table_ok_unique)

end
