(* ===== verification/Authentication.thy ===== *)
theory Authentication
  imports Key_Directory
begin

text \<open>
  Proof authentication and the key lifecycle: \<open>crates/aseman-application/src/identity.rs\<close>. Each
  use case is a function of the ports it is given (the key directory, the replay and
  challenge stores, the verifier) and of the clock reading, and returns its result with the
  new state. The native verifier and the storage of nonces and challenges are the ones of
  \<open>Identity_Wire\<close> and \<open>Auto_Store\<close>.
\<close>

section \<open>Use cases\<close>

datatype identity_failure =
    Rejected authentication_error
  | IdentityRefused string
  | IdentityUnavailable port_error

record verifier_policy =
  policy_audience :: string
  policy_freshness :: freshness_policy
  policy_rotation :: rotation_policy

record identity_verifier =
  iv_verify :: "signed_proof \<Rightarrow> identity_key \<Rightarrow> (unit, authentication_error) result"
  iv_body_digest :: "string \<Rightarrow> string"
  iv_describe_key :: "string \<Rightarrow> (key_description, authentication_error) result"
  iv_introduction_bytes :: "introduction \<Rightarrow> string"

definition native_verifier :: "(uuid \<Rightarrow> string) \<Rightarrow> crypto \<Rightarrow> identity_verifier" where
  "native_verifier uuid_text c =
     \<lparr>iv_verify = native_verify uuid_text c, iv_body_digest = body_digest c,
      iv_describe_key = native_describe_key c, iv_introduction_bytes = introduction_bytes uuid_text\<rparr>"

text \<open>
  \<open>AuthenticateProof::execute\<close>. \<open>check_proof\<close> is steps 4 to 11, which only read; the replay
  guard of step 12 is the only change of state.
\<close>

definition check_proof ::
  "'d key_directory \<Rightarrow> identity_verifier \<Rightarrow> 'd \<Rightarrow> i64 \<Rightarrow> signed_proof \<Rightarrow> string \<Rightarrow> verifier_policy
   \<Rightarrow> (unit, identity_failure) result" where
  "check_proof dir verifier d now p body policy =
     and_then (map_err IdentityUnavailable (kd_key dir d (proof_key_id p))) (\<lambda>found.
     and_then (ok_or (Rejected UnknownKey) found) (\<lambda>key.
       if epoch_subject (key_epoch key) \<noteq> proof_subject p then Err (Rejected KeySubjectMismatch)
       else if epoch_number (key_epoch key) \<noteq> proof_key_epoch p then Err (Rejected EpochNotAccepted)
       else and_then (map_err IdentityUnavailable
              (kd_epochs dir d (proof_subject p) (epoch_purpose (key_epoch key)))) (\<lambda>stored.
            and_then (map_err Rejected (accept_epoch (map key_epoch stored) (proof_key_epoch p)
              (proof_context p) now (policy_rotation policy))) (\<lambda>_.
              if proof_audience p \<noteq> policy_audience policy then Err (Rejected AudienceMismatch)
              else and_then (map_err Rejected
                     (window_check (proof_window p) now (policy_freshness policy))) (\<lambda>_.
                if iv_body_digest verifier body \<noteq> proof_body_digest p
                then Err (Rejected BodyDigestMismatch)
                else map_err Rejected (iv_verify verifier p key))))))"

definition authenticate ::
  "'d key_directory \<Rightarrow> identity_verifier \<Rightarrow> trx_end \<Rightarrow> 'd \<Rightarrow> i64 \<Rightarrow> signed_proof \<Rightarrow> string
   \<Rightarrow> verifier_policy \<Rightarrow> auto_db \<Rightarrow> (subject, identity_failure) result \<times> auto_db" where
  "authenticate dir verifier e d now p body policy db =
     (case check_proof dir verifier d now p body policy of
        Inl failure \<Rightarrow> (Err failure, db)
      | Inr _ \<Rightarrow>
          (case record_nonce e (proof_key_id p) (proof_nonce p)
                  (replay_retention_until (proof_window p) (policy_freshness policy)) now db of
             (Inl err, db') \<Rightarrow> (Err (IdentityUnavailable err), db')
           | (Inr first, db') \<Rightarrow>
               (if \<not> first then Err (Rejected Replayed) else Ok (proof_subject p), db')))"

record new_key =
  new_public_key :: string
  new_expires_at_millis :: "i64 option"

definition canonical :: "identity_verifier \<Rightarrow> new_key \<Rightarrow> (key_description, identity_failure) result" where
  "canonical verifier key =
     and_then (map_err Rejected (iv_describe_key verifier (new_public_key key))) (\<lambda>description.
       if description_legacy description
       then Err (IdentityRefused ''new identities use Ed25519 keys (ADR 0009)'')
       else Ok description)"

definition epoch_record ::
  "key_description \<Rightarrow> new_key \<Rightarrow> subject \<Rightarrow> key_purpose \<Rightarrow> u32 \<Rightarrow> i64 \<Rightarrow> identity_key" where
  "epoch_record description key subject purpose n now =
     \<lparr>key_key_id = description_key_id description, key_public_key = new_public_key key,
      key_epoch = \<lparr>epoch_subject = subject, epoch_purpose = purpose, epoch_number = n,
        epoch_not_before_millis = now, epoch_expires_at_millis = new_expires_at_millis key,
        retired_at_millis = None, revoked_at_millis = None,
        epoch_legacy = description_legacy description\<rparr>\<rparr>"

definition register_key ::
  "'d key_directory \<Rightarrow> identity_key \<Rightarrow> 'd \<Rightarrow> (unit, identity_failure) result \<times> 'd" where
  "register_key dir key d =
     (case kd_register dir key d of
        (Inl Conflict, d') \<Rightarrow> (Err (IdentityRefused ''the key is already registered''), d')
      | (other, d') \<Rightarrow> (map_err IdentityUnavailable other, d'))"

fun retire_all :: "'d key_directory \<Rightarrow> identity_key list \<Rightarrow> i64 \<Rightarrow> 'd \<Rightarrow> (unit, identity_failure) result \<times> 'd" where
  "retire_all dir [] now d = (Ok (), d)"
| "retire_all dir (k # ks) now d =
     (case kd_retire dir (key_key_id k) now d of
        (Inl e, d') \<Rightarrow> (Err (IdentityUnavailable e), d')
      | (Inr _, d') \<Rightarrow> retire_all dir ks now d')"

definition rotate_key ::
  "'d key_directory \<Rightarrow> identity_verifier \<Rightarrow> i64 \<Rightarrow> subject \<Rightarrow> key_purpose \<Rightarrow> new_key \<Rightarrow> 'd
   \<Rightarrow> (identity_key, identity_failure) result \<times> 'd" where
  "rotate_key dir verifier now subject purpose key d =
     (case canonical verifier key of
        Inl failure \<Rightarrow> (Err failure, d)
      | Inr description \<Rightarrow>
          (case kd_epochs dir d subject purpose of
             Inl e \<Rightarrow> (Err (IdentityUnavailable e), d)
           | Inr existing \<Rightarrow>
               let next = (case iter_max (map (\<lambda>k. epoch_number (key_epoch k)) existing) of
                             None \<Rightarrow> 1 | Some latest \<Rightarrow> saturating_add latest 1);
                   record = epoch_record description key subject purpose next now
               in case register_key dir record d of
                    (Inl failure, d') \<Rightarrow> (Err failure, d')
                  | (Inr _, d') \<Rightarrow>
                      (case retire_all dir (filter (\<lambda>k. retired_at_millis (key_epoch k) = None) existing)
                              now d' of
                         (Inl failure, d'') \<Rightarrow> (Err failure, d'')
                       | (Inr _, d'') \<Rightarrow> (Ok record, d''))))"

definition revoke_key ::
  "'d key_directory \<Rightarrow> i64 \<Rightarrow> string \<Rightarrow> 'd \<Rightarrow> (unit, identity_failure) result \<times> 'd" where
  "revoke_key dir now key_id d =
     (case kd_revoke dir key_id now d of
        (Inl NotFound, d') \<Rightarrow> (Err (IdentityRefused ''unknown key''), d')
      | (other, d') \<Rightarrow> (map_err IdentityUnavailable other, d'))"

definition issue_challenge ::
  "(uuid \<Rightarrow> string) \<Rightarrow> trx_end \<Rightarrow> string \<Rightarrow> i64 \<Rightarrow> subject \<Rightarrow> string \<Rightarrow> i64 \<Rightarrow> auto_db
   \<Rightarrow> (challenge, identity_failure) result \<times> auto_db" where
  "issue_challenge uuid_text e nonce now subject audience lifetime db =
     (if \<not> (I64 1 \<le> lifetime \<and> lifetime \<le> MAX_GUEST_CREDENTIAL_MILLIS)
      then (Err (IdentityRefused ''challenge lifetime out of range''), db)
      else case challenge_issue uuid_text e nonce subject audience (saturating_add_i64 now lifetime) db of
             (r, db') \<Rightarrow> (map_err IdentityUnavailable r, db'))"

record legacy_identity =
  legacy_subject :: subject
  legacy_public_key :: string

text \<open>\<open>EnrollCanonicalKey::execute\<close>: the checks that only read, and then the writes.\<close>

definition legacy_epoch :: "key_description \<Rightarrow> legacy_identity \<Rightarrow> i64 \<Rightarrow> identity_key" where
  "legacy_epoch description legacy now =
     \<lparr>key_key_id = description_key_id description, key_public_key = legacy_public_key legacy,
      key_epoch = \<lparr>epoch_subject = legacy_subject legacy, epoch_purpose = Authentication,
        epoch_number = 0, epoch_not_before_millis = now, epoch_expires_at_millis = None,
        retired_at_millis = Some now, revoked_at_millis = None, epoch_legacy = True\<rparr>\<rparr>"

definition check_enrolment ::
  "identity_verifier \<Rightarrow> i64 \<Rightarrow> legacy_identity \<Rightarrow> signed_proof \<Rightarrow> new_key \<Rightarrow> verifier_policy
   \<Rightarrow> (identity_key, identity_failure) result" where
  "check_enrolment verifier now legacy p key policy =
     and_then (map_err Rejected (iv_describe_key verifier (legacy_public_key legacy))) (\<lambda>description.
       if \<not> description_legacy description then Err (IdentityRefused ''the identity has no legacy key'')
       else if proof_context p \<noteq> ChallengeContext then Err (Rejected KeyPurposeMismatch)
       else if proof_key_id p \<noteq> description_key_id description then Err (Rejected UnknownKey)
       else if proof_subject p \<noteq> legacy_subject legacy then Err (Rejected KeySubjectMismatch)
       else if proof_key_epoch p \<noteq> 0 then Err (Rejected EpochNotAccepted)
       else if proof_audience p \<noteq> policy_audience policy then Err (Rejected AudienceMismatch)
       else and_then (map_err Rejected (window_check (proof_window p) now (policy_freshness policy))) (\<lambda>_.
         if iv_body_digest verifier (new_public_key key) \<noteq> proof_body_digest p
         then Err (Rejected BodyDigestMismatch)
         else and_then (map_err Rejected (iv_verify verifier p (legacy_epoch description legacy now)))
                (\<lambda>_. Ok (legacy_epoch description legacy now))))"

definition enroll_canonical_key ::
  "(uuid \<Rightarrow> string) \<Rightarrow> 'd key_directory \<Rightarrow> identity_verifier \<Rightarrow> trx_end \<Rightarrow> i64 \<Rightarrow> legacy_identity
   \<Rightarrow> signed_proof \<Rightarrow> new_key \<Rightarrow> verifier_policy \<Rightarrow> 'd \<times> auto_db
   \<Rightarrow> (identity_key, identity_failure) result \<times> 'd \<times> auto_db" where
  "enroll_canonical_key uuid_text dir verifier e now legacy p key policy s =
     (case (s, check_enrolment verifier now legacy p key policy) of
        ((d, db), Inl failure) \<Rightarrow> (Err failure, d, db)
      | ((d, db), Inr legacy_key) \<Rightarrow>
          (case challenge_consume uuid_text e (proof_nonce p) (legacy_subject legacy) (proof_audience p) now db of
             (Inl err, db') \<Rightarrow> (Err (IdentityUnavailable err), d, db')
           | (Inr consumed, db') \<Rightarrow>
               if \<not> consumed then (Err (Rejected Replayed), d, db')
               else case canonical verifier key of
                 Inl failure \<Rightarrow> (Err failure, d, db')
               | Inr description \<Rightarrow>
                   (case kd_epochs dir d (legacy_subject legacy) Authentication of
                      Inl err \<Rightarrow> (Err (IdentityUnavailable err), d, db')
                    | Inr existing \<Rightarrow>
                        if \<exists>k \<in> set existing. \<not> epoch_legacy (key_epoch k)
                        then (Err (IdentityRefused
                               ''the identity already has a canonical key; rotate it instead''), d, db')
                        else case (if existing = [] then register_key dir legacy_key d else (Ok (), d)) of
                               (Inl failure, d') \<Rightarrow> (Err failure, d', db')
                             | (Inr _, d') \<Rightarrow>
                                 let record = epoch_record description key (legacy_subject legacy)
                                       Authentication 1 now
                                 in case register_key dir record d' of
                                      (Inl failure, d'') \<Rightarrow> (Err failure, d'', db')
                                    | (Inr _, d'') \<Rightarrow> (Ok record, d'', db'))))"

definition accept_introduction ::
  "'d key_directory \<Rightarrow> identity_verifier \<Rightarrow> trx_end \<Rightarrow> i64 \<Rightarrow> signed_proof \<Rightarrow> introduction
   \<Rightarrow> verifier_policy \<Rightarrow> 'd \<times> auto_db \<Rightarrow> (subject, identity_failure) result \<times> 'd \<times> auto_db" where
  "accept_introduction dir verifier e now p i policy s =
     (case s of (d, db) \<Rightarrow>
      if proof_context p \<noteq> IntroductionContext then (Err (Rejected KeyPurposeMismatch), d, db)
      else case authenticate dir verifier e d now p (iv_introduction_bytes verifier i) policy db of
             (Inl failure, db') \<Rightarrow> (Err failure, d, db')
           | (Inr root, db') \<Rightarrow>
               if subject_kind root \<noteq> Node \<or> subject_kind (introduction_subject i) \<noteq> Node
               then (Err (IdentityRefused ''introductions are between nodes''), d, db')
               else case iv_describe_key verifier (introduction_public_key i) of
                 Inl failure \<Rightarrow> (Err (Rejected failure), d, db')
               | Inr description \<Rightarrow>
                   if description_legacy description
                   then (Err (IdentityRefused ''new identities use Ed25519 keys (ADR 0009)''), d, db')
                   else case register_key dir
                          \<lparr>key_key_id = description_key_id description,
                           key_public_key = introduction_public_key i,
                           key_epoch = \<lparr>epoch_subject = introduction_subject i, epoch_purpose = Descriptor,
                             epoch_number = introduction_epoch i,
                             epoch_not_before_millis = introduction_not_before_millis i,
                             epoch_expires_at_millis = introduction_expires_at_millis i,
                             retired_at_millis = None, revoked_at_millis = None,
                             epoch_legacy = False\<rparr>\<rparr> d of
                          (Inl failure, d') \<Rightarrow> (Err failure, d', db')
                        | (Inr _, d') \<Rightarrow> (Ok root, d', db'))"

section \<open>What an accepted proof shows\<close>

lemma authenticate_Ok:
  assumes "authenticate dir verifier e d now p body policy db = (Ok s, db')"
  shows "check_proof dir verifier d now p body policy = Ok ()" "s = proof_subject p"
    "record_nonce e (proof_key_id p) (proof_nonce p)
       (replay_retention_until (proof_window p) (policy_freshness policy)) now db = (Ok True, db')"
  using assms by (auto simp: authenticate_def split: sum.splits prod.splits if_splits)

lemma check_proof_window:
  "check_proof dir verifier d now p body policy = Ok () \<Longrightarrow>
     window_check (proof_window p) now (policy_freshness policy) = Ok ()"
  by (auto simp: check_proof_def result_simps split: if_splits)

definition key_authorizes ::
  "identity_verifier \<Rightarrow> identity_key \<Rightarrow> i64 \<Rightarrow> signed_proof \<Rightarrow> string \<Rightarrow> verifier_policy \<Rightarrow> bool" where
  "key_authorizes verifier key now p body policy \<longleftrightarrow>
     key_key_id key = proof_key_id p
     \<and> epoch_subject (key_epoch key) = proof_subject p
     \<and> epoch_number (key_epoch key) = proof_key_epoch p
     \<and> signs (epoch_purpose (key_epoch key)) (proof_context p)
     \<and> (\<forall>revoked. revoked_at_millis (key_epoch key) = Some revoked \<longrightarrow> now < revoked)
     \<and> (epoch_legacy (key_epoch key) \<longrightarrow> \<not> issues_authority (proof_context p))
     \<and> epoch_not_before_millis (key_epoch key) \<le> now
     \<and> (\<forall>expires. epoch_expires_at_millis (key_epoch key) = Some expires \<longrightarrow> now < expires)
     \<and> proof_audience p = policy_audience policy
     \<and> window_check (proof_window p) now (policy_freshness policy) = Ok ()
     \<and> iv_body_digest verifier body = proof_body_digest p
     \<and> iv_verify verifier p key = Ok ()"

text \<open>The operations on a directory, for runs of them; what one returned is not looked at.\<close>

datatype directory_op = RegisterOp identity_key | RetireOp string i64 | RevokeOp string i64

fun apply_op :: "'d key_directory \<Rightarrow> directory_op \<Rightarrow> 'd \<Rightarrow> 'd" where
  "apply_op dir (RegisterOp key) d = snd (kd_register dir key d)"
| "apply_op dir (RetireOp i at) d = snd (kd_retire dir i at d)"
| "apply_op dir (RevokeOp i at) d = snd (kd_revoke dir i at d)"

context key_directory_laws
begin

text \<open>
  The epoch the directory returns for the proof is the key the proof names, since both indexes
  are unique: the checks on the epoch are checks on that key.
\<close>

lemma check_proof_key:
  assumes "ok d" and "check_proof dir verifier d now p body policy = Ok ()"
  shows "\<exists>key \<in> keys d. key_authorizes verifier key now p body policy"
proof -
  from assms(2) obtain key stored where
    key: "kd_key dir d (proof_key_id p) = Ok (Some key)"
      "epoch_subject (key_epoch key) = proof_subject p" "epoch_number (key_epoch key) = proof_key_epoch p"
    and stored: "kd_epochs dir d (proof_subject p) (epoch_purpose (key_epoch key)) = Ok stored"
    and accepted: "accept_epoch (map key_epoch stored) (proof_key_epoch p) (proof_context p) now
        (policy_rotation policy) = Ok ()"
    and rest: "proof_audience p = policy_audience policy"
      "window_check (proof_window p) now (policy_freshness policy) = Ok ()"
      "iv_body_digest verifier body = proof_body_digest p" "iv_verify verifier p key = Ok ()"
    by (auto simp: check_proof_def result_simps split: if_splits)
  have mine: "key \<in> keys d" "key_key_id key = proof_key_id p" using key_Some [OF assms(1) key(1)] by auto
  from accepted obtain ep where ep:
      "List.find (\<lambda>k. epoch_number k = proof_key_epoch p) (map key_epoch stored) = Some ep"
      "signs (epoch_purpose ep) (proof_context p)" "epoch_legacy ep \<longrightarrow> \<not> issues_authority (proof_context p)"
      "ep \<in> set (live_epochs (map key_epoch stored) now)"
      "\<forall>expires. epoch_expires_at_millis ep = Some expires \<longrightarrow> now < expires"
    unfolding accept_epoch_Ok_iff by blast
  have "ep \<in> set (map key_epoch stored)" "epoch_number ep = proof_key_epoch p"
    using ep(1) by (metis (mono_tags, lifting) find_Some_iff nth_mem)+
  then obtain k where k: "k \<in> set stored" "key_epoch k = ep" by auto
  have "k \<in> keys d" "same_epoch key k"
    using epochs_Ok [OF assms(1) stored k(1)] key k \<open>epoch_number ep = proof_key_epoch p\<close>
    by (auto simp: same_epoch_def)
  then have "key_epoch key = ep" using unique_epoch [OF assms(1) mine(1)] k(2) by blast
  moreover have "\<forall>revoked. revoked_at_millis ep = Some revoked \<longrightarrow> now < revoked" "epoch_not_before_millis ep \<le> now"
    using ep(4) by (auto simp: live_epochs_def is_none_or_iff)
  ultimately have "key_authorizes verifier key now p body policy"
    using mine key rest ep by (auto simp: key_authorizes_def)
  with mine show ?thesis by blast
qed

text \<open>A revocation outlives every later operation on the directory.\<close>

definition revoked_since :: "string \<Rightarrow> i64 \<Rightarrow> 'd \<Rightarrow> bool" where
  "revoked_since i at d \<longleftrightarrow>
     (\<exists>k \<in> keys d. key_key_id k = i \<and> is_some_and (\<lambda>r. r \<le> at) (revoked_at_millis (key_epoch k)))"

lemma revoke_revokes:
  assumes "ok d" and "kd_revoke dir i at d = (Ok (), d')"
  shows "revoked_since i at d'"
proof -
  obtain k where "k \<in> keys d" "key_key_id k = i" using revoke_known [OF assms] by blast
  then have "revoked_at at k \<in> keys d'" "key_key_id (revoked_at at k) = i"
    using revoke_law [OF assms] by (auto simp: revoked_at_def)
  moreover have "is_some_and (\<lambda>r. r \<le> at) (revoked_at_millis (key_epoch (revoked_at at k)))"
    by (auto simp: revoked_at_def keep_earliest_time_def split: option.split)
  ultimately show ?thesis unfolding revoked_since_def by blast
qed

lemma apply_op_revoked:
  assumes "ok d" and "revoked_since i at d"
  shows "ok (apply_op dir op d) \<and> revoked_since i at (apply_op dir op d)"
proof -
  from assms(2) obtain k r where k: "k \<in> keys d" "key_key_id k = i" "revoked_at_millis (key_epoch k) = Some r" "r \<le> at"
    by (auto simp: revoked_since_def is_some_and_iff)
  show ?thesis
  proof (cases op)
    case (RegisterOp key)
    with register_law [OF assms(1), of key "fst (kd_register dir key d)" "snd (kd_register dir key d)"] k
    show ?thesis by (auto simp: revoked_since_def is_some_and_iff split: if_splits)
  next
    case (RetireOp j t)
    let ?f = "\<lambda>k. if key_key_id k = j then retired_at t k else k"
    have "?f k \<in> ?f ` keys d" using k(1) by blast
    moreover have "key_key_id (?f k) = i" "revoked_at_millis (key_epoch (?f k)) = Some r"
      using k by (simp_all add: retired_at_def)
    ultimately show ?thesis
      using RetireOp retire_law [OF assms(1), of j t "fst (kd_retire dir j t d)" "snd (kd_retire dir j t d)"] k
      by (auto simp: revoked_since_def is_some_and_iff split: if_splits)
  next
    case (RevokeOp j t)
    let ?f = "\<lambda>k. if key_key_id k = j then revoked_at t k else k"
    have "?f k \<in> ?f ` keys d" using k(1) by blast
    moreover have "key_key_id (?f k) = i"
        "is_some_and (\<lambda>r. r \<le> at) (revoked_at_millis (key_epoch (?f k)))"
      using k by (simp_all add: revoked_at_def keep_earliest_time_def min.coboundedI1)
    ultimately show ?thesis
      using RevokeOp revoke_law [OF assms(1), of j t "fst (kd_revoke dir j t d)" "snd (kd_revoke dir j t d)"] assms(2)
      by (auto simp: revoked_since_def split: if_splits)
  qed
qed

lemma revoked_key_refused:
  assumes "ok d" and "kd_revoke dir i at d = (Ok (), d')" and "at \<le> now" and "proof_key_id p = i"
  shows "check_proof dir verifier (fold (apply_op dir) ops d') now p body policy \<noteq> Ok ()"
proof
  let ?d = "fold (apply_op dir) ops d'"
  have "ok d' \<and> revoked_since i at d'" using revoke_law [OF assms(1,2)] revoke_revokes [OF assms(1,2)] by simp
  then have d: "ok ?d \<and> revoked_since i at ?d"
    by (induction ops rule: rev_induct) (use apply_op_revoked in auto)
  then obtain k r where k: "k \<in> keys ?d" "key_key_id k = i" "revoked_at_millis (key_epoch k) = Some r" "r \<le> at"
    by (auto simp: revoked_since_def is_some_and_iff)
  assume "check_proof dir verifier ?d now p body policy = Ok ()"
  with check_proof_key d obtain key where "key \<in> keys ?d" "key_authorizes verifier key now p body policy"
    by blast
  moreover from this have "key = k" using unique_id k d assms(4) by (auto simp: key_authorizes_def)
  ultimately have "now < r" using k(3) by (auto simp: key_authorizes_def)
  with k(4) assms(3) show False by simp
qed

end

section \<open>Replay\<close>

text \<open>
  The life of a verifier: attempts to authenticate, each with the directory as it is then, and
  purges of expired nonces. The result lists the proofs accepted, with the time of each.
\<close>

datatype 'd auth_event =
    Attempt trx_end 'd i64 signed_proof string
  | Purge trx_end i64

fun event_time :: "'d auth_event \<Rightarrow> i64" where
  "event_time (Attempt e d now p body) = now"
| "event_time (Purge e now) = now"

fun accepted ::
  "'d key_directory \<Rightarrow> identity_verifier \<Rightarrow> verifier_policy \<Rightarrow> auto_db \<Rightarrow> 'd auth_event list
   \<Rightarrow> (signed_proof \<times> i64) list" where
  "accepted dir verifier policy db [] = []"
| "accepted dir verifier policy db (Attempt e d now p body # events) =
     (let res = authenticate dir verifier e d now p body policy db
      in (if is_ok (fst res) then [(p, now)] else []) @ accepted dir verifier policy (snd res) events)"
| "accepted dir verifier policy db (Purge e now # events) =
     accepted dir verifier policy (snd (purge_expired_nonces e now db)) events"

definition retention :: "verifier_policy \<Rightarrow> signed_proof \<Rightarrow> i64" where
  "retention policy p = replay_retention_until (proof_window p) (policy_freshness policy)"

abbreviation proof_nonce_key :: "signed_proof \<Rightarrow> string" where
  "proof_nonce_key p \<equiv> nonce_key (proof_key_id p) (proof_nonce p)"

lemma accepted_times:
  assumes "sorted (now # map event_time events)" and "(q, t) \<in> set (accepted dir verifier policy db events)"
  shows "now \<le> t"
  using assms
proof (induction events arbitrary: db)
  case (Cons event events)
  then show ?case by (cases event) (auto simp: Let_def split: if_splits)
qed simp

lemma authenticate_nonces:
  assumes "authenticate dir verifier e d now p body policy db = (r, db')"
  shows "db' = db \<and> \<not> is_ok r
    \<or> (\<forall>row. replay_nonce db (proof_nonce_key p) = Some row \<longrightarrow> retain_until_millis row \<le> now)
      \<and> (\<exists>row. retain_until_millis row = retention policy p
             \<and> replay_nonce db' = (replay_nonce db)(proof_nonce_key p \<mapsto> row))"
proof (cases "check_proof dir verifier d now p body policy")
  case (Inl failure)
  with assms show ?thesis by (auto simp: authenticate_def)
next
  case (Inr u)
  obtain res where res: "record_nonce e (proof_key_id p) (proof_nonce p) (retention policy p) now db = (res, db')"
      "is_ok r \<longrightarrow> res = Ok True"
    using assms Inr by (auto simp: authenticate_def retention_def split: prod.splits sum.splits if_splits)
  from record_nonce_cases [OF res(1)] res(2) show ?thesis
    by (auto simp: is_some_and_iff not_less)
qed

text \<open>The nonce table keeps a live record until its retention time, whatever happens.\<close>

lemma accepted_after_retention:
  assumes "sorted (map event_time events)" and "(q, t) \<in> set (accepted dir verifier policy db events)"
    and "replay_nonce db (proof_nonce_key q) = Some row"
  shows "retain_until_millis row \<le> t"
  using assms
proof (induction events arbitrary: db)
  case (Cons event events)
  have late: "event_time event \<le> t" if "(q, t) \<in> set (accepted dir verifier policy db' events)" for db'
    using accepted_times [OF _ that] Cons.prems(1) by simp
  have sorted: "sorted (map event_time events)" using Cons.prems(1) by simp
  show ?case
  proof (cases event)
    case (Purge e now)
    let ?db = "snd (purge_expired_nonces e now db)"
    have q: "(q, t) \<in> set (accepted dir verifier policy ?db events)" using Cons.prems(2) Purge by simp
    show ?thesis
    proof (cases "now < retain_until_millis row")
      case True
      from purge_nonces [of e now db "fst (purge_expired_nonces e now db)" ?db, OF _ Cons.prems(3) True]
      have "replay_nonce ?db (proof_nonce_key q) = Some row" by simp
      with Cons.IH [OF sorted q] show ?thesis by simp
    next
      case False
      with late [OF q] Purge show ?thesis by simp
    qed
  next
    case (Attempt e d now p body)
    obtain r db' where res: "authenticate dir verifier e d now p body policy db = (r, db')" by fastforce
    consider (this) "is_ok r" "q = p" "t = now" | (rest) "(q, t) \<in> set (accepted dir verifier policy db' events)"
      using Cons.prems(2) Attempt res by (auto split: if_splits)
    then show ?thesis
    proof cases
      case this
      with authenticate_nonces [OF res] Cons.prems(3) show ?thesis by auto
    next
      case rest
      show ?thesis
      proof (cases "replay_nonce db' (proof_nonce_key q) = Some row")
        case True
        with Cons.IH [OF sorted rest] show ?thesis by simp
      next
        case False
        with authenticate_nonces [OF res] Cons.prems(3) have "retain_until_millis row \<le> now"
          by (auto split: if_splits)
        with late [OF rest] Attempt show ?thesis by simp
      qed
    qed
  qed
qed simp

lemma accepted_sorted:
  assumes "sorted (map event_time events)"
  shows "sorted_wrt (\<lambda>(p, t) (q, u). proof_nonce_key p = proof_nonce_key q \<longrightarrow> retention policy p \<le> u)
    (accepted dir verifier policy db events)"
  using assms
proof (induction events arbitrary: db)
  case (Cons event events)
  have sorted: "sorted (map event_time events)" using Cons.prems by simp
  show ?case
  proof (cases event)
    case (Purge e now)
    with Cons.IH [OF sorted] show ?thesis by simp
  next
    case (Attempt e d now p body)
    obtain r db' where res: "authenticate dir verifier e d now p body policy db = (r, db')" by fastforce
    have "retention policy p \<le> u" if "is_ok r" "(q, u) \<in> set (accepted dir verifier policy db' events)"
        "proof_nonce_key p = proof_nonce_key q" for q u
      using authenticate_nonces [OF res] accepted_after_retention [OF sorted that(2)] that by auto
    with Cons.IH [OF sorted, of db'] Attempt res show ?thesis by auto
  qed
qed simp

lemma accepted_window:
  "(p, t) \<in> set (accepted dir verifier policy db events) \<Longrightarrow> t < retention policy p"
proof (induction events arbitrary: db)
  case (Cons event events)
  show ?case
  proof (cases event)
    case (Attempt e d now q body)
    then consider "(p, t) \<in> set (accepted dir verifier policy (snd (authenticate dir verifier e d now q body policy db)) events)"
      | s where "fst (authenticate dir verifier e d now q body policy db) = Ok s" "p = q" "t = now"
      using Cons.prems by (auto simp: Let_def is_ok_iff split: if_splits)
    then show ?thesis
    proof cases
      case 1
      then show ?thesis by (rule Cons.IH)
    next
      case 2
      then have "check_proof dir verifier d now q body policy = Ok ()"
        by (intro authenticate_Ok(1) [of _ _ e _ _ _ _ _ db s "snd (authenticate dir verifier e d now q body policy db)"])
          (auto simp: prod_eq_iff)
      then show ?thesis using 2 window_check_Ok(4) [OF check_proof_window] by (simp add: retention_def)
    qed
  qed (use Cons in auto)
qed simp

section \<open>Properties\<close>

text \<open>
  C1: a proof is accepted once. Over any run of attempts and purges on a clock that does not go
  back, whatever the directory holds and however transactions end, no proof is accepted
  twice, and a key and nonce pair is only accepted again after the retention of every proof
  it was accepted for has ended.
\<close>

theorem no_proof_accepted_twice:
  assumes "sorted (map event_time events)"
  shows "distinct (map fst (accepted dir verifier policy db events))
    \<and> sorted_wrt (\<lambda>(p, t) (q, u). proof_key_id p = proof_key_id q \<and> proof_nonce p = proof_nonce q
        \<longrightarrow> retention policy p \<le> u) (accepted dir verifier policy db events)"
proof
  note later = accepted_sorted [OF assms, of policy dir verifier db]
  show "sorted_wrt (\<lambda>(p, t) (q, u). proof_key_id p = proof_key_id q \<and> proof_nonce p = proof_nonce q
        \<longrightarrow> retention policy p \<le> u) (accepted dir verifier policy db events)"
    using later by (simp add: nonce_key_inject)
  have "sorted_wrt (\<lambda>(p, t) (q, u). proof_nonce_key p = proof_nonce_key q \<longrightarrow> retention policy p \<le> u) xs
      \<Longrightarrow> (\<forall>(p, t) \<in> set xs. t < retention policy p) \<Longrightarrow> distinct (map fst xs)" for xs
    by (induction xs) (fastforce simp: not_le [symmetric])+
  with later accepted_window show "distinct (map fst (accepted dir verifier policy db events))" by fast
qed

text \<open>
  C5: an accepted proof names a usable key. With the capsule directory, authentication answers
  with the proof's subject only if the directory holds the key the proof names, for that
  subject and epoch, of a purpose that signs the context, started, neither expired nor
  revoked, not legacy where authority is issued, and the audience, window, body digest and
  signature all hold.
\<close>

theorem accepted_proof_authorized:
  assumes "table_ok d"
    and "authenticate (capsule_directory um im new_id down) verifier e d now p body policy db = (Ok s, db')"
  shows "s = proof_subject p
    \<and> (\<exists>key \<in> table_keys d. key_authorizes verifier key now p body policy)"
  using authenticate_Ok [OF assms(2)] capsule.check_proof_key [OF assms(1)] by blast

text \<open>
  C6: revocation is immediate and final. Once a key of the capsule directory is revoked at a
  time, then after any further directory operations no proof by that key is accepted at or
  after that time.
\<close>

theorem revocation_final:
  assumes "table_ok d"
    and "revoke_key (capsule_directory um im new_id down) at i d = (Ok (), d')"
    and "at \<le> now" and "proof_key_id p = i"
  shows "\<not> is_ok (fst (authenticate (capsule_directory um im new_id down) verifier e
      (fold (apply_op (capsule_directory um im new_id down)) ops d') now p body policy db))"
proof
  let ?dir = "capsule_directory um im new_id down"
  let ?d = "fold (apply_op ?dir) ops d'"
  have "kd_revoke ?dir i at d = (Ok (), d')"
    using assms(2) by (auto simp: revoke_key_def split: prod.splits sum.splits port_error.splits)
  from capsule.revoked_key_refused [OF assms(1) this assms(3,4)]
  have "check_proof ?dir verifier ?d now p body policy \<noteq> Ok ()" by blast
  moreover assume "is_ok (fst (authenticate ?dir verifier e ?d now p body policy db))"
  then obtain s where "authenticate ?dir verifier e ?d now p body policy db
      = (Ok s, snd (authenticate ?dir verifier e ?d now p body policy db))"
    by (auto simp: is_ok_iff prod_eq_iff)
  note authenticate_Ok(1) [OF this]
  ultimately show False by contradiction
qed

section \<open>A concrete verifier\<close>

definition sample_key :: identity_key where
  "sample_key =
     \<lparr>key_key_id = proof_key_id (sample_proof ''read''), key_public_key = ''k'',
      key_epoch = \<lparr>epoch_subject = \<lparr>subject_kind = User, subject_uuid = 5\<rparr>,
        epoch_purpose = Authentication, epoch_number = 1, epoch_not_before_millis = I64 0,
        epoch_expires_at_millis = None, retired_at_millis = None, revoked_at_millis = None,
        epoch_legacy = False\<rparr>\<rparr>"

definition sample_table :: capsule_table where
  "sample_table = snd (capsule_register (\<lambda>t. of_nat (length t)) sample_key [])"

definition trusting_verifier :: identity_verifier where
  "trusting_verifier =
     \<lparr>iv_verify = (\<lambda>_ _. Ok ()), iv_body_digest = (\<lambda>_. replicate 32 (CHR ''d'')),
      iv_describe_key = (\<lambda>b. Ok \<lparr>description_key_id = b, description_legacy = False\<rparr>),
      iv_introduction_bytes = (\<lambda>_. [])\<rparr>"

definition sample_policy :: verifier_policy where
  "sample_policy = \<lparr>policy_audience = ''node'', policy_freshness = freshness_GUEST,
                    policy_rotation = rotation_DEFAULT\<rparr>"

definition empty_db :: auto_db where
  "empty_db = \<lparr>replay_nonce = Map.empty, identity_challenge = Map.empty, public_idempotency = Map.empty\<rparr>"

abbreviation sample_directory :: "capsule_table key_directory" where
  "sample_directory \<equiv> capsule_directory '''' '''' (\<lambda>t. of_nat (length t)) None"

lemma sample_key_fields: "\<exists>f. key_fields sample_key = Ok f"
  by (simp add: key_fields_def sample_key_def micros_of_def optional_micros_def checked_i64_def in_i64_def)

lemma sample_table_ok: "table_ok sample_table" "table_keys sample_table = {sample_key}"
proof -
  have "table_ok []" "table_keys [] = {}" by (simp_all add: table_ok_def table_keys_def)
  moreover have "fst (capsule_register (\<lambda>t. of_nat (length t)) sample_key []) = Ok ()"
    using sample_key_fields by (auto simp: capsule_register_def)
  ultimately show "table_ok sample_table" "table_keys sample_table = {sample_key}"
    using capsule_register_law [of "[]" "\<lambda>t. of_nat (length t)" sample_key]
    unfolding sample_table_def by (metis prod.collapse)+
qed

lemma sample_reads:
  "kd_key sample_directory sample_table (key_key_id sample_key) = Ok (Some sample_key)"
  "kd_epochs sample_directory sample_table \<lparr>subject_kind = User, subject_uuid = 5\<rparr> Authentication = Ok [sample_key]"
proof -
  obtain f where f: "key_fields sample_key = Ok f" using sample_key_fields by blast
  then have t: "sample_table = [\<lparr>row_id = 0, row_revision = 1, row_body = f\<rparr>]"
    by (simp add: sample_table_def capsule_register_def)
  note fs = key_fields_Ok [OF f]
  show "kd_key sample_directory sample_table (key_key_id sample_key) = Ok (Some sample_key)"
    by (simp add: capsule_directory_def capsule_key_def key_capsule_def key_query_def t fs
        MAX_QUERY_LIMIT_def key_record_fields [OF f])
  show "kd_epochs sample_directory sample_table \<lparr>subject_kind = User, subject_uuid = 5\<rparr> Authentication = Ok [sample_key]"
    using fs by (simp add: capsule_directory_def capsule_epochs_def key_query_def t
        MAX_QUERY_LIMIT_def key_record_fields [OF f]) (simp add: sample_key_def)
qed

lemma sample_checks:
  assumes "0 \<le> int_of now" and "int_of now < 60000"
  shows "check_proof sample_directory trusting_verifier sample_table now (sample_proof ''read'') body sample_policy = Ok ()"
proof -
  have "accept_epoch [key_epoch sample_key] 1 RequestContext now rotation_DEFAULT = Ok ()"
    using assms by (simp add: accept_epoch_def sample_key_def signs_def issues_authority_def live_epochs_def
        iter_max_def i64_le_iff i64_less_iff)
  moreover have "window_check (proof_window (sample_proof ''read'')) now freshness_GUEST = Ok ()"
    using assms by (simp add: window_check_def sample_proof_def freshness_GUEST_def sub_i64_def i64_le_iff
        i64_less_iff int_of_saturating_add MAX_GUEST_CREDENTIAL_MILLIS_def Let_def)
  moreover have "proof_key_id (sample_proof ''read'') = key_key_id sample_key" by (simp add: sample_key_def)
  ultimately show ?thesis
    using sample_reads
    by (simp add: check_proof_def sample_policy_def trusting_verifier_def)
      (simp add: sample_key_def sample_proof_def)
qed

theorem no_proof_accepted_twice_witness:
  "let acc = accepted sample_directory trusting_verifier sample_policy empty_db
       [Attempt Commits sample_table (I64 10) (sample_proof ''read'') '''',
        Attempt Commits sample_table (I64 20) (sample_proof ''read'') '''']
   in acc \<noteq> [] \<and> distinct (map fst acc)"
proof -
  let ?p = "sample_proof ''read''"
  let ?events = "[Attempt Commits sample_table (I64 10) ?p '''', Attempt Commits sample_table (I64 20) ?p '''']"
  have "sorted (map event_time ?events)" by (simp add: i64_le_iff)
  from no_proof_accepted_twice [OF this]
  have "distinct (map fst (accepted sample_directory trusting_verifier sample_policy empty_db ?events))" by blast
  moreover have "accepted sample_directory trusting_verifier sample_policy empty_db ?events \<noteq> []"
    using sample_checks [of "I64 10" "''''"]
    by (simp add: authenticate_def record_nonce_def auto_run_def empty_db_def Let_def)
  ultimately show ?thesis by (simp add: Let_def)
qed

theorem accepted_proof_authorized_witness:
  "\<exists>db' key. authenticate sample_directory trusting_verifier Commits sample_table (I64 10)
        (sample_proof ''read'') '''' sample_policy empty_db = (Ok \<lparr>subject_kind = User, subject_uuid = 5\<rparr>, db')
    \<and> key \<in> table_keys sample_table
    \<and> key_authorizes trusting_verifier key (I64 10) (sample_proof ''read'') '''' sample_policy"
proof -
  obtain db' where ok: "authenticate sample_directory trusting_verifier Commits sample_table (I64 10)
        (sample_proof ''read'') '''' sample_policy empty_db = (Ok \<lparr>subject_kind = User, subject_uuid = 5\<rparr>, db')"
    using sample_checks [of "I64 10" "''''"]
    by (simp add: authenticate_def record_nonce_def auto_run_def empty_db_def Let_def sample_proof_def)
  with accepted_proof_authorized [OF sample_table_ok(1) ok] show ?thesis by blast
qed

theorem revocation_final_witness:
  "\<exists>d'. revoke_key sample_directory (I64 15) (key_key_id sample_key) sample_table = (Ok (), d')
    \<and> \<not> is_ok (fst (authenticate sample_directory trusting_verifier Commits d' (I64 20)
          (sample_proof ''read'') '''' sample_policy empty_db))"
proof -
  obtain f where f: "key_fields sample_key = Ok f" using sample_key_fields by blast
  then have t: "sample_table = [\<lparr>row_id = 0, row_revision = 1, row_body = f\<rparr>]"
    by (simp add: sample_table_def capsule_register_def)
  have "\<exists>d'. kd_revoke sample_directory (key_key_id sample_key) (I64 15) sample_table = (Ok (), d')"
    using key_fields_Ok(5,11) [OF f]
    by (simp add: capsule_directory_def capsule_keep_def MAX_CAS_ATTEMPTS_def numeral_eq_Suc key_capsule_def
        key_query_def t MAX_QUERY_LIMIT_def put_revision_def micros_of_def checked_i64_def in_i64_def)
  then obtain d' where d': "revoke_key sample_directory (I64 15) (key_key_id sample_key) sample_table = (Ok (), d')"
    by (auto simp: revoke_key_def)
  have "I64 15 \<le> I64 20" by (simp add: i64_le_iff)
  moreover have "proof_key_id (sample_proof ''read'') = key_key_id sample_key" by (simp add: sample_key_def)
  ultimately have "\<not> is_ok (fst (authenticate sample_directory trusting_verifier Commits (fold (apply_op sample_directory) [] d')
      (I64 20) (sample_proof ''read'') '''' sample_policy empty_db))"
    by (rule revocation_final [OF sample_table_ok(1) d'])
  with d' show ?thesis by auto
qed

end
