(* ===== verification/Capability.thy ===== *)
theory Capability
  imports Identity
begin

text \<open>
  Capability grants: \<open>crates/aseman-domain/src/capability.rs\<close>, with the action registry of
  \<open>authority.rs\<close> that delegation reads. A chain is a grant followed by its ancestors; it
  authorizes while every link is live, linked and narrower than its parent. Ordered sets of
  action names are sets, walked in their order where the code iterates.
\<close>

section \<open>The action registry\<close>

datatype condition =
    Public
  | Authenticated
  | SelfResource
  | Owner
  | SameCreature
  | StoreRead
  | StoreSignal
  | StoreManage
  | SecretGrantee
  | Counterparty
  | FinanceOperator
  | NodeAdmin
  | Granted
  | Never

definition condition_ALL :: "condition list" where
  "condition_ALL = [Public, Authenticated, SelfResource, Owner, SameCreature, StoreRead, StoreSignal,
     StoreManage, SecretGrantee, Counterparty, FinanceOperator, NodeAdmin, Granted, Never]"

fun condition_as_str :: "condition \<Rightarrow> string" where
  "condition_as_str Public = ''public''"
| "condition_as_str Authenticated = ''authenticated''"
| "condition_as_str SelfResource = ''self''"
| "condition_as_str Owner = ''owner''"
| "condition_as_str SameCreature = ''same_creature''"
| "condition_as_str StoreRead = ''store_read''"
| "condition_as_str StoreSignal = ''store_signal''"
| "condition_as_str StoreManage = ''store_manage''"
| "condition_as_str SecretGrantee = ''secret_grantee''"
| "condition_as_str Counterparty = ''counterparty''"
| "condition_as_str FinanceOperator = ''finance_operator''"
| "condition_as_str NodeAdmin = ''node_admin''"
| "condition_as_str Granted = ''granted''"
| "condition_as_str Never = ''never''"

definition condition_parse :: "string \<Rightarrow> condition option" where
  "condition_parse text = List.find (\<lambda>c. condition_as_str c = text) condition_ALL"

definition condition_is_fact :: "condition \<Rightarrow> bool" where
  "condition_is_fact c \<longleftrightarrow> c \<notin> {Public, Authenticated, Granted, Never}"

datatype action_class = ReadClass | WriteClass | SecurityClass | FinancialClass | AdministrativeClass

record registered_action =
  action_id :: string
  action_resource :: string
  action_class :: action_class
  action_subjects :: "subject_kind set"
  action_rule :: "condition list"
  action_delegable :: bool

record action_registry =
  registry_version :: string
  registry_actions :: "string \<rightharpoonup> registered_action"

section \<open>Grants\<close>

datatype resource_selector = Exact string string | AnyOfKind string

fun selector_kind :: "resource_selector \<Rightarrow> string" where
  "selector_kind (Exact kind i) = kind"
| "selector_kind (AnyOfKind kind) = kind"

fun covers :: "resource_selector \<Rightarrow> string \<Rightarrow> string \<Rightarrow> bool" where
  "covers (Exact own_kind own_id) kind i \<longleftrightarrow> own_kind = kind \<and> own_id = i"
| "covers (AnyOfKind own_kind) kind i \<longleftrightarrow> own_kind = kind"

fun intersect :: "resource_selector \<Rightarrow> resource_selector \<Rightarrow> resource_selector option" where
  "intersect (AnyOfKind left) (AnyOfKind right) = (if left = right then Some (AnyOfKind left) else None)"
| "intersect (AnyOfKind kind) (Exact k i) = (if k = kind then Some (Exact k i) else None)"
| "intersect (Exact k i) (AnyOfKind kind) = (if k = kind then Some (Exact k i) else None)"
| "intersect (Exact k i) (Exact k' i') = (if k = k' \<and> i = i' then Some (Exact k i) else None)"

definition selector_within :: "resource_selector \<Rightarrow> resource_selector \<Rightarrow> bool" where
  "selector_within inner outer \<longleftrightarrow> intersect inner outer = Some inner"

record grant =
  grant_id :: uuid
  grant_subject :: subject
  grant_issuer :: subject
  grant_actions :: "string set"
  grant_resource :: resource_selector
  grant_delegable :: "string set"
  grant_max_depth :: u32
  grant_parent :: "uuid option"
  grant_not_before_millis :: i64
  grant_expires_at_millis :: "i64 option"
  grant_revoked_at_millis :: "i64 option"
  grant_policy_version :: string

definition live_at :: "grant \<Rightarrow> i64 \<Rightarrow> bool" where
  "live_at g now \<longleftrightarrow>
     grant_not_before_millis g \<le> now
     \<and> is_none_or (\<lambda>expires. now < expires) (grant_expires_at_millis g)
     \<and> is_none_or (\<lambda>revoked. now < revoked) (grant_revoked_at_millis g)"

datatype capability_error =
    BrokenChain
  | NotLive
  | Amplifies
  | NotHolder
  | NothingDelegable
  | ResourceOutside
  | DepthExhausted
  | CapabilitySubjectNotAllowed
  | CapabilityUnknownAction

definition attenuates :: "grant \<Rightarrow> grant \<Rightarrow> bool" where
  "attenuates child parent \<longleftrightarrow>
     grant_parent child = Some (grant_id parent)
     \<and> grant_issuer child = grant_subject parent
     \<and> grant_actions child \<subseteq> grant_delegable parent
     \<and> grant_delegable child \<subseteq> grant_actions child
     \<and> selector_within (grant_resource child) (grant_resource parent)
     \<and> grant_not_before_millis child \<ge> grant_not_before_millis parent
     \<and> (case (grant_expires_at_millis child, grant_expires_at_millis parent) of
          (_, None) \<Rightarrow> True
        | (Some c, Some p) \<Rightarrow> c \<le> p
        | (None, Some _) \<Rightarrow> False)
     \<and> grant_max_depth parent \<ge> 1
     \<and> grant_max_depth child < grant_max_depth parent"

text \<open>The loop over \<open>chain.windows(2)\<close>.\<close>

fun check_links :: "grant list \<Rightarrow> (unit, capability_error) result" where
  "check_links (child # parent # rest) =
     (if grant_parent child \<noteq> Some (grant_id parent) then Err BrokenChain
      else if \<not> attenuates child parent then Err Amplifies
      else check_links (parent # rest))"
| "check_links _ = Ok ()"

definition check_chain :: "grant list \<Rightarrow> i64 \<Rightarrow> (unit, capability_error) result" where
  "check_chain chain now =
     (if chain = [] then Err BrokenChain
      else let root = last chain in
        if grant_parent root \<noteq> None \<or> \<not> grant_delegable root \<subseteq> grant_actions root then Err BrokenChain
        else if \<exists>g \<in> set chain. \<not> live_at g now then Err NotLive
        else check_links chain)"

definition chain_authorizes ::
  "grant list \<Rightarrow> subject \<Rightarrow> string \<Rightarrow> string \<Rightarrow> string \<Rightarrow> i64 \<Rightarrow> bool" where
  "chain_authorizes chain subject action kind i now \<longleftrightarrow>
     (case chain of
        [] \<Rightarrow> False
      | g # _ \<Rightarrow> grant_subject g = subject \<and> action \<in> grant_actions g \<and> covers (grant_resource g) kind i)
     \<and> is_ok (check_chain chain now)"

record delegation_request =
  request_id :: uuid
  request_subject :: subject
  request_actions :: "string set"
  request_resource :: resource_selector
  request_delegable :: "string set"
  request_max_depth :: u32
  request_not_before_millis :: i64
  request_expires_at_millis :: "i64 option"

text \<open>The loop of \<open>delegate\<close> over the requested actions the parent may delegate, in order.\<close>

fun delegate_actions ::
  "action_registry \<Rightarrow> subject_kind \<Rightarrow> string \<Rightarrow> string list \<Rightarrow> string set
   \<Rightarrow> (string set, capability_error) result" where
  "delegate_actions registry kind resource_kind [] acc = Ok acc"
| "delegate_actions registry kind resource_kind (action # rest) acc =
     and_then (ok_or CapabilityUnknownAction (registry_actions registry action)) (\<lambda>registered.
       if \<not> action_delegable registered \<or> action_resource registered \<noteq> resource_kind
       then delegate_actions registry kind resource_kind rest acc
       else if kind \<notin> action_subjects registered then Err CapabilitySubjectNotAllowed
       else delegate_actions registry kind resource_kind rest (insert action acc))"

definition delegate ::
  "action_registry \<Rightarrow> grant list \<Rightarrow> subject \<Rightarrow> delegation_request \<Rightarrow> string \<Rightarrow> i64
   \<Rightarrow> (grant, capability_error) result" where
  "delegate registry parent_chain delegator request policy_version now =
     and_then (check_chain parent_chain now) (\<lambda>_.
     let parent = hd parent_chain in
     if grant_subject parent \<noteq> delegator then Err NotHolder
     else if grant_max_depth parent = 0 then Err DepthExhausted
     else and_then (ok_or ResourceOutside
         (intersect (request_resource request) (grant_resource parent))) (\<lambda>resource.
       and_then (delegate_actions registry (subject_kind (request_subject request))
           (selector_kind resource)
           (sorted_list_of_set (request_actions request \<inter> grant_delegable parent)) {}) (\<lambda>actions.
         if actions = {} then Err NothingDelegable
         else Ok \<lparr>grant_id = request_id request, grant_subject = request_subject request,
                  grant_issuer = delegator, grant_actions = actions, grant_resource = resource,
                  grant_delegable = request_delegable request \<inter> actions,
                  grant_max_depth = min (request_max_depth request) (grant_max_depth parent - 1),
                  grant_parent = Some (grant_id parent),
                  grant_not_before_millis =
                    max (request_not_before_millis request) (grant_not_before_millis parent),
                  grant_expires_at_millis =
                    (case (request_expires_at_millis request, grant_expires_at_millis parent) of
                       (Some requested, Some limit) \<Rightarrow> Some (min requested limit)
                     | (requested, None) \<Rightarrow> requested
                     | (None, limit) \<Rightarrow> limit),
                  grant_revoked_at_millis = None, grant_policy_version = policy_version\<rparr>)))"

text \<open>One pass of the closure's inner loop, and the loop until a pass adds nothing.\<close>

fun closure_pass :: "grant list \<Rightarrow> uuid set \<Rightarrow> uuid set" where
  "closure_pass [] c = c"
| "closure_pass (g # gs) c =
     closure_pass gs (if is_some_and (\<lambda>p. p \<in> c) (grant_parent g) then insert (grant_id g) c else c)"

lemma closure_pass_grows: "c \<subseteq> closure_pass grants c"
proof (induction grants arbitrary: c)
  case (Cons g grants)
  let ?c = "if is_some_and (\<lambda>p. p \<in> c) (grant_parent g) then insert (grant_id g) c else c"
  have "c \<subseteq> ?c" by auto
  with Cons.IH [of ?c] show ?case by simp
qed simp

lemma closure_pass_bounded: "closure_pass grants c \<subseteq> c \<union> grant_id ` set grants"
proof (induction grants arbitrary: c)
  case (Cons g grants)
  let ?c = "if is_some_and (\<lambda>p. p \<in> c) (grant_parent g) then insert (grant_id g) c else c"
  have "?c \<subseteq> c \<union> {grant_id g}" by auto
  with Cons.IH [of ?c] show ?case by (simp only: closure_pass.simps set_simps image_insert) blast
qed simp

function closure_loop :: "grant list \<Rightarrow> uuid set \<Rightarrow> uuid set" where
  "closure_loop grants closure =
     (let after = closure_pass grants closure
      in if card after = card closure then after else closure_loop grants after)"
  by pat_completeness auto
termination
proof (relation "measure (\<lambda>(grants, c). card (grant_id ` set grants - c))")
  fix grants and c after :: "uuid set"
  assume after: "after = closure_pass grants c" and "card after \<noteq> card c"
  then have "after \<noteq> c" by blast
  with after closure_pass_grows [of c grants] obtain x where x: "x \<in> after" "x \<notin> c" by blast
  with after closure_pass_bounded have "x \<in> grant_id ` set grants" by blast
  then have "grant_id ` set grants - after \<subset> grant_id ` set grants - c"
    using x after closure_pass_grows [of c grants] by blast
  then show "((grants, after), (grants, c)) \<in> measure (\<lambda>(grants, c). card (grant_id ` set grants - c))"
    by (simp add: psubset_card_mono)
qed simp

declare closure_loop.simps [simp del]

definition revocation_closure :: "grant list \<Rightarrow> uuid \<Rightarrow> uuid set" where
  "revocation_closure grants revoked = closure_loop grants {revoked}"

section \<open>Selectors\<close>

lemma intersect_covers:
  "intersect a b = Some c \<Longrightarrow> covers c k i \<longleftrightarrow> covers a k i \<and> covers b k i"
  by (cases a; cases b) (auto split: if_splits)

lemma intersect_None: "intersect a b = None \<Longrightarrow> \<not> (covers a k i \<and> covers b k i)"
  by (cases a; cases b) (auto split: if_splits)

lemma intersect_within:
  "intersect a b = Some c \<Longrightarrow> selector_within c b"
  by (cases a; cases b) (auto simp: selector_within_def split: if_splits)

lemma within_covers: "selector_within a b \<Longrightarrow> covers a k i \<Longrightarrow> covers b k i"
  unfolding selector_within_def by (drule intersect_covers [of _ _ _ k i]) simp

lemma within_kind: "selector_within a b \<Longrightarrow> selector_kind a = selector_kind b"
  by (cases a; cases b) (auto simp: selector_within_def split: if_splits)

section \<open>Chains\<close>

lemma check_links_Ok_iff:
  "check_links chain = Ok () \<longleftrightarrow> (\<forall>i. Suc i < length chain \<longrightarrow> attenuates (chain ! i) (chain ! Suc i))"
proof (induction chain rule: check_links.induct)
  case (1 child parent rest)
  have "attenuates child parent \<Longrightarrow> grant_parent child = Some (grant_id parent)"
    by (simp add: attenuates_def)
  with 1 show ?case by (auto simp: nth_Cons split: nat.splits)
qed simp_all

lemma check_chain_Ok_iff:
  "check_chain chain now = Ok () \<longleftrightarrow>
     chain \<noteq> [] \<and> grant_parent (last chain) = None \<and> grant_delegable (last chain) \<subseteq> grant_actions (last chain)
     \<and> (\<forall>g \<in> set chain. live_at g now)
     \<and> (\<forall>i. Suc i < length chain \<longrightarrow> attenuates (chain ! i) (chain ! Suc i))"
  by (auto simp: check_chain_def check_links_Ok_iff Let_def)

lemma check_chain_Cons:
  assumes "chain \<noteq> []"
  shows "check_chain (g # chain) now = Ok () \<longleftrightarrow>
    live_at g now \<and> attenuates g (hd chain) \<and> check_chain chain now = Ok ()"
proof -
  obtain p rest where "chain = p # rest" using assms by (cases chain) auto
  then show ?thesis by (auto simp: check_chain_Ok_iff nth_Cons split: nat.splits)
qed

text \<open>What a valid chain means: authority, resources and time only shrink from the root down.\<close>

lemma chain_attenuates:
  assumes "check_chain (g # chain) now = Ok ()" and "a \<in> set chain"
  shows "grant_actions g \<subseteq> grant_delegable a \<and> grant_actions g \<subseteq> grant_actions a
    \<and> (covers (grant_resource g) k i \<longrightarrow> covers (grant_resource a) k i)
    \<and> grant_not_before_millis a \<le> grant_not_before_millis g
    \<and> grant_max_depth g < grant_max_depth a"
  using assms
proof (induction chain arbitrary: g)
  case (Cons p rest)
  have link: "attenuates g p" and below: "check_chain (p # rest) now = Ok ()"
    using Cons.prems check_chain_Cons [of "p # rest" g now] by auto
  have delegable: "grant_delegable p \<subseteq> grant_actions p"
    using below check_chain_Cons [of rest p now]
    by (cases "rest = []") (auto simp: check_chain_Ok_iff attenuates_def)
  have step: "grant_actions g \<subseteq> grant_delegable p \<and> grant_actions g \<subseteq> grant_actions p
      \<and> (covers (grant_resource g) k i \<longrightarrow> covers (grant_resource p) k i)
      \<and> grant_not_before_millis p \<le> grant_not_before_millis g \<and> grant_max_depth g < grant_max_depth p"
    using link delegable within_covers by (auto simp: attenuates_def)
  show ?case
  proof (cases "a = p")
    case False
    with Cons.prems have "a \<in> set rest" by simp
    from Cons.IH [OF below this] step show ?thesis by (meson order_trans less_trans)
  qed (use step in simp)
qed simp

lemma chain_depth:
  "check_chain (g # chain) now = Ok () \<Longrightarrow>
     unat (grant_max_depth g) + length chain \<le> unat (grant_max_depth (last (g # chain)))"
proof (induction chain arbitrary: g)
  case (Cons p rest)
  have "attenuates g p" "check_chain (p # rest) now = Ok ()"
    using Cons.prems check_chain_Cons [of "p # rest" g now] by auto
  with Cons.IH [of p] show ?case by (simp add: attenuates_def word_less_nat_alt)
qed simp

section \<open>Delegation\<close>

lemma delegate_actions_Ok:
  assumes "delegate_actions registry kind resource_kind xs acc = Ok actions"
  shows "actions = acc \<union> {a \<in> set xs. \<exists>r. registry_actions registry a = Some r \<and> action_delegable r
        \<and> action_resource r = resource_kind}
    \<and> (\<forall>a \<in> actions - acc. \<exists>r. registry_actions registry a = Some r \<and> kind \<in> action_subjects r)"
  using assms
proof (induction xs arbitrary: acc)
  case (Cons x xs)
  then obtain r where r: "registry_actions registry x = Some r" by (auto simp: result_simps)
  show ?case
  proof (cases "\<not> action_delegable r \<or> action_resource r \<noteq> resource_kind")
    case True
    then have "delegate_actions registry kind resource_kind xs acc = Ok actions" using Cons.prems r by auto
    from Cons.IH [OF this] r True show ?thesis by auto
  next
    case False
    then have kind: "kind \<in> action_subjects r"
      and "delegate_actions registry kind resource_kind xs (insert x acc) = Ok actions"
      using Cons.prems r by (auto split: if_splits)
    from Cons.IH [OF this(2)] r False kind show ?thesis by auto
  qed
qed simp

lemma delegate_Ok:
  assumes "delegate registry chain delegator request version now = Ok child"
  shows "chain \<noteq> []" "check_chain chain now = Ok ()" "grant_subject (hd chain) = delegator"
    "attenuates child (hd chain)"
    "grant_actions child \<noteq> {}" "grant_actions child \<subseteq> request_actions request"
    "\<forall>a \<in> grant_actions child. \<exists>r. registry_actions registry a = Some r \<and> action_delegable r
       \<and> action_resource r = selector_kind (grant_resource child)
       \<and> subject_kind (request_subject request) \<in> action_subjects r"
    "grant_subject child = request_subject request" "grant_revoked_at_millis child = None"
proof -
  let ?p = "hd chain"
  from assms obtain resource actions where
    ok: "check_chain chain now = Ok ()" "grant_subject ?p = delegator" "grant_max_depth ?p \<noteq> 0"
    and resource: "intersect (request_resource request) (grant_resource ?p) = Some resource"
    and actions: "delegate_actions registry (subject_kind (request_subject request)) (selector_kind resource)
        (sorted_list_of_set (request_actions request \<inter> grant_delegable ?p)) {} = Ok actions" "actions \<noteq> {}"
    and child: "child = \<lparr>grant_id = request_id request, grant_subject = request_subject request,
                  grant_issuer = delegator, grant_actions = actions, grant_resource = resource,
                  grant_delegable = request_delegable request \<inter> actions,
                  grant_max_depth = min (request_max_depth request) (grant_max_depth ?p - 1),
                  grant_parent = Some (grant_id ?p),
                  grant_not_before_millis =
                    max (request_not_before_millis request) (grant_not_before_millis ?p),
                  grant_expires_at_millis =
                    (case (request_expires_at_millis request, grant_expires_at_millis ?p) of
                       (Some requested, Some limit) \<Rightarrow> Some (min requested limit)
                     | (requested, None) \<Rightarrow> requested
                     | (None, limit) \<Rightarrow> limit),
                  grant_revoked_at_millis = None, grant_policy_version = version\<rparr>"
    by (auto simp: delegate_def result_simps Let_def split: if_splits)
  note acts = delegate_actions_Ok [OF actions(1)]
  have sub: "actions \<subseteq> request_actions request \<inter> grant_delegable ?p"
    using acts by (cases "finite (request_actions request \<inter> grant_delegable ?p)") auto
  have less: "grant_max_depth ?p - 1 < grant_max_depth ?p" and pos: "1 \<le> grant_max_depth ?p"
    using ok(3) unat_minus_one [OF ok(3)] unat_eq_zero [of "grant_max_depth ?p"]
    by (simp_all add: word_less_nat_alt word_le_nat_alt)
  then have "min (request_max_depth request) (grant_max_depth ?p - 1) < grant_max_depth ?p"
    by (simp add: min_less_iff_disj)
  then show "attenuates child ?p"
    using sub ok pos resource intersect_within [OF resource]
    by (auto simp: child attenuates_def split: option.split)
  show "chain \<noteq> []" using ok(1) by (auto simp: check_chain_def)
  show "check_chain chain now = Ok ()" "grant_subject ?p = delegator" "grant_actions child \<noteq> {}"
      "grant_actions child \<subseteq> request_actions request"
      "grant_subject child = request_subject request" "grant_revoked_at_millis child = None"
    using ok actions sub by (auto simp: child)
  show "\<forall>a \<in> grant_actions child. \<exists>r. registry_actions registry a = Some r \<and> action_delegable r
       \<and> action_resource r = selector_kind (grant_resource child)
       \<and> subject_kind (request_subject request) \<in> action_subjects r"
    using acts by (fastforce simp: child)
qed

section \<open>Revocation\<close>

inductive descends :: "grant list \<Rightarrow> uuid \<Rightarrow> uuid \<Rightarrow> bool" for grants revoked where
  descends_self: "descends grants revoked revoked"
| descends_child: "descends grants revoked p \<Longrightarrow> g \<in> set grants \<Longrightarrow> grant_parent g = Some p
    \<Longrightarrow> descends grants revoked (grant_id g)"

lemma closure_pass_sound:
  assumes "\<forall>x \<in> c. descends all_grants revoked x" and "set grants \<subseteq> set all_grants"
  shows "\<forall>x \<in> closure_pass grants c. descends all_grants revoked x"
  using assms
proof (induction grants arbitrary: c)
  case (Cons g grants)
  let ?c = "if is_some_and (\<lambda>p. p \<in> c) (grant_parent g) then insert (grant_id g) c else c"
  have "\<forall>x \<in> ?c. descends all_grants revoked x"
    using Cons.prems by (auto simp: is_some_and_iff intro: descends_child)
  with Cons.IH [of ?c] Cons.prems(2) show ?case by simp
qed simp

lemma closure_pass_closed:
  assumes "closure_pass grants c = c" and "g \<in> set grants" and "grant_parent g = Some p" and "p \<in> c"
  shows "grant_id g \<in> c"
  using assms
proof (induction grants arbitrary: c)
  case (Cons h grants)
  let ?c = "if is_some_and (\<lambda>p. p \<in> c) (grant_parent h) then insert (grant_id h) c else c"
  have "?c \<subseteq> c" using Cons.prems(1) closure_pass_grows [of ?c grants] by simp
  then have same: "?c = c" by auto
  then have "closure_pass grants c = c" using Cons.prems(1) by simp
  moreover have "grant_id g \<in> c" if "g = h"
    using same that Cons.prems(3,4) by (auto split: if_splits)
  ultimately show ?case using Cons by auto
qed simp

lemma closure_loop_correct:
  assumes "finite c" and "revoked \<in> c" and "\<forall>x \<in> c. descends grants revoked x"
  shows "closure_loop grants c = {x. descends grants revoked x}"
  using assms
proof (induction grants c rule: closure_loop.induct)
  case (1 grants c)
  let ?after = "closure_pass grants c"
  have grows: "c \<subseteq> ?after" by (rule closure_pass_grows)
  have finite: "finite ?after"
    using finite_subset [OF closure_pass_bounded [of grants c]] "1.prems"(1) by simp
  have sound: "\<forall>x \<in> ?after. descends grants revoked x" using closure_pass_sound "1.prems"(3) by blast
  show ?case
  proof (cases "card ?after = card c")
    case True
    then have same: "?after = c" using grows finite by (metis card_subset_eq)
    have "x \<in> c" if "descends grants revoked x" for x
      using that "1.prems"(2) by (induction rule: descends.induct) (auto intro: closure_pass_closed [OF same])
    with same True "1.prems"(3) show ?thesis by (subst closure_loop.simps) auto
  next
    case False
    with "1.IH" [OF refl False finite _ sound] grows "1.prems"(2) show ?thesis
      by (subst closure_loop.simps) auto
  qed
qed

section \<open>Properties\<close>

text \<open>
  C16: a chain never amplifies. If a chain authorizes a subject for an action on a resource,
  then every grant of it, up to the root, is live then, allows the action and covers the
  resource, each ancestor may delegate the action, and there are no more links than the
  root's depth budget.
\<close>

theorem chain_no_amplification:
  assumes "chain_authorizes chain subject action kind i now"
  shows "grant_subject (hd chain) = subject \<and> grant_parent (last chain) = None
    \<and> (\<forall>g \<in> set chain. live_at g now \<and> action \<in> grant_actions g \<and> covers (grant_resource g) kind i)
    \<and> (\<forall>g \<in> set (tl chain). action \<in> grant_delegable g)
    \<and> length chain \<le> Suc (unat (grant_max_depth (last chain)))"
proof -
  from assms obtain g rest where chain: "chain = g # rest" "grant_subject g = subject"
      "action \<in> grant_actions g" "covers (grant_resource g) kind i" "check_chain (g # rest) now = Ok ()"
    by (auto simp: chain_authorizes_def is_ok_iff split: list.splits)
  have "action \<in> grant_actions a \<and> action \<in> grant_delegable a \<and> covers (grant_resource a) kind i"
    if "a \<in> set rest" for a
    using chain_attenuates [OF chain(5) that] chain(3,4) by blast
  moreover have "\<forall>a \<in> set (g # rest). live_at a now" "grant_parent (last (g # rest)) = None"
    using chain(5) unfolding check_chain_Ok_iff by blast+
  ultimately show ?thesis using chain(1-4) chain_depth [OF chain(5)] by auto
qed

definition sample_grant :: "uuid \<Rightarrow> uuid option \<Rightarrow> u32 \<Rightarrow> grant" where
  "sample_grant i parent depth =
     \<lparr>grant_id = i, grant_subject = \<lparr>subject_kind = Creature, subject_uuid = i\<rparr>,
      grant_issuer = \<lparr>subject_kind = Creature, subject_uuid = i - 1\<rparr>, grant_actions = {''store.read''},
      grant_resource = AnyOfKind ''store'', grant_delegable = {''store.read''}, grant_max_depth = depth,
      grant_parent = parent, grant_not_before_millis = I64 0, grant_expires_at_millis = None,
      grant_revoked_at_millis = None, grant_policy_version = ''p''\<rparr>"

lemma sample_chain: "check_chain [sample_grant 2 (Some 1) 1, sample_grant 1 None 2] (I64 5) = Ok ()"
  by (simp add: check_chain_def sample_grant_def live_at_def attenuates_def selector_within_def
      Let_def i64_le_iff)

theorem chain_no_amplification_witness:
  "covers (grant_resource (sample_grant 2 (Some 1) 1)) ''store'' ''s1''
   \<and> covers (grant_resource (sample_grant 1 None 2)) ''store'' ''s1''"
  using chain_no_amplification [of "[sample_grant 2 (Some 1) 1, sample_grant 1 None 2]"
      "\<lparr>subject_kind = Creature, subject_uuid = 2\<rparr>" "''store.read''" "''store''" "''s1''" "I64 5"] sample_chain
  by (simp add: chain_authorizes_def sample_grant_def)

text \<open>
  C21: delegation only narrows. A delegated grant extends the delegator's chain to a chain that
  is valid whenever that chain is and the grant is live; its actions were requested, are
  delegable by the parent and by the registry, apply to its resource, and may be held by the
  class of its subject.
\<close>

theorem delegation_narrows:
  assumes "delegate registry chain delegator request version now = Ok child"
  shows "grant_subject (hd chain) = delegator \<and> grant_subject child = request_subject request
    \<and> grant_actions child \<noteq> {}
    \<and> grant_actions child \<subseteq> request_actions request \<inter> grant_delegable (hd chain)
    \<and> (\<forall>a \<in> grant_actions child. \<exists>r. registry_actions registry a = Some r \<and> action_delegable r
         \<and> action_resource r = selector_kind (grant_resource child)
         \<and> subject_kind (grant_subject child) \<in> action_subjects r)
    \<and> (\<forall>t. check_chain (child # chain) t = Ok () \<longleftrightarrow> check_chain chain t = Ok () \<and> live_at child t)"
proof -
  note ok = delegate_Ok [OF assms]
  have "grant_actions child \<subseteq> grant_delegable (hd chain)" using ok(4) by (simp add: attenuates_def)
  with ok check_chain_Cons [OF ok(1)] show ?thesis by auto
qed

definition sample_registry :: action_registry where
  "sample_registry = \<lparr>registry_version = ''r'', registry_actions = [''store.read'' \<mapsto>
     \<lparr>action_id = ''store.read'', action_resource = ''store'', action_class = ReadClass,
      action_subjects = {Creature, Workload}, action_rule = [Granted], action_delegable = True\<rparr>]\<rparr>"

definition sample_delegation :: delegation_request where
  "sample_delegation = \<lparr>request_id = 3, request_subject = \<lparr>subject_kind = Workload, subject_uuid = 9\<rparr>,
     request_actions = {''store.read''}, request_resource = Exact ''store'' ''s1'', request_delegable = {},
     request_max_depth = 5, request_not_before_millis = I64 0, request_expires_at_millis = None\<rparr>"

theorem delegation_narrows_witness:
  "\<exists>child. delegate sample_registry [sample_grant 2 (Some 1) 1, sample_grant 1 None 2]
       \<lparr>subject_kind = Creature, subject_uuid = 2\<rparr> sample_delegation ''p'' (I64 5) = Ok child
     \<and> grant_actions child \<noteq> {}"
proof -
  let ?chain = "[sample_grant 2 (Some 1) 1, sample_grant 1 None 2]"
  have "{''store.read''} \<inter> grant_delegable (sample_grant 2 (Some 1) 1) = {''store.read''}"
    by (simp add: sample_grant_def)
  then obtain child where child: "delegate sample_registry ?chain
      \<lparr>subject_kind = Creature, subject_uuid = 2\<rparr> sample_delegation ''p'' (I64 5) = Ok child"
    using sample_chain
    by (simp add: delegate_def sample_registry_def sample_delegation_def Let_def) (simp add: sample_grant_def)
  with delegation_narrows [OF child] show ?thesis by blast
qed

text \<open>
  C22: the revocation closure is the grant and its descendants. The fixpoint loop ends, and what
  it returns is exactly the revoked grant together with every grant that descends from it
  through parent links among those given.
\<close>

theorem revocation_closure_exact:
  "revocation_closure grants revoked = {x. descends grants revoked x}"
  unfolding revocation_closure_def by (rule closure_loop_correct) (auto intro: descends_self)

end
