(* ===== verification/Policy.thy ===== *)
theory Policy
  imports Capability Key_Directory
begin

text \<open>
  Authorization: the decision contract and the reference evaluator of
  \<open>crates/aseman-domain/src/authority.rs\<close>, the capability use cases of
  \<open>crates/aseman-application/src/capability.rs\<close>, the registry policy provider of
  \<open>modules/security/capabilities\<close>, and the grant store on capsules of
  \<open>crates/aseman-capsule/src/capability.rs\<close>. The grant store port is the record \<open>grant_store\<close>;
  its contract is in \<open>Grant_Store\<close>.
\<close>

section \<open>Decisions\<close>

record resource_ref =
  resource_kind :: string
  resource_id :: string

record policy_request =
  policy_subject :: "subject option"
  policy_action :: string
  policy_resource :: resource_ref
  policy_facts :: "condition set"
  policy_grants :: "grant list list"
  policy_at_millis :: i64

datatype decision_reason =
    Allowed
  | UnknownAction
  | ResourceMismatch
  | Forbidden
  | AuthenticationRequired
  | SubjectNotAllowed
  | ConditionNotMet
  | ProviderError

fun decision_reason_code :: "decision_reason \<Rightarrow> string" where
  "decision_reason_code Allowed = ''allowed''"
| "decision_reason_code UnknownAction = ''unknown_action''"
| "decision_reason_code ResourceMismatch = ''resource_mismatch''"
| "decision_reason_code Forbidden = ''forbidden''"
| "decision_reason_code AuthenticationRequired = ''authentication_required''"
| "decision_reason_code SubjectNotAllowed = ''subject_not_allowed''"
| "decision_reason_code ConditionNotMet = ''condition_not_met''"
| "decision_reason_code ProviderError = ''provider_error''"

record policy_decision =
  decision_allowed :: bool
  decision_reason :: decision_reason
  decision_matched :: "condition option"
  decision_considered :: "condition list"
  decision_grant_chain :: "uuid list"
  decision_registry_version :: string
  decision_policy_version :: string

definition provider_error :: "string \<Rightarrow> string \<Rightarrow> policy_decision" where
  "provider_error registry policy =
     \<lparr>decision_allowed = False, decision_reason = ProviderError, decision_matched = None,
      decision_considered = [], decision_grant_chain = [],
      decision_registry_version = registry, decision_policy_version = policy\<rparr>"

text \<open>The closure \<open>decide\<close> of the evaluator, and its loop over the rule.\<close>

definition decided ::
  "action_registry \<Rightarrow> string \<Rightarrow> decision_reason \<Rightarrow> condition option \<Rightarrow> condition list \<Rightarrow> uuid list
   \<Rightarrow> policy_decision" where
  "decided registry version reason matched considered chain =
     \<lparr>decision_allowed = (reason = Allowed), decision_reason = reason, decision_matched = matched,
      decision_considered = considered, decision_grant_chain = chain,
      decision_registry_version = registry_version registry, decision_policy_version = version\<rparr>"

definition authorizing_chain :: "policy_request \<Rightarrow> subject \<Rightarrow> grant list option" where
  "authorizing_chain request s =
     List.find (\<lambda>chain. chain_authorizes chain s (policy_action request)
       (resource_kind (policy_resource request)) (resource_id (policy_resource request))
       (policy_at_millis request)) (policy_grants request)"

fun evaluate_rule ::
  "policy_request \<Rightarrow> subject \<Rightarrow> condition list \<Rightarrow> (condition \<times> uuid list) option" where
  "evaluate_rule request s [] = None"
| "evaluate_rule request s (c # rest) =
     (case c of
        Public \<Rightarrow> Some (c, [])
      | Authenticated \<Rightarrow> Some (c, [])
      | Never \<Rightarrow> evaluate_rule request s rest
      | Granted \<Rightarrow>
          (case authorizing_chain request s of
             Some chain \<Rightarrow> Some (c, map grant_id chain)
           | None \<Rightarrow> evaluate_rule request s rest)
      | _ \<Rightarrow> if c \<in> policy_facts request then Some (c, []) else evaluate_rule request s rest)"

definition evaluate :: "action_registry \<Rightarrow> policy_request \<Rightarrow> string \<Rightarrow> policy_decision" where
  "evaluate registry request version =
     (case registry_actions registry (policy_action request) of
        None \<Rightarrow> decided registry version UnknownAction None [] []
      | Some action \<Rightarrow>
          let considered = action_rule action in
          if resource_kind (policy_resource request) \<noteq> action_resource action
          then decided registry version ResourceMismatch None considered []
          else if Never \<in> set (action_rule action) then decided registry version Forbidden None considered []
          else case policy_subject request of
            None \<Rightarrow>
              if Public \<in> set (action_rule action)
              then decided registry version Allowed (Some Public) considered []
              else decided registry version AuthenticationRequired None considered []
          | Some s \<Rightarrow>
              if subject_kind s \<notin> action_subjects action
              then decided registry version SubjectNotAllowed None considered []
              else case evaluate_rule request s (action_rule action) of
                Some (c, chain) \<Rightarrow> decided registry version Allowed (Some c) considered chain
              | None \<Rightarrow> decided registry version ConditionNotMet None considered [])"

section \<open>The grant store port and the use cases\<close>

datatype application_error =
    WorkloadNotFound
  | ApplicationDenied string
  | ApplicationPort port_error
  | ApplicationDomain domain_error

record 'g grant_store =
  gs_grant :: "'g \<Rightarrow> uuid \<Rightarrow> (grant option, port_error) result"
  gs_grants_of :: "'g \<Rightarrow> subject \<Rightarrow> (grant list, port_error) result"
  gs_children :: "'g \<Rightarrow> uuid \<Rightarrow> (grant list, port_error) result"
  gs_put :: "grant \<Rightarrow> 'g \<Rightarrow> (unit, port_error) result \<times> 'g"
  gs_revoke :: "uuid \<Rightarrow> i64 \<Rightarrow> 'g \<Rightarrow> (unit, port_error) result \<times> 'g"

definition MAX_CHAIN_LENGTH :: nat where
  "MAX_CHAIN_LENGTH = 16"

definition MAX_REVOCATION_CLOSURE :: nat where
  "MAX_REVOCATION_CLOSURE = 10000"

text \<open>\<open>chain_of\<close>: the chain so far, newest ancestor last, until a root or the length limit.\<close>

function chain_from ::
  "'g grant_store \<Rightarrow> 'g \<Rightarrow> grant list \<Rightarrow> (grant list option, port_error) result" where
  "chain_from store g chain =
     (case grant_parent (last chain) of
        None \<Rightarrow> Ok (Some chain)
      | Some parent \<Rightarrow>
          if length chain \<ge> MAX_CHAIN_LENGTH then Ok None
          else and_then (gs_grant store g parent) (\<lambda>found.
            case found of
              Some grant \<Rightarrow> chain_from store g (chain @ [grant])
            | None \<Rightarrow> Ok None))"
  by pat_completeness auto
termination
  by (relation "measure (\<lambda>(store, g, chain). MAX_CHAIN_LENGTH - length chain)") auto

declare chain_from.simps [simp del]

definition chain_of :: "'g grant_store \<Rightarrow> 'g \<Rightarrow> grant \<Rightarrow> (grant list option, port_error) result" where
  "chain_of store g grant = chain_from store g [grant]"

fun chains_of_grants ::
  "'g grant_store \<Rightarrow> 'g \<Rightarrow> string \<Rightarrow> grant list \<Rightarrow> (grant list list, port_error) result" where
  "chains_of_grants store g action [] = Ok []"
| "chains_of_grants store g action (grant # rest) =
     (if action \<in> grant_actions grant
      then and_then (chain_of store g grant) (\<lambda>found.
             and_then (chains_of_grants store g action rest) (\<lambda>chains.
               Ok (case found of Some chain \<Rightarrow> chain # chains | None \<Rightarrow> chains)))
      else chains_of_grants store g action rest)"

definition load_chains ::
  "'g grant_store \<Rightarrow> 'g \<Rightarrow> subject \<Rightarrow> string \<Rightarrow> (grant list list, port_error) result" where
  "load_chains store g s action =
     and_then (gs_grants_of store g s) (chains_of_grants store g action)"

definition registry_policy ::
  "action_registry \<Rightarrow> string \<Rightarrow> policy_request \<Rightarrow> (policy_decision, port_error) result" where
  "registry_policy registry version request = Ok (evaluate registry request version)"

definition authorize ::
  "(policy_request \<Rightarrow> (policy_decision, port_error) result) \<Rightarrow> 'g grant_store \<Rightarrow> 'g \<Rightarrow> i64 \<Rightarrow> subject option
   \<Rightarrow> string \<Rightarrow> resource_ref \<Rightarrow> condition set \<Rightarrow> (policy_decision, port_error) result" where
  "authorize policy store g now s action resource facts =
     and_then (case s of Some subject \<Rightarrow> load_chains store g subject action | None \<Rightarrow> Ok []) (\<lambda>grants.
       policy \<lparr>policy_subject = s, policy_action = action, policy_resource = resource,
               policy_facts = facts, policy_grants = grants, policy_at_millis = now\<rparr>)"

text \<open>The check of one action of a root grant, in the order the set is walked.\<close>

fun issue_actions_ok ::
  "action_registry \<Rightarrow> grant \<Rightarrow> string list \<Rightarrow> (unit, application_error) result" where
  "issue_actions_ok registry grant [] = Ok ()"
| "issue_actions_ok registry grant (action # rest) =
     and_then (ok_or (ApplicationDenied ''unknown action'') (registry_actions registry action)) (\<lambda>registered.
       if action_resource registered \<noteq> selector_kind (grant_resource grant)
       then Err (ApplicationDenied ''the action does not apply to the resource'')
       else if subject_kind (grant_subject grant) \<notin> action_subjects registered
       then Err (ApplicationDenied ''the subject class may not hold the action'')
       else if action \<in> grant_delegable grant \<and> \<not> action_delegable registered
       then Err (ApplicationDenied ''the action is not delegable'')
       else issue_actions_ok registry grant rest)"

definition put_grant :: "'g grant_store \<Rightarrow> grant \<Rightarrow> 'g \<Rightarrow> (unit, application_error) result \<times> 'g" where
  "put_grant store grant g =
     (case gs_put store grant g of
        (Inl Conflict, g') \<Rightarrow> (Err (ApplicationDenied ''the grant already exists''), g')
      | (other, g') \<Rightarrow> (map_err ApplicationPort other, g'))"

definition issue_grant ::
  "'g grant_store \<Rightarrow> action_registry \<Rightarrow> i64 \<Rightarrow> grant \<Rightarrow> 'g \<Rightarrow> (unit, application_error) result \<times> 'g" where
  "issue_grant store registry now grant g =
     (if grant_parent grant \<noteq> None
      then (Err (ApplicationDenied ''a root grant has no parent; delegate instead''), g)
      else if grant_actions grant = {} \<or> \<not> grant_delegable grant \<subseteq> grant_actions grant
      then (Err (ApplicationDenied ''delegable actions must be granted actions''), g)
      else case issue_actions_ok registry grant (sorted_list_of_set (grant_actions grant)) of
        Inl e \<Rightarrow> (Err e, g)
      | Inr _ \<Rightarrow>
          if is_some_and (\<lambda>expires. expires \<le> now) (grant_expires_at_millis grant)
          then (Err (ApplicationDenied ''the grant has already expired''), g)
          else put_grant store grant g)"

text \<open>The text of a refused delegation is the error's \<open>Display\<close>.\<close>

fun capability_error_text :: "capability_error \<Rightarrow> string" where
  "capability_error_text BrokenChain = ''the grant chain is empty or broken''"
| "capability_error_text NotLive = ''a grant in the chain is not live''"
| "capability_error_text Amplifies = ''a grant in the chain widens its parent''"
| "capability_error_text NotHolder = ''the delegator does not hold the parent grant''"
| "capability_error_text NothingDelegable = ''nothing requested can be delegated''"
| "capability_error_text ResourceOutside = ''the requested resources are outside the parent grant''"
| "capability_error_text DepthExhausted = ''the parent grant allows no further delegation''"
| "capability_error_text CapabilitySubjectNotAllowed = ''the subject class may not hold the action''"
| "capability_error_text CapabilityUnknownAction = ''an action is not registered''"

definition delegate_grant ::
  "'g grant_store \<Rightarrow> action_registry \<Rightarrow> i64 \<Rightarrow> subject \<Rightarrow> uuid \<Rightarrow> delegation_request \<Rightarrow> string \<Rightarrow> 'g
   \<Rightarrow> (grant, application_error) result \<times> 'g" where
  "delegate_grant store registry now delegator parent request version g =
     (case and_then (map_err ApplicationPort (gs_grant store g parent)) (\<lambda>found.
           and_then (ok_or (ApplicationDenied ''unknown parent grant'') found) (\<lambda>p.
           and_then (map_err ApplicationPort (chain_of store g p)) (\<lambda>chain_opt.
           and_then (ok_or (ApplicationDenied ''the parent chain is broken'') chain_opt) (\<lambda>chain.
             map_err (\<lambda>e. ApplicationDenied (capability_error_text e))
               (delegate registry chain delegator request version now))))) of
        Inl e \<Rightarrow> (Err e, g)
      | Inr child \<Rightarrow>
          (case put_grant store child g of
             (Inl e, g') \<Rightarrow> (Err e, g')
           | (Inr _, g') \<Rightarrow> (Ok child, g')))"

text \<open>
  The breadth-first walk of \<open>RevokeGrant\<close>: the inner loop over the children of one grant returns
  the closure and the queue, and whether the walk hit the limit and must return.
\<close>

fun visit_children :: "uuid list \<Rightarrow> uuid list \<Rightarrow> uuid list \<Rightarrow> bool \<times> uuid list \<times> uuid list" where
  "visit_children [] closure pending = (False, closure, pending)"
| "visit_children (child # rest) closure pending =
     (if length closure \<ge> MAX_REVOCATION_CLOSURE then (True, closure, pending)
      else if child \<notin> set closure then visit_children rest (closure @ [child]) (pending @ [child])
      else visit_children rest closure pending)"

lemma visit_children_progress:
  assumes "visit_children xs closure pending = (False, closure', pending')"
  shows "closure' = closure \<and> pending' = pending
    \<or> length closure < MAX_REVOCATION_CLOSURE \<and> length closure < length closure'"
  using assms
  by (induction xs closure pending rule: visit_children.induct) (auto split: if_splits)

function revocation_walk ::
  "'g grant_store \<Rightarrow> 'g \<Rightarrow> uuid list \<Rightarrow> uuid list \<Rightarrow> (uuid list, port_error) result" where
  "revocation_walk store g closure pending =
     (case pending of
        [] \<Rightarrow> Ok closure
      | next # rest \<Rightarrow>
          and_then (gs_children store g next) (\<lambda>children.
            case visit_children (map grant_id children) closure rest of
              (stop, closure', pending') \<Rightarrow>
                if stop then Ok closure'
                else revocation_walk store g closure' pending'))"
  by pat_completeness auto
termination
proof (relation "measures [\<lambda>(store, g, closure, pending). MAX_REVOCATION_CLOSURE - length closure,
    \<lambda>(store, g, closure, pending). length pending]", goal_cases)
  case (2 store g closure pending nxt rest children stop y closure' pending')
  then show ?case
    using visit_children_progress [of "map grant_id children" closure rest closure' pending'] by auto
qed simp

declare revocation_walk.simps [simp del]

definition revoke_grant ::
  "'g grant_store \<Rightarrow> i64 \<Rightarrow> uuid \<Rightarrow> 'g \<Rightarrow> (uuid list, application_error) result \<times> 'g" where
  "revoke_grant store now i g =
     (case gs_revoke store i now g of
        (Inl NotFound, g') \<Rightarrow> (Err (ApplicationDenied ''unknown grant''), g')
      | (Inl e, g') \<Rightarrow> (Err (ApplicationPort e), g')
      | (Inr _, g') \<Rightarrow> (map_err ApplicationPort (revocation_walk store g' [i] [i]), g'))"

definition grant_is_live :: "'g grant_store \<Rightarrow> 'g \<Rightarrow> uuid \<Rightarrow> i64 \<Rightarrow> (bool, port_error) result" where
  "grant_is_live store g i now =
     and_then (gs_grant store g i) (\<lambda>found.
       case found of
         None \<Rightarrow> Ok False
       | Some grant \<Rightarrow>
           and_then (chain_of store g grant) (\<lambda>chain.
             Ok (is_some_and (\<lambda>c. is_ok (check_chain c now)) chain)))"

section \<open>Grants as capsules\<close>

definition names_value :: "string set \<Rightarrow> capsule_value" where
  "names_value values = Object [(''names'', Array (map Text (sorted_list_of_set values)))]"

definition grant_required_fields :: "grant \<Rightarrow> capsule_value \<Rightarrow> fields" where
  "grant_required_fields g not_before =
     [''subject_kind'' \<mapsto> Text (subject_kind_as_str (subject_kind (grant_subject g))),
      ''subject_id'' \<mapsto> Bytes (be_bytes 16 (unat (subject_uuid (grant_subject g)))),
      ''issuer_kind'' \<mapsto> Text (subject_kind_as_str (subject_kind (grant_issuer g))),
      ''issuer_id'' \<mapsto> Bytes (be_bytes 16 (unat (subject_uuid (grant_issuer g)))),
      ''actions'' \<mapsto> names_value (grant_actions g),
      ''resource_kind'' \<mapsto> Text (selector_kind (grant_resource g)),
      ''delegable_actions'' \<mapsto> names_value (grant_delegable g),
      ''max_depth'' \<mapsto> Integer (I64 (uint (grant_max_depth g))),
      ''not_before_micros'' \<mapsto> not_before,
      ''policy_version'' \<mapsto> Text (grant_policy_version g)]"

definition optional_grant_micros :: "i64 option \<Rightarrow> (capsule_value option, port_error) result" where
  "optional_grant_micros m =
     (case m of None \<Rightarrow> Ok None | Some t \<Rightarrow> and_then (micros_of ''grant'' t) (\<lambda>v. Ok (Some v)))"

definition grant_fields :: "grant \<Rightarrow> (fields, port_error) result" where
  "grant_fields g =
     and_then (micros_of ''grant'' (grant_not_before_millis g)) (\<lambda>not_before.
     and_then (optional_grant_micros (grant_expires_at_millis g)) (\<lambda>expires.
     and_then (optional_grant_micros (grant_revoked_at_millis g)) (\<lambda>revoked.
       Ok (set_optional ''revoked_at_micros'' revoked
          (set_optional ''expires_at_micros'' expires
          (set_optional ''parent_id'' (map_option (\<lambda>p. Bytes (be_bytes 16 (unat p))) (grant_parent g))
          (set_optional ''resource_id''
             (case grant_resource g of Exact _ i \<Rightarrow> Some (Text i) | AnyOfKind _ \<Rightarrow> None)
             (grant_required_fields g not_before))))))))"

definition uuid_field :: "string \<Rightarrow> fields \<Rightarrow> string \<Rightarrow> (uuid option, port_error) result" where
  "uuid_field um fs name =
     (case fs name of
        None \<Rightarrow> Ok None
      | Some Null \<Rightarrow> Ok None
      | Some (Bytes b) \<Rightarrow> and_then (ok_or (Failed um) (uuid_from_slice b)) (\<lambda>u. Ok (Some u))
      | Some _ \<Rightarrow> Err (Failed (''grant '' @ name @ '' is not an identifier'')))"

definition subject_fields :: "string \<Rightarrow> fields \<Rightarrow> string \<Rightarrow> (subject, port_error) result" where
  "subject_fields um fs role =
     and_then (ok_or (Failed (''unknown subject kind '' @ text_field fs (role @ ''_kind'')))
       (List.find (\<lambda>k. subject_kind_as_str k = text_field fs (role @ ''_kind'')) subject_kind_ALL)) (\<lambda>kind.
     and_then (uuid_field um fs (role @ ''_id'')) (\<lambda>found.
     and_then (ok_or (Failed (''grant has no '' @ role)) found) (\<lambda>u.
       Ok \<lparr>subject_kind = kind, subject_uuid = u\<rparr>)))"

fun name_list :: "string \<Rightarrow> capsule_value list \<Rightarrow> (string list, port_error) result" where
  "name_list name [] = Ok []"
| "name_list name (Text t # rest) = and_then (name_list name rest) (\<lambda>ts. Ok (t # ts))"
| "name_list name (_ # rest) = Err (Failed (''grant '' @ name @ '' holds a non-name''))"

definition name_set :: "fields \<Rightarrow> string \<Rightarrow> (string set, port_error) result" where
  "name_set fs name =
     (case fs name of
        Some (Object document) \<Rightarrow>
          (case map_of document ''names'' of
             Some (Array values) \<Rightarrow> and_then (name_list name values) (\<lambda>ts. Ok (set ts))
           | _ \<Rightarrow> Err (Failed (''grant has no '' @ name)))
      | _ \<Rightarrow> Err (Failed (''grant has no '' @ name)))"

definition grant_record ::
  "string \<Rightarrow> string \<Rightarrow> uuid \<Rightarrow> fields \<Rightarrow> (grant, port_error) result" where
  "grant_record um im i fs =
     and_then (subject_fields um fs ''subject'') (\<lambda>subject.
     and_then (subject_fields um fs ''issuer'') (\<lambda>issuer.
     and_then (name_set fs ''actions'') (\<lambda>actions.
     and_then (name_set fs ''delegable_actions'') (\<lambda>delegable.
     and_then (case fs ''max_depth'' of
         Some (Integer n) \<Rightarrow> ok_or (Failed im) (u32_of_i64 n)
       | _ \<Rightarrow> Err (Failed ''grant has no depth'')) (\<lambda>depth.
     and_then (uuid_field um fs ''parent_id'') (\<lambda>parent.
     and_then (time_field ''grant'' fs ''not_before_micros'') (\<lambda>start_opt.
     and_then (ok_or (Failed ''grant has no start'') start_opt) (\<lambda>start.
     and_then (time_field ''grant'' fs ''expires_at_micros'') (\<lambda>expires.
     and_then (time_field ''grant'' fs ''revoked_at_micros'') (\<lambda>revoked.
       Ok \<lparr>grant_id = i, grant_subject = subject, grant_issuer = issuer, grant_actions = actions,
           grant_resource = (case fs ''resource_id'' of
               Some (Text r) \<Rightarrow> Exact (text_field fs ''resource_kind'') r
             | _ \<Rightarrow> AnyOfKind (text_field fs ''resource_kind'')),
           grant_delegable = delegable, grant_max_depth = depth, grant_parent = parent,
           grant_not_before_millis = start, grant_expires_at_millis = expires,
           grant_revoked_at_millis = revoked,
           grant_policy_version = text_field fs ''policy_version''\<rparr>))))))))))"

text \<open>The store over the table of grant capsules; a grant's identifier is its capsule's.\<close>

definition grant_row :: "uuid \<Rightarrow> capsule_table \<Rightarrow> capsule_row option" where
  "grant_row i t = List.find (\<lambda>row. row_id row = i) t"

definition capsule_grant ::
  "string \<Rightarrow> string \<Rightarrow> capsule_table \<Rightarrow> uuid \<Rightarrow> (grant option, port_error) result" where
  "capsule_grant um im t i =
     (case grant_row i t of
        None \<Rightarrow> Ok None
      | Some row \<Rightarrow> and_then (grant_record um im (row_id row) (row_body row)) (\<lambda>g. Ok (Some g)))"

definition grant_query ::
  "string \<Rightarrow> string \<Rightarrow> (fields \<Rightarrow> bool) \<Rightarrow> capsule_table \<Rightarrow> (grant list, port_error) result" where
  "grant_query um im predicate t =
     and_then (records (\<lambda>row. grant_record um im (row_id row) (row_body row)) (key_query predicate t))
       (\<lambda>gs. Ok (sort_key grant_id gs))"

definition capsule_grants_of ::
  "string \<Rightarrow> string \<Rightarrow> capsule_table \<Rightarrow> subject \<Rightarrow> (grant list, port_error) result" where
  "capsule_grants_of um im t s =
     grant_query um im (\<lambda>fs.
       fs ''subject_kind'' = Some (Text (subject_kind_as_str (subject_kind s)))
       \<and> fs ''subject_id'' = Some (Bytes (be_bytes 16 (unat (subject_uuid s))))) t"

definition capsule_children ::
  "string \<Rightarrow> string \<Rightarrow> capsule_table \<Rightarrow> uuid \<Rightarrow> (grant list, port_error) result" where
  "capsule_children um im t parent =
     grant_query um im (\<lambda>fs. fs ''parent_id'' = Some (Bytes (be_bytes 16 (unat parent)))) t"

definition capsule_put_grant :: "grant \<Rightarrow> capsule_table \<Rightarrow> (unit, port_error) result \<times> capsule_table" where
  "capsule_put_grant g t =
     (case grant_fields g of
        Inl e \<Rightarrow> (Err e, t)
      | Inr fs \<Rightarrow>
          if \<exists>r \<in> set t. row_id r = grant_id g then (Err Conflict, t)
          else (Ok (), t @ [\<lparr>row_id = grant_id g, row_revision = 1, row_body = fs\<rparr>]))"

fun revoke_attempts ::
  "(capsule_table \<Rightarrow> capsule_table) list \<Rightarrow> uuid \<Rightarrow> i64 \<Rightarrow> capsule_table
   \<Rightarrow> (unit, port_error) result \<times> capsule_table" where
  "revoke_attempts [] i at t = (Err Conflict, t)"
| "revoke_attempts (others # rest) i at t =
     (case grant_row i t of
        None \<Rightarrow> (Err NotFound, t)
      | Some current \<Rightarrow>
          (case time_field ''grant'' (row_body current) ''revoked_at_micros'' of
             Inl e \<Rightarrow> (Err e, t)
           | Inr recorded \<Rightarrow>
               if is_some_and (\<lambda>r. r \<le> at) recorded then (Ok (), t)
               else case micros_of ''grant'' at of
                 Inl e \<Rightarrow> (Err e, t)
               | Inr v \<Rightarrow>
                   (case put_revision (current\<lparr>row_revision := row_revision current + 1,
                                              row_body := (row_body current)(''revoked_at_micros'' \<mapsto> v)\<rparr>)
                           (row_revision current) (others t) of
                      (Inl Conflict, t') \<Rightarrow> revoke_attempts rest i at t'
                    | other \<Rightarrow> other)))"

definition capsule_revoke :: "uuid \<Rightarrow> i64 \<Rightarrow> capsule_table \<Rightarrow> (unit, port_error) result \<times> capsule_table" where
  "capsule_revoke i at t = revoke_attempts (replicate MAX_CAS_ATTEMPTS id) i at t"

definition capsule_grant_store :: "string \<Rightarrow> string \<Rightarrow> port_error option \<Rightarrow> capsule_table grant_store" where
  "capsule_grant_store um im down =
     (case down of
        Some e \<Rightarrow> \<lparr>gs_grant = (\<lambda>_ _. Err e), gs_grants_of = (\<lambda>_ _. Err e), gs_children = (\<lambda>_ _. Err e),
                   gs_put = (\<lambda>_ t. (Err e, t)), gs_revoke = (\<lambda>_ _ t. (Err e, t))\<rparr>
      | None \<Rightarrow> \<lparr>gs_grant = capsule_grant um im, gs_grants_of = capsule_grants_of um im,
                 gs_children = capsule_children um im, gs_put = capsule_put_grant,
                 gs_revoke = capsule_revoke\<rparr>)"

subsection \<open>The body of a grant capsule round-trips\<close>

definition grant_finite :: "grant \<Rightarrow> bool" where
  "grant_finite g \<longleftrightarrow> finite (grant_actions g) \<and> finite (grant_delegable g)"

lemma name_list_Text: "name_list name (map Text ts) = Ok ts"
  by (induction ts) simp_all

lemma optional_grant_micros_Ok:
  "optional_grant_micros m = Ok v \<Longrightarrow>
     (m = None \<and> v = None) \<or> (\<exists>t i. m = Some t \<and> v = Some (Integer i) \<and> int_of i = int_of t * 1000)"
  by (auto simp: optional_grant_micros_def result_simps micros_Ok_iff split: option.splits)

lemma grant_fields_Ok_iff:
  "grant_fields g = Ok f \<longleftrightarrow> (\<exists>nb ex rv.
     micros_of ''grant'' (grant_not_before_millis g) = Ok nb
     \<and> optional_grant_micros (grant_expires_at_millis g) = Ok ex
     \<and> optional_grant_micros (grant_revoked_at_millis g) = Ok rv
     \<and> f = set_optional ''revoked_at_micros'' rv (set_optional ''expires_at_micros'' ex
          (set_optional ''parent_id'' (map_option (\<lambda>p. Bytes (be_bytes 16 (unat p))) (grant_parent g))
          (set_optional ''resource_id''
             (case grant_resource g of Exact _ i \<Rightarrow> Some (Text i) | AnyOfKind _ \<Rightarrow> None)
             (grant_required_fields g nb)))))"
  unfolding grant_fields_def result_simps by blast

lemma set_optional_other: "m \<noteq> n \<Longrightarrow> set_optional n v fs m = fs m"
  by (simp add: set_optional_def split: option.split)

lemma set_optional_same: "set_optional n v fs n = (case v of None \<Rightarrow> fs n | Some x \<Rightarrow> Some x)"
  by (simp add: set_optional_def split: option.split)

lemma grant_fields_Ok:
  assumes "grant_fields g = Ok f"
  shows "f ''subject_kind'' = Some (Text (subject_kind_as_str (subject_kind (grant_subject g))))"
    "f ''subject_id'' = Some (Bytes (be_bytes 16 (unat (subject_uuid (grant_subject g)))))"
    "f ''issuer_kind'' = Some (Text (subject_kind_as_str (subject_kind (grant_issuer g))))"
    "f ''issuer_id'' = Some (Bytes (be_bytes 16 (unat (subject_uuid (grant_issuer g)))))"
    "f ''actions'' = Some (names_value (grant_actions g))"
    "f ''delegable_actions'' = Some (names_value (grant_delegable g))"
    "f ''resource_kind'' = Some (Text (selector_kind (grant_resource g)))"
    "f ''resource_id'' = (case grant_resource g of Exact _ i \<Rightarrow> Some (Text i) | AnyOfKind _ \<Rightarrow> None)"
    "f ''max_depth'' = Some (Integer (I64 (uint (grant_max_depth g))))"
    "f ''parent_id'' = map_option (\<lambda>p. Bytes (be_bytes 16 (unat p))) (grant_parent g)"
    "f ''policy_version'' = Some (Text (grant_policy_version g))"
    "time_field ''grant'' f ''not_before_micros'' = Ok (Some (grant_not_before_millis g))"
    "time_field ''grant'' f ''expires_at_micros'' = Ok (grant_expires_at_millis g)"
    "time_field ''grant'' f ''revoked_at_micros'' = Ok (grant_revoked_at_millis g)"
proof -
  from assms obtain nb ex rv where
    m: "micros_of ''grant'' (grant_not_before_millis g) = Ok nb"
       "optional_grant_micros (grant_expires_at_millis g) = Ok ex"
       "optional_grant_micros (grant_revoked_at_millis g) = Ok rv"
    and f: "f = set_optional ''revoked_at_micros'' rv (set_optional ''expires_at_micros'' ex
          (set_optional ''parent_id'' (map_option (\<lambda>p. Bytes (be_bytes 16 (unat p))) (grant_parent g))
          (set_optional ''resource_id''
             (case grant_resource g of Exact _ i \<Rightarrow> Some (Text i) | AnyOfKind _ \<Rightarrow> None)
             (grant_required_fields g nb))))"
    unfolding grant_fields_Ok_iff by blast
  note read = f set_optional_other set_optional_same grant_required_fields_def
  show "f ''subject_kind'' = Some (Text (subject_kind_as_str (subject_kind (grant_subject g))))"
    "f ''subject_id'' = Some (Bytes (be_bytes 16 (unat (subject_uuid (grant_subject g)))))"
    "f ''issuer_kind'' = Some (Text (subject_kind_as_str (subject_kind (grant_issuer g))))"
    "f ''issuer_id'' = Some (Bytes (be_bytes 16 (unat (subject_uuid (grant_issuer g)))))"
    "f ''actions'' = Some (names_value (grant_actions g))"
    "f ''delegable_actions'' = Some (names_value (grant_delegable g))"
    "f ''resource_kind'' = Some (Text (selector_kind (grant_resource g)))"
    "f ''max_depth'' = Some (Integer (I64 (uint (grant_max_depth g))))"
    "f ''policy_version'' = Some (Text (grant_policy_version g))"
    by (simp_all add: read del: int_of_I64)
  show "f ''resource_id'' = (case grant_resource g of Exact _ i \<Rightarrow> Some (Text i) | AnyOfKind _ \<Rightarrow> None)"
    "f ''parent_id'' = map_option (\<lambda>p. Bytes (be_bytes 16 (unat p))) (grant_parent g)"
    by (simp_all add: read split: resource_selector.split option.split)
  show "time_field ''grant'' f ''not_before_micros'' = Ok (Some (grant_not_before_millis g))"
    using m(1) by (auto simp: read micros_Ok_iff time_field_def div_i64_exact)
  show "time_field ''grant'' f ''expires_at_micros'' = Ok (grant_expires_at_millis g)"
    using optional_grant_micros_Ok [OF m(2)] by (auto simp: read time_field_def div_i64_exact)
  show "time_field ''grant'' f ''revoked_at_micros'' = Ok (grant_revoked_at_millis g)"
    using optional_grant_micros_Ok [OF m(3)] by (auto simp: read time_field_def div_i64_exact)
qed

lemma grant_record_fields:
  assumes "grant_fields g = Ok f" and "grant_finite g"
  shows "grant_record um im (grant_id g) f = Ok g"
proof -
  note f = grant_fields_Ok [OF assms(1)]
  have subjects: "subject_fields um f ''subject'' = Ok (grant_subject g)"
      "subject_fields um f ''issuer'' = Ok (grant_issuer g)"
    by (simp_all add: subject_fields_def text_field_def uuid_field_def f find_subject_kind uuid_from_slice_bytes)
  have names: "name_set f ''actions'' = Ok (grant_actions g)"
      "name_set f ''delegable_actions'' = Ok (grant_delegable g)"
    using assms(2) by (simp_all add: name_set_def f names_value_def name_list_Text grant_finite_def)
  have parent: "uuid_field um f ''parent_id'' = Ok (grant_parent g)"
    by (cases "grant_parent g") (simp_all add: uuid_field_def f uuid_from_slice_bytes)
  have resource: "(case f ''resource_id'' of Some (Text r) \<Rightarrow> Exact (text_field f ''resource_kind'') r
      | _ \<Rightarrow> AnyOfKind (text_field f ''resource_kind'')) = grant_resource g"
    by (cases "grant_resource g") (simp_all add: text_field_def f)
  have "text_field f ''policy_version'' = grant_policy_version g" by (simp add: text_field_def f)
  then show ?thesis
    unfolding grant_record_def subjects names parent resource f(9,12,13,14) by (simp add: u32_of_i64_uint)
qed

section \<open>What a decision means\<close>

definition condition_holds :: "policy_request \<Rightarrow> subject \<Rightarrow> condition \<Rightarrow> bool" where
  "condition_holds request s c \<longleftrightarrow>
     c = Public \<or> c = Authenticated
     \<or> (c = Granted \<and> (\<exists>chain \<in> set (policy_grants request). chain_authorizes chain s (policy_action request)
          (resource_kind (policy_resource request)) (resource_id (policy_resource request))
          (policy_at_millis request)))
     \<or> (condition_is_fact c \<and> c \<in> policy_facts request)"

definition permitted :: "action_registry \<Rightarrow> policy_request \<Rightarrow> bool" where
  "permitted registry request \<longleftrightarrow>
     (\<exists>action. registry_actions registry (policy_action request) = Some action
        \<and> action_resource action = resource_kind (policy_resource request)
        \<and> Never \<notin> set (action_rule action)
        \<and> (case policy_subject request of
             None \<Rightarrow> Public \<in> set (action_rule action)
           | Some s \<Rightarrow> subject_kind s \<in> action_subjects action
               \<and> (\<exists>c \<in> set (action_rule action). condition_holds request s c)))"

lemma authorizing_chain_iff:
  "(\<exists>chain. authorizing_chain request s = Some chain) \<longleftrightarrow> condition_holds request s Granted"
proof -
  have "(authorizing_chain request s \<noteq> None) \<longleftrightarrow> condition_holds request s Granted"
    by (auto simp: authorizing_chain_def condition_holds_def find_None_iff condition_is_fact_def)
  then show ?thesis by auto
qed

lemma evaluate_rule_first:
  "map_option fst (evaluate_rule request s cs) = List.find (condition_holds request s) cs"
proof (induction cs)
  case (Cons c cs)
  show ?case
  proof (cases "c = Granted")
    case True
    then show ?thesis using Cons authorizing_chain_iff [of request s]
      by (cases "authorizing_chain request s") auto
  next
    case False
    then show ?thesis using Cons by (cases c) (auto simp: condition_holds_def condition_is_fact_def)
  qed
qed simp

text \<open>
  C15: the evaluator decides what the registry's rules say. A request is allowed exactly when its
  action is registered for the resource's kind, is not forbidden, and either is public and
  anonymous or comes from an allowed class of subject that meets a condition of the rule; the
  condition it reports is the first of the rule that holds, and a denial reports none.
\<close>

theorem decision_exact:
  "decision_allowed (evaluate registry request version) = permitted registry request
   \<and> decision_matched (evaluate registry request version) =
       (if permitted registry request
        then case policy_subject request of
          None \<Rightarrow> Some Public
        | Some s \<Rightarrow> List.find (condition_holds request s)
            (action_rule (the (registry_actions registry (policy_action request))))
        else None)"
proof (cases "registry_actions registry (policy_action request)")
  case (Some action)
  show ?thesis
  proof (cases "policy_subject request")
    case (Some s)
    have found: "(\<exists>c \<in> set (action_rule action). condition_holds request s c)
        \<longleftrightarrow> List.find (condition_holds request s) (action_rule action) \<noteq> None"
      by (auto simp: find_None_iff)
    show ?thesis
      using Some \<open>registry_actions registry (policy_action request) = Some action\<close>
        evaluate_rule_first [of request s "action_rule action"]
      unfolding permitted_def evaluate_def
      by (cases "evaluate_rule request s (action_rule action)") (auto simp: decided_def Let_def found)
  qed (use Some in \<open>auto simp: permitted_def evaluate_def decided_def Let_def\<close>)
qed (simp add: permitted_def evaluate_def decided_def)

end
