(* ===== verification/Grant_Store.thy ===== *)
theory Grant_Store
  imports Policy
begin

text \<open>
  The contract of a grant store, its discharge by the capsule adapter, and
  what it gives the policy use cases.
\<close>

subsection \<open>The contract of a grant store\<close>

definition grant_revoked_at :: "i64 \<Rightarrow> grant \<Rightarrow> grant" where
  "grant_revoked_at at g = g\<lparr>grant_revoked_at_millis := keep_earliest_time at (grant_revoked_at_millis g)\<rparr>"

locale grant_store_laws =
  fixes store :: "'g grant_store"
    and ok :: "'g \<Rightarrow> bool"
    and grants :: "'g \<Rightarrow> grant set"
  assumes grant_Some: "ok s \<Longrightarrow> gs_grant store s i = Ok (Some g) \<Longrightarrow> g \<in> grants s \<and> grant_id g = i"
    and grants_of_Ok: "ok s \<Longrightarrow> gs_grants_of store s subject = Ok gs \<Longrightarrow> g \<in> set gs
      \<Longrightarrow> g \<in> grants s \<and> grant_subject g = subject"
    and children_Ok: "ok s \<Longrightarrow> gs_children store s p = Ok gs \<Longrightarrow> g \<in> set gs
      \<Longrightarrow> g \<in> grants s \<and> grant_parent g = Some p"
    and grants_unique: "ok s \<Longrightarrow> g \<in> grants s \<Longrightarrow> g' \<in> grants s \<Longrightarrow> grant_id g = grant_id g' \<Longrightarrow> g = g'"
    and put_law: "ok s \<Longrightarrow> grant_finite g \<Longrightarrow> gs_put store g s = (r, s') \<Longrightarrow>
      ok s' \<and> (if r = Ok () then grants s' = insert g (grants s) else grants s' = grants s)"
    and revoke_law: "ok s \<Longrightarrow> gs_revoke store i at s = (r, s') \<Longrightarrow>
      ok s' \<and> (if r = Ok () then grants s' = (\<lambda>g. if grant_id g = i then grant_revoked_at at g else g) ` grants s
               else grants s' = grants s)"
    and revoke_known: "ok s \<Longrightarrow> gs_revoke store i at s = (Ok (), s') \<Longrightarrow> \<exists>g \<in> grants s. grant_id g = i"

definition grant_stored :: "capsule_row \<Rightarrow> grant \<Rightarrow> bool" where
  "grant_stored r g \<longleftrightarrow> grant_finite g \<and> grant_id g = row_id r \<and> grant_fields g = Ok (row_body r)"

definition grant_table_ok :: "capsule_table \<Rightarrow> bool" where
  "grant_table_ok t \<longleftrightarrow> distinct (map row_id t) \<and> (\<forall>r \<in> set t. \<exists>g. grant_stored r g)"

definition table_grants :: "capsule_table \<Rightarrow> grant set" where
  "table_grants t = {g. \<exists>r \<in> set t. grant_stored r g}"

lemma grant_stored_record: "grant_stored r g \<Longrightarrow> grant_record um im (row_id r) (row_body r) = Ok g"
  unfolding grant_stored_def by (metis grant_record_fields)

lemma grant_stored_unique: "grant_stored r g \<Longrightarrow> grant_stored r g' \<Longrightarrow> g = g'"
  by (metis grant_stored_record sum.inject(2))

lemma grant_row_unique:
  assumes "grant_table_ok t" and "r \<in> set t" and "r' \<in> set t" and "row_id r = row_id r'"
  shows "r = r'"
  using assms by (auto simp: grant_table_ok_def distinct_map dest: inj_onD)

lemma grant_row_Some:
  "grant_row i t = Some row \<Longrightarrow> row \<in> set t \<and> row_id row = i"
  unfolding grant_row_def by (metis (mono_tags, lifting) find_Some_iff nth_mem)

lemma table_grants_row:
  assumes "grant_table_ok t" and "r \<in> set t" and "grant_record um im (row_id r) (row_body r) = Ok g"
  shows "g \<in> table_grants t \<and> grant_stored r g"
proof -
  from assms(1,2) obtain g' where "grant_stored r g'" by (auto simp: grant_table_ok_def)
  with assms grant_stored_record [of r g' um im] show ?thesis by (auto simp: table_grants_def)
qed

lemma grant_query_Ok:
  assumes "grant_table_ok t" and "grant_query um im predicate t = Ok gs" and "g \<in> set gs"
  shows "\<exists>r \<in> set t. predicate (row_body r) \<and> g \<in> table_grants t \<and> grant_stored r g"
proof -
  have records: "records f xs = Ok ys \<Longrightarrow> y \<in> set ys \<Longrightarrow> \<exists>x \<in> set xs. f x = Ok y"
    for f :: "capsule_row \<Rightarrow> (grant, port_error) result" and xs ys y
    by (induction xs arbitrary: ys) (auto simp: result_simps)
  from assms(2,3) obtain row where "row \<in> set t" "grant_record um im (row_id row) (row_body row) = Ok g"
      "predicate (row_body row)"
    by (auto simp: grant_query_def result_simps key_query_def dest!: records in_set_takeD)
  with table_grants_row [OF assms(1)] show ?thesis by blast
qed

lemma grant_revoked_fields:
  assumes "grant_fields g = Ok f" and "\<not> is_some_and (\<lambda>r. r \<le> at) (grant_revoked_at_millis g)"
    and "micros_of ''grant'' at = Ok v"
  shows "grant_fields (grant_revoked_at at g) = Ok (f(''revoked_at_micros'' \<mapsto> v))"
proof -
  have "optional_grant_micros (keep_earliest_time at (grant_revoked_at_millis g)) = Ok (Some v)"
    using assms(3) keep_earliest_time_cases(2) [OF assms(2)] by (simp add: optional_grant_micros_def)
  moreover have "grant_required_fields (grant_revoked_at at g) nb = grant_required_fields g nb" for nb
    by (simp add: grant_required_fields_def grant_revoked_at_def)
  moreover from assms(1) obtain nb ex rv where
    "micros_of ''grant'' (grant_not_before_millis g) = Ok nb"
    "optional_grant_micros (grant_expires_at_millis g) = Ok ex"
    "f = set_optional ''revoked_at_micros'' rv (set_optional ''expires_at_micros'' ex
          (set_optional ''parent_id'' (map_option (\<lambda>p. Bytes (be_bytes 16 (unat p))) (grant_parent g))
          (set_optional ''resource_id''
             (case grant_resource g of Exact _ i \<Rightarrow> Some (Text i) | AnyOfKind _ \<Rightarrow> None)
             (grant_required_fields g nb))))"
    unfolding grant_fields_Ok_iff by blast
  ultimately show ?thesis
    by (simp add: grant_fields_def grant_revoked_at_def set_optional_upd del: fun_upd_apply)
qed

lemma grant_table_update:
  fixes n :: u64
  assumes "grant_table_ok t" and "row \<in> set t" and "grant_stored row g"
    and "grant_stored (row\<lparr>row_revision := n, row_body := fs\<rparr>) g'"
  defines "t' \<equiv> map (\<lambda>r. if row_id r = row_id row then row\<lparr>row_revision := n, row_body := fs\<rparr> else r) t"
  shows "grant_table_ok t'" "table_grants t' = (\<lambda>x. if grant_id x = grant_id g then g' else x) ` table_grants t"
proof -
  have same: "r = row" if "r \<in> set t" "row_id r = row_id row" for r
    using grant_row_unique assms(1,2) that by blast
  have set: "set t' = insert (row\<lparr>row_revision := n, row_body := fs\<rparr>) (set t - {row})"
    using assms(2) same unfolding t'_def by auto
  have ids: "map row_id t' = map row_id t" unfolding t'_def by simp
  show "grant_table_ok t'" using assms(1,4) unfolding grant_table_ok_def ids set by auto
  have gid: "grant_id g = row_id row" "grant_id g' = row_id row" using assms(3,4) by (simp_all add: grant_stored_def)
  have only: "grant_stored r x \<Longrightarrow> r \<in> set t \<Longrightarrow> grant_id x = grant_id g \<longleftrightarrow> r = row" for r x
    using same gid by (auto simp: grant_stored_def)
  have "x \<in> table_grants t' \<longleftrightarrow> x = g' \<or> (\<exists>r \<in> set t. grant_stored r x \<and> grant_id x \<noteq> grant_id g)" for x
  proof
    assume "x \<in> table_grants t'"
    then obtain r where r: "r \<in> set t'" "grant_stored r x" by (auto simp: table_grants_def)
    show "x = g' \<or> (\<exists>r \<in> set t. grant_stored r x \<and> grant_id x \<noteq> grant_id g)"
    proof (cases "r \<in> set t - {row}")
      case True then show ?thesis using r only by blast
    next
      case False
      then have "r = row\<lparr>row_revision := n, row_body := fs\<rparr>" using r(1) set by auto
      then show ?thesis using grant_stored_unique [OF assms(4)] r(2) by simp
    qed
  next
    assume "x = g' \<or> (\<exists>r \<in> set t. grant_stored r x \<and> grant_id x \<noteq> grant_id g)"
    then show "x \<in> table_grants t'" unfolding table_grants_def set using assms(3,4) only by blast
  qed
  moreover have "x \<in> (\<lambda>x. if grant_id x = grant_id g then g' else x) ` table_grants t
      \<longleftrightarrow> x = g' \<or> (\<exists>r \<in> set t. grant_stored r x \<and> grant_id x \<noteq> grant_id g)" for x
    using assms(2,3) unfolding table_grants_def by (auto simp: image_iff)
  ultimately show "table_grants t' = (\<lambda>x. if grant_id x = grant_id g then g' else x) ` table_grants t" by blast
qed

lemma capsule_revoke_first:
  "capsule_revoke i at t = revoke_attempts (id # replicate (MAX_CAS_ATTEMPTS - 1) id) i at t"
  by (simp add: capsule_revoke_def MAX_CAS_ATTEMPTS_def replicate_Suc [symmetric] del: replicate_Suc)

lemma put_revision_current:
  assumes "grant_row i t = Some row" and "row_id new = i"
  shows "put_revision new (row_revision row) t = (Ok (), map (\<lambda>r. if row_id r = i then new else r) t)"
  using assms grant_row_Some [OF assms(1)] by (auto simp: put_revision_def)

lemma capsule_revoke_law:
  assumes "grant_table_ok t" and "capsule_revoke i at t = (r, t')"
  shows "grant_table_ok t' \<and> (if r = Ok ()
      then table_grants t' = (\<lambda>g. if grant_id g = i then grant_revoked_at at g else g) ` table_grants t
        \<and> (\<exists>g \<in> table_grants t. grant_id g = i)
      else table_grants t' = table_grants t)"
proof (cases "grant_row i t")
  case None
  then have "t' = t" "r = Err NotFound"
    using assms(2) by (simp_all add: capsule_revoke_first)
  with assms(1) show ?thesis by simp
next
  case (Some row)
  then have row: "row \<in> set t" "row_id row = i" using grant_row_Some by auto
  with assms(1) obtain g where g: "grant_stored row g" by (auto simp: grant_table_ok_def)
  then have gi: "grant_id g = i" "g \<in> table_grants t" "grant_fields g = Ok (row_body row)"
    using row by (auto simp: grant_stored_def table_grants_def)
  note recorded = grant_fields_Ok(14) [OF gi(3)]
  have only: "x = g" if "x \<in> table_grants t" "grant_id x = i" for x
    using that gi g grant_row_unique [OF assms(1)] row grant_stored_unique
    by (fastforce simp: table_grants_def grant_stored_def)
  have upd: "(\<lambda>g. if grant_id g = i then grant_revoked_at at g else g) ` table_grants t
      = (\<lambda>x. if grant_id x = grant_id g then grant_revoked_at at g else x) ` table_grants t"
    using only gi(1) by (intro image_cong) auto
  show ?thesis
  proof (cases "is_some_and (\<lambda>r. r \<le> at) (grant_revoked_at_millis g)")
    case True
    then have "t' = t" "r = Ok ()"
      using assms(2) Some recorded by (simp_all add: capsule_revoke_first)
    moreover have same: "grant_revoked_at at g = g"
      using keep_earliest_time_cases(1) [OF True] by (simp add: grant_revoked_at_def)
    have "(\<lambda>g. if grant_id g = i then grant_revoked_at at g else g) ` table_grants t = (\<lambda>g. g) ` table_grants t"
      by (intro image_cong refl) (metis only same)
    ultimately show ?thesis using assms(1) gi(1,2) by auto
  next
    case False
    show ?thesis
    proof (cases "micros_of ''grant'' at")
      case (Inl e)
      then have "t' = t" "r = Err e"
        using assms(2) Some recorded False
        by (simp_all add: capsule_revoke_first)
      with assms(1) show ?thesis by simp
    next
      case (Inr v)
      let ?row = "row\<lparr>row_revision := row_revision row + 1, row_body := (row_body row)(''revoked_at_micros'' \<mapsto> v)\<rparr>"
      have t': "t' = map (\<lambda>r. if row_id r = row_id row then ?row else r) t" "r = Ok ()"
        using assms(2) Some recorded False Inr row
        by (auto simp: capsule_revoke_first put_revision_current)
      have "grant_stored ?row (grant_revoked_at at g)"
        using g grant_revoked_fields [OF gi(3) False Inr]
        by (simp add: grant_stored_def grant_revoked_at_def grant_finite_def)
      from grant_table_update [OF assms(1) row(1) g this] gi upd show ?thesis unfolding t' by auto
    qed
  qed
qed

lemma table_grants_unique:
  assumes "grant_table_ok t" "g \<in> table_grants t" "g' \<in> table_grants t" "grant_id g = grant_id g'"
  shows "g = g'"
proof -
  obtain r r' where r: "r \<in> set t" "grant_stored r g" "r' \<in> set t" "grant_stored r' g'"
    using assms(2,3) by (auto simp: table_grants_def)
  moreover have "r = r'" using r assms(4) grant_row_unique [OF assms(1)] by (simp add: grant_stored_def)
  ultimately show ?thesis using grant_stored_unique by simp
qed

lemma capsule_put_grant_law:
  assumes "grant_table_ok t" and "grant_finite g" and "capsule_put_grant g t = (r, t')"
  shows "grant_table_ok t' \<and> (if r = Ok () then table_grants t' = insert g (table_grants t) else table_grants t' = table_grants t)"
proof (cases "r = Ok ()")
  case True
  then obtain fs where fs: "grant_fields g = Ok fs" "\<forall>r \<in> set t. row_id r \<noteq> grant_id g"
      "t' = t @ [\<lparr>row_id = grant_id g, row_revision = 1, row_body = fs\<rparr>]"
    using assms(3) by (auto simp: capsule_put_grant_def split: sum.splits if_splits)
  then have new: "grant_stored \<lparr>row_id = grant_id g, row_revision = 1, row_body = fs\<rparr> g"
    using assms(2) by (simp add: grant_stored_def)
  have "x = g" if "grant_stored \<lparr>row_id = grant_id g, row_revision = 1, row_body = fs\<rparr> x" for x
    using grant_stored_unique [OF that new] .
  then have "table_grants t' = insert g (table_grants t)" unfolding table_grants_def fs(3) using new by auto
  moreover have "grant_table_ok t'" using assms(1) new fs(2) unfolding grant_table_ok_def fs(3) by auto
  ultimately show ?thesis using True by simp
next
  case False
  then show ?thesis using assms by (auto simp: capsule_put_grant_def split: sum.splits if_splits)
qed

interpretation capsule_grants: grant_store_laws "capsule_grant_store um im down" grant_table_ok table_grants
proof
  fix t i g
  assume t: "grant_table_ok t" and "gs_grant (capsule_grant_store um im down) t i = Ok (Some g)"
  then obtain row where "grant_row i t = Some row" "grant_record um im (row_id row) (row_body row) = Ok g"
    by (auto simp: capsule_grant_store_def capsule_grant_def result_simps split: option.splits)
  then show "g \<in> table_grants t \<and> grant_id g = i"
    using table_grants_row [OF t] grant_row_Some by (fastforce simp: grant_stored_def)
next
  fix t s gs g
  assume t: "grant_table_ok t" "gs_grants_of (capsule_grant_store um im down) t s = Ok gs" "g \<in> set gs"
  then have "capsule_grants_of um im t s = Ok gs"
    by (simp add: capsule_grant_store_def split: option.splits)
  with t(1,3) obtain r where "g \<in> table_grants t" "grant_stored r g"
      "row_body r ''subject_kind'' = Some (Text (subject_kind_as_str (subject_kind s)))"
      "row_body r ''subject_id'' = Some (Bytes (be_bytes 16 (unat (subject_uuid s))))"
    unfolding capsule_grants_of_def using grant_query_Ok by blast
  then show "g \<in> table_grants t \<and> grant_subject g = s"
    by (auto simp: grant_stored_def grant_fields_Ok subject_kind_as_str_inject uuid_bytes_inject intro!: subject.equality)
next
  fix t p gs g
  assume t: "grant_table_ok t" "gs_children (capsule_grant_store um im down) t p = Ok gs" "g \<in> set gs"
  then have "capsule_children um im t p = Ok gs"
    by (simp add: capsule_grant_store_def split: option.splits)
  with t(1,3) obtain r where "g \<in> table_grants t" "grant_stored r g"
      "row_body r ''parent_id'' = Some (Bytes (be_bytes 16 (unat p)))"
    unfolding capsule_children_def using grant_query_Ok by blast
  then show "g \<in> table_grants t \<and> grant_parent g = Some p"
    by (auto simp: grant_stored_def grant_fields_Ok uuid_bytes_inject)
next
  fix t g g'
  assume "grant_table_ok t" "g \<in> table_grants t" "g' \<in> table_grants t" "grant_id g = grant_id g'"
  then show "g = g'" by (rule table_grants_unique)
next
  fix t g r t'
  assume "grant_table_ok t" "grant_finite g" "gs_put (capsule_grant_store um im down) g t = (r, t')"
  then show "grant_table_ok t' \<and> (if r = Ok () then table_grants t' = insert g (table_grants t) else table_grants t' = table_grants t)"
    using capsule_put_grant_law [of t g r t'] by (cases down) (auto simp: capsule_grant_store_def)
next
  fix t i at r t'
  assume "grant_table_ok t" "gs_revoke (capsule_grant_store um im down) i at t = (r, t')"
  then show "grant_table_ok t' \<and> (if r = Ok ()
      then table_grants t' = (\<lambda>g. if grant_id g = i then grant_revoked_at at g else g) ` table_grants t
      else table_grants t' = table_grants t)"
    using capsule_revoke_law [of t i at r t'] by (cases down) (auto simp: capsule_grant_store_def split: if_splits)
next
  fix t i at t'
  assume "grant_table_ok t" "gs_revoke (capsule_grant_store um im down) i at t = (Ok (), t')"
  then show "\<exists>g \<in> table_grants t. grant_id g = i"
    using capsule_revoke_law [of t i at "Ok ()" t'] by (simp add: capsule_grant_store_def split: option.splits)
qed

section \<open>What the contract gives the use cases\<close>

datatype grant_op =
    GrantIssued i64 grant
  | GrantDelegated i64 subject uuid delegation_request string
  | GrantRevoked i64 uuid

fun apply_grant_op :: "'g grant_store \<Rightarrow> action_registry \<Rightarrow> grant_op \<Rightarrow> 'g \<Rightarrow> 'g" where
  "apply_grant_op store registry (GrantIssued now grant) s = snd (issue_grant store registry now grant s)"
| "apply_grant_op store registry (GrantDelegated now delegator parent request version) s =
     snd (delegate_grant store registry now delegator parent request version s)"
| "apply_grant_op store registry (GrantRevoked now i) s = snd (revoke_grant store now i s)"

text \<open>The sets of names in a request are finite, as every set of the program is.\<close>

fun grant_op_finite :: "grant_op \<Rightarrow> bool" where
  "grant_op_finite (GrantIssued now grant) \<longleftrightarrow> grant_finite grant"
| "grant_op_finite (GrantDelegated now delegator parent request version) \<longleftrightarrow>
     finite (request_actions request) \<and> finite (request_delegable request)"
| "grant_op_finite (GrantRevoked now i) \<longleftrightarrow> True"

inductive under :: "grant set \<Rightarrow> uuid \<Rightarrow> uuid \<Rightarrow> bool" for grants i where
  under_self: "under grants i i"
| under_child: "under grants i p \<Longrightarrow> g \<in> grants \<Longrightarrow> grant_parent g = Some p \<Longrightarrow> under grants i (grant_id g)"

definition voided :: "grant set \<Rightarrow> uuid \<Rightarrow> i64 \<Rightarrow> bool" where
  "voided grants i at \<longleftrightarrow> (\<exists>g \<in> grants. grant_id g = i \<and> is_some_and (\<lambda>r. r \<le> at) (grant_revoked_at_millis g))"

text \<open>Grants only gain siblings and revocation times.\<close>

definition grants_evolve :: "grant set \<Rightarrow> grant set \<Rightarrow> bool" where
  "grants_evolve before after \<longleftrightarrow> (\<forall>g \<in> before. \<exists>g' \<in> after. grant_id g' = grant_id g
     \<and> grant_parent g' = grant_parent g
     \<and> (\<forall>at. is_some_and (\<lambda>r. r \<le> at) (grant_revoked_at_millis g)
          \<longrightarrow> is_some_and (\<lambda>r. r \<le> at) (grant_revoked_at_millis g')))"

lemma grants_evolve_refl: "before \<subseteq> after \<Longrightarrow> grants_evolve before after"
  by (auto simp: grants_evolve_def)

lemma grants_evolve_trans: "grants_evolve a b \<Longrightarrow> grants_evolve b c \<Longrightarrow> grants_evolve a c"
  unfolding grants_evolve_def by metis

lemma grants_evolve_revoke:
  "grants_evolve gs ((\<lambda>g. if grant_id g = i then grant_revoked_at at g else g) ` gs)"
proof -
  have "is_some_and (\<lambda>r. r \<le> now) (keep_earliest_time at m)" if "is_some_and (\<lambda>r. r \<le> now) m" for now m
    using that keep_earliest_time_cases [of at m]
    by (cases "is_some_and (\<lambda>r. r \<le> at) m") (auto simp: is_some_and_iff)
  then have "\<exists>g' \<in> (\<lambda>g. if grant_id g = i then grant_revoked_at at g else g) ` gs. grant_id g' = grant_id g
      \<and> grant_parent g' = grant_parent g
      \<and> (\<forall>now. is_some_and (\<lambda>r. r \<le> now) (grant_revoked_at_millis g)
           \<longrightarrow> is_some_and (\<lambda>r. r \<le> now) (grant_revoked_at_millis g'))" if "g \<in> gs" for g
    using that by (intro bexI [where x = "if grant_id g = i then grant_revoked_at at g else g"])
      (auto simp: grant_revoked_at_def)
  then show ?thesis unfolding grants_evolve_def by blast
qed

lemma voided_evolve: "voided a i at \<Longrightarrow> grants_evolve a b \<Longrightarrow> voided b i at"
  unfolding voided_def grants_evolve_def by metis

lemma under_evolve: "under a i x \<Longrightarrow> grants_evolve a b \<Longrightarrow> under b i x"
proof (induction rule: under.induct)
  case (under_child p g)
  then obtain g' where "g' \<in> b" "grant_id g' = grant_id g" "grant_parent g' = Some p"
    unfolding grants_evolve_def by metis
  with under_child show ?case using under.under_child [of b i p g'] by simp
qed (rule under_self)

lemma delegate_finite:
  assumes "delegate registry chain delegator request version now = Ok child"
    and "finite (request_delegable request)"
  shows "grant_finite child"
proof -
  have loop: "finite acc \<Longrightarrow> delegate_actions registry kind resource xs acc = Ok acc' \<Longrightarrow> finite acc'"
    for kind resource xs acc acc'
    by (induction xs arbitrary: acc) (auto simp: result_simps split: if_splits)
  from assms show ?thesis
    by (auto simp: delegate_def result_simps Let_def grant_finite_def split: if_splits
        dest!: loop [OF finite.emptyI])
qed

lemma put_grant_Ok: "put_grant store g s = (r, s') \<Longrightarrow> \<exists>r'. gs_put store g s = (r', s') \<and> (r = Ok () \<longleftrightarrow> r' = Ok ())"
  unfolding put_grant_def
  by (cases "gs_put store g s"; cases "fst (gs_put store g s)") (auto split: port_error.splits)

context grant_store_laws begin

lemma put_evolves:
  assumes "ok s" and "grant_finite g" and "put_grant store g s = (r, s')"
  shows "ok s' \<and> grants_evolve (grants s) (grants s')"
proof -
  from put_grant_Ok [OF assms(3)] obtain r' where "gs_put store g s = (r', s')" by blast
  from put_law [OF assms(1,2) this] show ?thesis by (auto intro!: grants_evolve_refl split: if_splits)
qed

lemma revoke_evolves:
  assumes "ok s" and "revoke_grant store now i s = (r, s')"
  shows "ok s' \<and> grants_evolve (grants s) (grants s')"
proof -
  from assms(2) obtain r' where "gs_revoke store i now s = (r', s')"
    by (auto simp: revoke_grant_def split: prod.splits sum.splits port_error.splits)
  from revoke_law [OF assms(1) this] show ?thesis
    using grants_evolve_revoke [of "grants s" i now] by (auto intro: grants_evolve_refl split: if_splits)
qed

lemma op_evolves:
  assumes "ok s" and "grant_op_finite p"
  shows "ok (apply_grant_op store registry p s) \<and> grants_evolve (grants s) (grants (apply_grant_op store registry p s))"
proof (cases p)
  case (GrantIssued now g)
  with assms(2) have g: "grant_finite g" by simp
  from GrantIssued show ?thesis
    using assms(1) put_evolves [OF assms(1) g, of "fst (put_grant store g s)" "snd (put_grant store g s)"]
    by (auto simp: issue_grant_def grants_evolve_refl split: sum.splits)
next
  case (GrantDelegated now delegator parent request version)
  show ?thesis
  proof (cases "snd (delegate_grant store registry now delegator parent request version s) = s")
    case True then show ?thesis using assms(1) GrantDelegated by (simp add: grants_evolve_refl)
  next
    case False
    then obtain child chain where child: "delegate registry chain delegator request version now = Ok child"
        "snd (delegate_grant store registry now delegator parent request version s) = snd (put_grant store child s)"
      unfolding delegate_grant_def
      by (auto simp: result_simps split: sum.splits prod.splits)
    then show ?thesis
      using put_evolves [OF assms(1), of child "fst (put_grant store child s)" "snd (put_grant store child s)"]
        delegate_finite [OF child(1)] assms(2) GrantDelegated by simp
  qed
next
  case (GrantRevoked now i)
  then show ?thesis using revoke_evolves [OF assms(1), of now i] by (metis apply_grant_op.simps(3) prod.collapse)
qed

lemma ops_evolve:
  assumes "ok s" and "list_all grant_op_finite ps"
  shows "ok (fold (apply_grant_op store registry) ps s)
    \<and> grants_evolve (grants s) (grants (fold (apply_grant_op store registry) ps s))"
  using assms
proof (induction ps arbitrary: s)
  case (Cons p ps)
  then show ?case using op_evolves [of s p registry] grants_evolve_trans by fastforce
qed (simp add: grants_evolve_refl)

end

lemma evaluate_grant_chain:
  assumes "decision_grant_chain (evaluate registry request version) = ids" and "ids \<noteq> []"
  shows "\<exists>chain s. chain \<in> set (policy_grants request) \<and> ids = map grant_id chain \<and> policy_subject request = Some s
    \<and> chain_authorizes chain s (policy_action request) (resource_kind (policy_resource request))
        (resource_id (policy_resource request)) (policy_at_millis request)"
proof -
  have rule: "\<exists>chain. authorizing_chain request s = Some chain \<and> ids = map grant_id chain"
    if "evaluate_rule request s cs = Some (c, ids)" "ids \<noteq> []" for s cs c ids
    using that by (induction cs) (auto split: condition.splits option.splits if_splits)
  have "\<exists>chain s. authorizing_chain request s = Some chain \<and> ids = map grant_id chain
      \<and> policy_subject request = Some s"
    using assms rule
    by (auto simp: evaluate_def decided_def Let_def split: option.splits if_splits prod.splits; blast)
  then show ?thesis unfolding authorizing_chain_def find_Some_iff by (metis nth_mem)
qed

lemma chain_avoids_voided:
  assumes "set chain \<subseteq> gs" and "check_chain chain now = Ok ()"
    and unique: "\<And>g g'. g \<in> gs \<Longrightarrow> g' \<in> gs \<Longrightarrow> grant_id g = grant_id g' \<Longrightarrow> g = g'"
    and "voided gs i at" and "at \<le> now" and "under gs i x"
  shows "x \<notin> grant_id ` set chain"
  using assms(6)
proof (induction rule: under.induct)
  case under_self
  show ?case
  proof
    assume "i \<in> grant_id ` set chain"
    then obtain g where g: "g \<in> set chain" "grant_id g = i" by auto
    from assms(4) obtain v where v: "v \<in> gs" "grant_id v = i" "is_some_and (\<lambda>r. r \<le> at) (grant_revoked_at_millis v)"
      by (auto simp: voided_def)
    then have "g = v" using unique [of g v] g assms(1) by auto
    with v(3) assms(5) have "\<not> live_at g now"
      by (auto simp: live_at_def is_some_and_iff dest: order_trans)
    with g(1) assms(2) show False by (auto simp: check_chain_Ok_iff)
  qed
next
  case (under_child p g)
  show ?case
  proof
    assume "grant_id g \<in> grant_id ` set chain"
    then obtain h where "h \<in> set chain" "grant_id h = grant_id g" by auto
    then have "g \<in> set chain" using unique [of g h] under_child.hyps(2) assms(1) by auto
    then obtain k where k: "k < length chain" "chain ! k = g" by (auto simp: in_set_conv_nth)
    have "Suc k < length chain"
    proof (rule ccontr)
      assume "\<not> Suc k < length chain"
      then have "k = length chain - 1" using k(1) by simp
      then have "g = last chain" using k by (metis last_conv_nth list.size(3) not_less_zero)
      with assms(2) under_child.hyps(3) show False by (simp add: check_chain_Ok_iff)
    qed
    then have "attenuates g (chain ! Suc k)" and in_chain: "chain ! Suc k \<in> set chain"
      using assms(2) k by (auto simp: check_chain_Ok_iff)
    then have "grant_id (chain ! Suc k) = p" using under_child.hyps(3) by (simp add: attenuates_def)
    with in_chain under_child.IH show False by blast
  qed
qed

lemma visit_children_members:
  "visit_children xs closure pending = (stop, closure', pending') \<Longrightarrow>
     set closure' \<union> set pending' \<subseteq> set xs \<union> set closure \<union> set pending"
  by (induction xs closure pending rule: visit_children.induct) (fastforce split: if_splits)+

lemma chain_from_within:
  assumes "\<And>i g. gs_grant store s i = Ok (Some g) \<Longrightarrow> g \<in> gs"
  shows "chain_from store s chain = Ok (Some chain') \<Longrightarrow> set chain \<subseteq> gs \<Longrightarrow> set chain' \<subseteq> gs"
  using assms
proof (induction store s chain rule: chain_from.induct)
  case (1 store s chain)
  show ?case
  proof (cases "grant_parent (last chain)")
    case None
    then show ?thesis using "1.prems"(1,2) by (simp add: chain_from.simps)
  next
    case (Some parent)
    then obtain g where g: "gs_grant store s parent = Ok (Some g)" "\<not> MAX_CHAIN_LENGTH \<le> length chain"
        "chain_from store s (chain @ [g]) = Ok (Some chain')"
      using "1.prems"(1) by (subst (asm) chain_from.simps) (auto simp: result_simps split: if_splits option.splits)
    from "1.IH" [OF Some g(2,3)] "1.prems"(2,3) g(1) show ?thesis by auto
  qed
qed

lemma revocation_walk_within:
  assumes "\<And>p ch g. gs_children store s p = Ok ch \<Longrightarrow> g \<in> set ch \<Longrightarrow> g \<in> gs \<and> grant_parent g = Some p"
  shows "revocation_walk store s closure pending = Ok ids
    \<Longrightarrow> \<forall>x \<in> set closure \<union> set pending. under gs i x \<Longrightarrow> \<forall>x \<in> set ids. under gs i x"
  using assms
proof (induction store s closure pending rule: revocation_walk.induct)
  case (1 store s closure pending)
  show ?case
  proof (cases pending)
    case Nil
    then show ?thesis using "1.prems"(1,2) by (simp add: revocation_walk.simps)
  next
    case (Cons p rest)
    then obtain ch where children: "gs_children store s p = Ok ch"
      using "1.prems"(1) unfolding revocation_walk.simps [of store s closure pending] by (auto simp: result_simps)
    obtain stop closure' pending' where
      visit: "visit_children (map grant_id ch) closure rest = (stop, closure', pending')"
      using prod_cases3 by blast
    then have ch: "gs_children store s p = Ok ch"
        "visit_children (map grant_id ch) closure rest = (stop, closure', pending')"
        "(if stop then Ok closure' else revocation_walk store s closure' pending') = Ok ids"
      using "1.prems"(1) children Cons unfolding revocation_walk.simps [of store s closure pending] by auto
    have "\<forall>g \<in> set ch. under gs i (grant_id g)"
      using "1.prems"(2,3) ch(1) Cons by (auto intro: under_child)
    then have inv: "\<forall>x \<in> set closure' \<union> set pending'. under gs i x"
      using visit_children_members [OF ch(2)] "1.prems"(2) Cons by auto
    show ?thesis
    proof (cases stop)
      case True
      then show ?thesis using ch(3) inv by simp
    next
      case False
      then have "revocation_walk store s closure' pending' = Ok ids" using ch(3) by simp
      from "1.IH" [OF Cons _ _ False this inv] ch(2) "1.prems"(3) show ?thesis by metis
    qed
  qed
qed

context grant_store_laws begin

lemma load_chains_grants:
  assumes "ok s" and "load_chains store s subject action = Ok found" and "chain \<in> set found"
  shows "set chain \<subseteq> grants s"
proof -
  have loop: "chains_of_grants store s action gs = Ok found \<Longrightarrow> set gs \<subseteq> grants s \<Longrightarrow> \<forall>c \<in> set found. set c \<subseteq> grants s"
    for gs found
  proof (induction gs arbitrary: found)
    case (Cons g gs)
    have "set c \<subseteq> grants s" if "chain_of store s g = Ok (Some c)" for c
      using chain_from_within [of store s "grants s" "[g]" c] that grant_Some [OF assms(1)] Cons.prems(2)
      by (simp add: chain_of_def)
    with Cons show ?case by (fastforce simp: result_simps split: if_splits option.splits)
  qed simp
  from assms(2) obtain gs where "gs_grants_of store s subject = Ok gs" "chains_of_grants store s action gs = Ok found"
    by (auto simp: load_chains_def result_simps)
  with loop [of gs found] grants_of_Ok [OF assms(1)] assms(3) show ?thesis by blast
qed

lemma revoke_grant_voids:
  assumes "ok s" and "revoke_grant store at i s = (Ok ids, s')"
  shows "voided (grants s') i at \<and> (\<forall>x \<in> set ids. under (grants s') i x)"
proof -
  from assms(2) have r: "gs_revoke store i at s = (Ok (), s')" and walk: "revocation_walk store s' [i] [i] = Ok ids"
    by (auto simp: revoke_grant_def result_simps split: prod.splits sum.splits port_error.splits)
  from revoke_known [OF assms(1) r] obtain g where g: "g \<in> grants s" "grant_id g = i" by blast
  have ok: "ok s'" and gs: "grants s' = (\<lambda>g. if grant_id g = i then grant_revoked_at at g else g) ` grants s"
    using revoke_law [OF assms(1) r] by auto
  have "is_some_and (\<lambda>r. r \<le> at) (keep_earliest_time at m)" for m
    using keep_earliest_time_cases [of at m] by (cases "is_some_and (\<lambda>r. r \<le> at) m") auto
  then have "voided (grants s') i at"
    using g unfolding voided_def gs
    by (intro bexI [OF _ imageI [OF g(1)]]) (simp add: grant_revoked_at_def)
  with revocation_walk_within [of store s' "grants s'" "[i]" "[i]" ids i] walk children_Ok [OF ok] show ?thesis
    by (auto intro: under_self)
qed

lemma revoked_never_decides:
  assumes "ok s" and "revoke_grant store at i s = (Ok ids, s')" and "list_all grant_op_finite ops"
    and "authorize (registry_policy registry version) store (fold (apply_grant_op store registry) ops s') now
           subject action resource facts = Ok d" and "at \<le> now"
  shows "set (decision_grant_chain d) \<inter> set ids = {}"
proof (cases "decision_grant_chain d = []")
  case False
  let ?s = "fold (apply_grant_op store registry) ops s'"
  have "ok s'" using revoke_evolves [OF assms(1,2)] by blast
  from ops_evolve [OF this assms(3), of registry] have ok: "ok ?s" and evolve: "grants_evolve (grants s') (grants ?s)" by auto
  from revoke_grant_voids [OF assms(1,2)] evolve
  have void: "voided (grants ?s) i at" and ids: "\<forall>x \<in> set ids. under (grants ?s) i x"
    by (auto intro: voided_evolve under_evolve)
  from assms(4) obtain found where
    loaded: "(case subject of Some x \<Rightarrow> load_chains store ?s x action | None \<Rightarrow> Ok []) = Ok found"
    and d: "d = evaluate registry \<lparr>policy_subject = subject, policy_action = action, policy_resource = resource,
               policy_facts = facts, policy_grants = found, policy_at_millis = now\<rparr> version"
    by (auto simp: authorize_def registry_policy_def result_simps)
  have "decision_grant_chain (evaluate registry \<lparr>policy_subject = subject, policy_action = action,
      policy_resource = resource, policy_facts = facts, policy_grants = found, policy_at_millis = now\<rparr> version)
      = decision_grant_chain d" by (simp add: d)
  from evaluate_grant_chain [OF this False] obtain chain x where
    c: "chain \<in> set found" "decision_grant_chain d = map grant_id chain" "subject = Some x" "check_chain chain now = Ok ()"
    by (auto simp: chain_authorizes_def is_ok_iff)
  have "set chain \<subseteq> grants ?s" using load_chains_grants [OF ok] loaded c(1,3) by auto
  then have "x \<notin> grant_id ` set chain" if "x \<in> set ids" for x
    using chain_avoids_voided [OF _ c(4) grants_unique [OF ok] void assms(5)] ids that by blast
  then show ?thesis unfolding c(2) by auto
qed simp

end

text \<open>
  C4: a revoked grant never decides again. Once revoking a grant has returned the grants it
  withdrew, no authorization at or after that time, over the capsule store and after any further
  issuing, delegating and revoking, is granted through a chain that holds one of them.
\<close>

theorem revoked_grants_authorize_nothing:
  assumes "grant_table_ok t"
    and "revoke_grant (capsule_grant_store um im down) at i t = (Ok ids, t')"
    and "list_all grant_op_finite ops"
    and "authorize (registry_policy registry version) (capsule_grant_store um im down)
           (fold (apply_grant_op (capsule_grant_store um im down) registry) ops t') now
           subject action resource facts = Ok d"
    and "at \<le> now"
  shows "set (decision_grant_chain d) \<inter> set ids = {}"
  by (rule capsule_grants.revoked_never_decides [OF assms])

lemma sample_store_revoked:
  obtains t t' where "grant_table_ok t"
    "revoke_grant (capsule_grant_store um im None) (I64 5) 1 t = (Ok [1], t')"
    "load_chains (capsule_grant_store um im None) t' \<lparr>subject_kind = Creature, subject_uuid = 1\<rparr> ''store.read''
       = Ok [[grant_revoked_at (I64 5) (sample_grant 1 None 2)]]"
proof -
  let ?g = "sample_grant 1 None 2" and ?at = "I64 5"
  have finite: "grant_finite ?g" by (simp add: grant_finite_def sample_grant_def)
  have "micros_of ''grant'' (grant_not_before_millis ?g) = Ok (Integer (I64 0))"
    by (simp add: micros_of_def checked_i64_def in_i64_def sample_grant_def)
  then obtain fs where fs: "grant_fields ?g = Ok fs"
    by (auto simp: grant_fields_def optional_grant_micros_def sample_grant_def)
  let ?row = "\<lparr>row_id = 1, row_revision = 1, row_body = fs\<rparr>"
  have at: "micros_of ''grant'' ?at = Ok (Integer (I64 5000))" by (simp add: micros_of_def checked_i64_def in_i64_def)
  let ?row' = "\<lparr>row_id = 1, row_revision = 2, row_body = fs(''revoked_at_micros'' \<mapsto> Integer (I64 5000))\<rparr>"
  have stored: "grant_stored ?row ?g" using fs finite by (simp add: grant_stored_def) (simp add: sample_grant_def)
  have revoked: "grant_stored ?row' (grant_revoked_at ?at ?g)"
    using grant_revoked_fields [OF fs _ at] finite
    by (simp add: grant_stored_def grant_revoked_at_def grant_finite_def) (simp add: sample_grant_def)
  have step: "capsule_revoke 1 ?at [?row] = (Ok (), [?row'])"
    using grant_fields_Ok(14) [OF fs] at
    by (simp add: capsule_revoke_first grant_row_def put_revision_def) (simp add: sample_grant_def)
  show thesis
  proof
    show "grant_table_ok [?row]" using stored by (auto simp: grant_table_ok_def)
    show "revoke_grant (capsule_grant_store um im None) ?at 1 [?row] = (Ok [1], [?row'])"
      using grant_fields_Ok(10) [OF fs]
      by (simp add: revoke_grant_def capsule_grant_store_def step revocation_walk.simps capsule_children_def
          grant_query_def key_query_def) (simp add: sample_grant_def)
    show "load_chains (capsule_grant_store um im None) [?row'] \<lparr>subject_kind = Creature, subject_uuid = 1\<rparr> ''store.read''
       = Ok [[grant_revoked_at ?at ?g]]"
      using grant_fields_Ok(1,2) [OF fs] grant_stored_record [OF revoked, of um im]
      by (simp add: load_chains_def capsule_grant_store_def capsule_grants_of_def grant_query_def key_query_def
          chain_of_def chain_from.simps grant_revoked_at_def MAX_QUERY_LIMIT_def)
        (simp add: sample_grant_def)
  qed
qed

theorem revoked_grants_authorize_nothing_witness:
  "\<exists>t t' d. revoke_grant (capsule_grant_store [] [] None) (I64 5) 1 t = (Ok [1], t')
     \<and> authorize (registry_policy sample_registry ''p'') (capsule_grant_store [] [] None) t' (I64 6)
         (Some \<lparr>subject_kind = Creature, subject_uuid = 1\<rparr>) ''store.read''
         \<lparr>resource_kind = ''store'', resource_id = ''s1''\<rparr> {} = Ok d
     \<and> set (decision_grant_chain d) \<inter> set [1] = {}"
proof -
  obtain t t' where t: "grant_table_ok t" "revoke_grant (capsule_grant_store [] [] None) (I64 5) 1 t = (Ok [1], t')"
    "load_chains (capsule_grant_store [] [] None) t' \<lparr>subject_kind = Creature, subject_uuid = 1\<rparr> ''store.read''
       = Ok [[grant_revoked_at (I64 5) (sample_grant 1 None 2)]]"
    by (rule sample_store_revoked)
  then obtain d where d: "authorize (registry_policy sample_registry ''p'') (capsule_grant_store [] [] None) t' (I64 6)
         (Some \<lparr>subject_kind = Creature, subject_uuid = 1\<rparr>) ''store.read''
         \<lparr>resource_kind = ''store'', resource_id = ''s1''\<rparr> {} = Ok d"
    by (simp add: authorize_def registry_policy_def)
  from revoked_grants_authorize_nothing [OF t(1,2), where ops = "[]" and registry = sample_registry] d t(2)
  show ?thesis by (fastforce simp: i64_le_iff)
qed

end
