(* ===== verification/Coordination.thy ===== *)
theory Coordination
  imports Contracts Auto_Store
begin

text \<open>
  Fenced singleton coordination: the lease rules of
  \<open>crates/aseman-domain/src/coordination.rs\<close>, the coordination port on the storage module
  (\<open>crates/aseman-capsule/src/coordination.rs\<close>) and the replica's loop
  (\<open>crates/aseman-application/src/singleton.rs\<close>). \<open>FencingToken\<close> interprets
  \<open>checked_counter\<close>; the port's contract is the locale \<open>lease_provider\<close>, in which the
  exclusion of two replicas is proved; \<open>Coordination_Store\<close> interprets it on the storage provider.
\<close>

section \<open>The rules\<close>

datatype coordination_error = InvalidName | InvalidToken | TokenOverflow | InvalidTtl | InvalidMargin

fun coordination_error_text :: "coordination_error \<Rightarrow> string" where
  "coordination_error_text InvalidName = ''a lease name is 1 to 128 bytes''"
| "coordination_error_text InvalidToken = ''a fencing token starts at 1''"
| "coordination_error_text TokenOverflow = ''the fencing token counter is exhausted''"
| "coordination_error_text InvalidTtl = ''a lease time to live is positive''"
| "coordination_error_text InvalidMargin = ''a safety margin is positive''"

datatype lease_name = LeaseName (lease_name_as_str: string)

definition lease_name_new :: "string \<Rightarrow> (lease_name, coordination_error) result" where
  "lease_name_new v = (if v = [] \<or> length v > 128 then Err InvalidName else Ok (LeaseName v))"

datatype fencing_token = FencingToken (token_get: u64)

definition token_FIRST :: fencing_token where
  "token_FIRST = FencingToken 1"

definition token_from_stored :: "u64 \<Rightarrow> (fencing_token, coordination_error) result" where
  "token_from_stored v = (if v \<ge> 1 then Ok (FencingToken v) else Err InvalidToken)"

definition token_next :: "fencing_token \<Rightarrow> (fencing_token, coordination_error) result" where
  "token_next t = ok_or TokenOverflow (map_option FencingToken (checked_add (token_get t) 1))"

text \<open>Tokens compare as their numbers do.\<close>

instantiation fencing_token :: linorder
begin

definition less_eq_fencing_token :: "fencing_token \<Rightarrow> fencing_token \<Rightarrow> bool" where
  "less_eq_fencing_token a b \<longleftrightarrow> token_get a \<le> token_get b"

definition less_fencing_token :: "fencing_token \<Rightarrow> fencing_token \<Rightarrow> bool" where
  "less_fencing_token a b \<longleftrightarrow> token_get a < token_get b"

instance
  by standard (auto simp: less_eq_fencing_token_def less_fencing_token_def intro: fencing_token.expand)

end

interpretation token: checked_counter token_get token_next TokenOverflow
proof
  show "a = b" if "token_get a = token_get b" for a b
    using that by (cases a; cases b) simp
  show "uint (token_get d) = uint (token_get c) + 1" if "token_next c = Ok d" for c d
    using that by (auto simp: token_next_def result_simps checked_add_Some_iff)
  show "\<exists>d. token_next c = Ok d" if "uint (token_get c) + 1 < 2 ^ 64" for c
    using that by (simp add: token_next_def checked_add_def)
  show "e = TokenOverflow" if "token_next c = Err e" for c e
    using that by (auto simp: token_next_def result_simps)
qed

record lease =
  lease_name :: lease_name
  lease_instance :: string
  lease_token :: fencing_token
  lease_acquired_at_millis :: i64
  lease_expires_at_millis :: i64

datatype safety_margin = SafetyMargin (margin_millis: i64)

definition safety_margin_new :: "i64 \<Rightarrow> (safety_margin, coordination_error) result" where
  "safety_margin_new millis =
     (if int_of millis > 0 then Ok (SafetyMargin millis) else Err InvalidMargin)"

datatype lease_standing = Held | Renew | Stop

definition standing :: "lease \<Rightarrow> safety_margin \<Rightarrow> i64 \<Rightarrow> lease_standing" where
  "standing lease margin now =
     (let deadline = saturating_sub_i64 (lease_expires_at_millis lease) (margin_millis margin) in
      if now \<ge> deadline then Stop
      else let half = saturating_add_i64 (lease_acquired_at_millis lease)
             (half_i64 (saturating_sub_i64 deadline (lease_acquired_at_millis lease))) in
        if now \<ge> half then Renew else Held)"

definition may_commit :: "fencing_token \<Rightarrow> fencing_token option \<Rightarrow> bool" where
  "may_commit token last_accepted =
     (case last_accepted of None \<Rightarrow> True | Some accepted \<Rightarrow> token \<ge> accepted)"

datatype acquisition =
    AcquisitionGranted lease
  | AcquisitionHeld string i64

definition plan_acquisition ::
  "lease_name \<Rightarrow> lease option \<Rightarrow> string \<Rightarrow> i64 \<Rightarrow> i64 \<Rightarrow> (acquisition, coordination_error) result" where
  "plan_acquisition name current instance now ttl =
     (if int_of ttl \<le> 0 then Err InvalidTtl
      else
        let granted = (\<lambda>token. AcquisitionGranted
              \<lparr>lease_name = name, lease_instance = instance, lease_token = token,
               lease_acquired_at_millis = now, lease_expires_at_millis = saturating_add_i64 now ttl\<rparr>)
        in case current of
             Some lease \<Rightarrow>
               if lease_expires_at_millis lease > now \<and> lease_instance lease \<noteq> instance
               then Ok (AcquisitionHeld (lease_instance lease) (lease_expires_at_millis lease))
               else and_then (token_next (lease_token lease)) (\<lambda>token. Ok (granted token))
           | None \<Rightarrow> Ok (granted token_FIRST))"

definition may_renew :: "lease option \<Rightarrow> lease \<Rightarrow> i64 \<Rightarrow> bool" where
  "may_renew current held now =
     is_some_and (\<lambda>lease. lease_instance lease = lease_instance held \<and> lease_token lease = lease_token held
       \<and> lease_expires_at_millis lease > now) current"

section \<open>Leases and fences in storage\<close>

record lease_row =
  lr_instance :: string
  lr_token :: i64
  lr_acquired_at_millis :: i64
  lr_expires_at_millis :: i64

text \<open>The two tables, and the time the provider's clock shows.\<close>

record coord_db =
  provider_now :: i64
  coordination_lease :: "string \<rightharpoonup> lease_row"
  coordination_fence :: "string \<rightharpoonup> i64"

definition stored_token :: "i64 \<Rightarrow> (fencing_token, port_error) result" where
  "stored_token v =
     and_then (ok_or (Failed TRY_FROM_INT_ERROR) (u64_of_i64 v)) (\<lambda>u.
       map_err (\<lambda>e. Failed (coordination_error_text e)) (token_from_stored u))"

definition token_stored :: "fencing_token \<Rightarrow> (i64, port_error) result" where
  "token_stored t = ok_or (Failed TRY_FROM_INT_ERROR) (i64_of_u64 (token_get t))"

definition row_lease :: "lease_name \<Rightarrow> lease_row \<Rightarrow> (lease, port_error) result" where
  "row_lease name row =
     and_then (stored_token (lr_token row)) (\<lambda>token.
       Ok \<lparr>lease_name = name, lease_instance = lr_instance row, lease_token = token,
           lease_acquired_at_millis = lr_acquired_at_millis row,
           lease_expires_at_millis = lr_expires_at_millis row\<rparr>)"

text \<open>
  \<open>clock_down\<close> is the failure of the provider's clock, if it fails. Each operation is the
  closure its call hands to \<open>decide\<close>.
\<close>

definition coord_now :: "port_error option \<Rightarrow> coord_db \<Rightarrow> (i64, port_error) result" where
  "coord_now clock_down db = (case clock_down of Some e \<Rightarrow> Err e | None \<Rightarrow> Ok (provider_now db))"

definition acquire_op ::
  "port_error option \<Rightarrow> lease_name \<Rightarrow> string \<Rightarrow> i64 \<Rightarrow> coord_db
   \<Rightarrow> ((acquisition, port_error) result \<times> coord_db, storage_error) result" where
  "acquire_op clock_down name instance ttl db =
     (case coord_now clock_down db of
        Inl e \<Rightarrow> Ok (Err e, db)
      | Inr now \<Rightarrow>
          let current = coordination_lease db (lease_name_as_str name) in
          case (case current of
                  None \<Rightarrow> Ok None
                | Some row \<Rightarrow> and_then (row_lease name row) (\<lambda>l. Ok (Some l))) of
            Inl e \<Rightarrow> Ok (Err e, db)
          | Inr current_lease \<Rightarrow>
              (case plan_acquisition name current_lease instance now ttl of
                 Inl e \<Rightarrow> Ok (Err (Failed (coordination_error_text e)), db)
               | Inr (AcquisitionHeld holder expires) \<Rightarrow> Ok (Ok (AcquisitionHeld holder expires), db)
               | Inr (AcquisitionGranted granted) \<Rightarrow>
                   (case token_stored (lease_token granted) of
                      Inl e \<Rightarrow> Ok (Err e, db)
                    | Inr token \<Rightarrow>
                        Ok (Ok (AcquisitionGranted granted),
                            db\<lparr>coordination_lease := (coordination_lease db)(lease_name_as_str name \<mapsto>
                              \<lparr>lr_instance = lease_instance granted, lr_token = token,
                               lr_acquired_at_millis = lease_acquired_at_millis granted,
                               lr_expires_at_millis = lease_expires_at_millis granted\<rparr>)\<rparr>))))"

definition coord_acquire ::
  "coord_db environment \<Rightarrow> port_error option \<Rightarrow> lease_name \<Rightarrow> string \<Rightarrow> i64 \<Rightarrow> coord_db
   \<Rightarrow> (acquisition, port_error) result \<times> coord_db" where
  "coord_acquire env clock_down name instance ttl db =
     decide env (acquire_op clock_down name instance ttl) db"

definition renew_op ::
  "port_error option \<Rightarrow> lease \<Rightarrow> i64 \<Rightarrow> i64 \<Rightarrow> coord_db
   \<Rightarrow> ((lease option, port_error) result \<times> coord_db, storage_error) result" where
  "renew_op clock_down held held_token ttl db =
     (case coord_now clock_down db of
        Inl e \<Rightarrow> Ok (Err e, db)
      | Inr now \<Rightarrow>
          (case coordination_lease db (lease_name_as_str (lease_name held)) of
             None \<Rightarrow> Ok (Ok None, db)
           | Some row \<Rightarrow>
               if lr_instance row \<noteq> lease_instance held \<or> lr_token row \<noteq> held_token
                  \<or> lr_expires_at_millis row \<le> now
               then Ok (Ok None, db)
               else let row' = row\<lparr>lr_expires_at_millis := add_i64 now ttl\<rparr> in
                 Ok (and_then (row_lease (lease_name held) row') (\<lambda>l. Ok (Some l)),
                     db\<lparr>coordination_lease :=
                         (coordination_lease db)(lease_name_as_str (lease_name held) \<mapsto> row')\<rparr>)))"

definition coord_renew ::
  "coord_db environment \<Rightarrow> port_error option \<Rightarrow> lease \<Rightarrow> i64 \<Rightarrow> coord_db
   \<Rightarrow> (lease option, port_error) result \<times> coord_db" where
  "coord_renew env clock_down held ttl db =
     (if int_of ttl \<le> 0 then (Err (Denied ''a lease time to live is positive''), db)
      else case token_stored (lease_token held) of
        Inl e \<Rightarrow> (Err e, db)
      | Inr held_token \<Rightarrow> decide env (renew_op clock_down held held_token ttl) db)"

definition release_op ::
  "port_error option \<Rightarrow> lease \<Rightarrow> i64 \<Rightarrow> coord_db
   \<Rightarrow> ((unit, port_error) result \<times> coord_db, storage_error) result" where
  "release_op clock_down held held_token db =
     (case coord_now clock_down db of
        Inl e \<Rightarrow> Ok (Err e, db)
      | Inr now \<Rightarrow>
          (case coordination_lease db (lease_name_as_str (lease_name held)) of
             None \<Rightarrow> Ok (Ok (), db)
           | Some row \<Rightarrow>
               if lr_instance row = lease_instance held \<and> lr_token row = held_token
               then Ok (Ok (), db\<lparr>coordination_lease := (coordination_lease db)
                      (lease_name_as_str (lease_name held) \<mapsto>
                        row\<lparr>lr_expires_at_millis := max (lr_acquired_at_millis row) now\<rparr>)\<rparr>)
               else Ok (Ok (), db)))"

definition coord_release ::
  "coord_db environment \<Rightarrow> port_error option \<Rightarrow> lease \<Rightarrow> coord_db
   \<Rightarrow> (unit, port_error) result \<times> coord_db" where
  "coord_release env clock_down held db =
     (case token_stored (lease_token held) of
        Inl e \<Rightarrow> (Err e, db)
      | Inr held_token \<Rightarrow> decide env (release_op clock_down held held_token) db)"

definition coord_read :: "trx_end \<Rightarrow> lease_name \<Rightarrow> coord_db \<Rightarrow> (lease option, port_error) result" where
  "coord_read end name db =
     and_then (map_err port (fst (auto_run end ReadOnly
         (\<lambda>db. Ok (coordination_lease db (lease_name_as_str name), db)) db))) (\<lambda>row.
       case row of None \<Rightarrow> Ok None | Some r \<Rightarrow> and_then (row_lease name r) (\<lambda>l. Ok (Some l)))"

definition last_accepted :: "trx_end \<Rightarrow> lease_name \<Rightarrow> coord_db \<Rightarrow> (fencing_token option, port_error) result" where
  "last_accepted end name db =
     and_then (map_err port (fst (auto_run end ReadOnly
         (\<lambda>db. Ok (coordination_fence db (lease_name_as_str name), db)) db))) (\<lambda>row.
       case row of None \<Rightarrow> Ok None | Some t \<Rightarrow> and_then (stored_token t) (\<lambda>t. Ok (Some t)))"

definition accept_op ::
  "lease_name \<Rightarrow> i64 \<Rightarrow> coord_db \<Rightarrow> ((unit, port_error) result \<times> coord_db, storage_error) result" where
  "accept_op name accepted db =
     (if is_some_and (\<lambda>t. t > accepted) (coordination_fence db (lease_name_as_str name))
      then Ok (Err Conflict, db)
      else Ok (Ok (), db\<lparr>coordination_fence :=
                 (coordination_fence db)(lease_name_as_str name \<mapsto> accepted)\<rparr>))"

definition fence_accept ::
  "coord_db environment \<Rightarrow> lease_name \<Rightarrow> fencing_token \<Rightarrow> coord_db \<Rightarrow> (unit, port_error) result \<times> coord_db" where
  "fence_accept env name accepted db =
     (case token_stored accepted of
        Inl e \<Rightarrow> (Err e, db)
      | Inr t \<Rightarrow> decide env (accept_op name t) db)"

section \<open>The port and the replica's loop\<close>

record 'c coordination_port =
  cp_acquire :: "lease_name \<Rightarrow> string \<Rightarrow> i64 \<Rightarrow> 'c \<Rightarrow> (acquisition, port_error) result \<times> 'c"
  cp_renew :: "lease \<Rightarrow> i64 \<Rightarrow> 'c \<Rightarrow> (lease option, port_error) result \<times> 'c"
  cp_release :: "lease \<Rightarrow> 'c \<Rightarrow> (unit, port_error) result \<times> 'c"
  cp_now_millis :: "'c \<Rightarrow> (i64, port_error) result"

datatype pass = Ran fencing_token | Standby string | Yielded

record singleton =
  sg_name :: lease_name
  sg_instance :: string
  sg_ttl_millis :: i64
  sg_margin :: safety_margin
  sg_held :: "lease option"

definition singleton_new :: "lease_name \<Rightarrow> string \<Rightarrow> i64 \<Rightarrow> safety_margin \<Rightarrow> singleton" where
  "singleton_new name instance ttl margin =
     \<lparr>sg_name = name, sg_instance = instance, sg_ttl_millis = ttl, sg_margin = margin, sg_held = None\<rparr>"

definition singleton_acquire ::
  "'c coordination_port \<Rightarrow> singleton \<Rightarrow> 'c \<Rightarrow> (pass, port_error) result \<times> singleton \<times> 'c" where
  "singleton_acquire cp sg c =
     (case cp_acquire cp (sg_name sg) (sg_instance sg) (sg_ttl_millis sg) c of
        (Inl e, c') \<Rightarrow> (Err e, sg, c')
      | (Inr (AcquisitionGranted lease), c') \<Rightarrow>
          (Ok (Ran (lease_token lease)), sg\<lparr>sg_held := Some lease\<rparr>, c')
      | (Inr (AcquisitionHeld holder _), c') \<Rightarrow> (Ok (Standby holder), sg, c'))"

definition singleton_standing ::
  "'c coordination_port \<Rightarrow> singleton \<Rightarrow> 'c \<Rightarrow> (pass, port_error) result \<times> singleton \<times> 'c" where
  "singleton_standing cp sg c =
     (case cp_now_millis cp c of
        Inl e \<Rightarrow> (Err e, sg\<lparr>sg_held := None\<rparr>, c)
      | Inr now \<Rightarrow>
          (case sg_held sg of
             None \<Rightarrow> singleton_acquire cp sg c
           | Some lease \<Rightarrow>
               (case standing lease (sg_margin sg) now of
                  Held \<Rightarrow> (Ok (Ran (lease_token lease)), sg, c)
                | Renew \<Rightarrow>
                    (case cp_renew cp lease (sg_ttl_millis sg) c of
                       (Inl e, c') \<Rightarrow> (Err e, sg, c')
                     | (Inr (Some renewed), c') \<Rightarrow>
                         (Ok (Ran (lease_token renewed)), sg\<lparr>sg_held := Some renewed\<rparr>, c')
                     | (Inr None, c') \<Rightarrow> (Ok Yielded, sg\<lparr>sg_held := None\<rparr>, c'))
                | Stop \<Rightarrow> (Ok Yielded, sg\<lparr>sg_held := None\<rparr>, snd (cp_release cp lease c)))))"

definition singleton_run ::
  "'c coordination_port \<Rightarrow> (fencing_token \<Rightarrow> 't) \<Rightarrow> singleton \<Rightarrow> 'c
   \<Rightarrow> (pass \<times> 't option, port_error) result \<times> singleton \<times> 'c" where
  "singleton_run cp work sg c =
     (case singleton_standing cp sg c of
        (r, sg', c') \<Rightarrow>
          (and_then r (\<lambda>p. case p of
             Ran token \<Rightarrow> Ok (Ran token, Some (work token))
           | other \<Rightarrow> Ok (other, None)), sg', c'))"

definition singleton_resign ::
  "'c coordination_port \<Rightarrow> singleton \<Rightarrow> 'c \<Rightarrow> (unit, port_error) result \<times> singleton \<times> 'c" where
  "singleton_resign cp sg c =
     (case sg_held sg of
        None \<Rightarrow> (Ok (), sg, c)
      | Some lease \<Rightarrow>
          (case cp_release cp lease c of (r, c') \<Rightarrow> (r, sg\<lparr>sg_held := None\<rparr>, c')))"

text \<open>The port on storage: other writers' transactions and the ends of its own are \<open>env\<close>.\<close>

definition storage_coordination :: "coord_db environment \<Rightarrow> port_error option \<Rightarrow> coord_db coordination_port" where
  "storage_coordination env clock_down =
     \<lparr>cp_acquire = coord_acquire env clock_down, cp_renew = coord_renew env clock_down,
      cp_release = coord_release env clock_down, cp_now_millis = coord_now clock_down\<rparr>"

section \<open>The contract of a coordination provider\<close>

text \<open>
  \<open>port\<close> is the provider under some circumstances (failures, lost commits); \<open>row\<close> is the lease it
  has recorded under a name, \<open>clock\<close> the time it shows and \<open>tick\<close> the passing of time. Every
  call changes at most the row of its name.
\<close>

locale lease_provider =
  fixes port_of :: "'e \<Rightarrow> 'c coordination_port"
    and ok :: "'c \<Rightarrow> bool"
    and row :: "'c \<Rightarrow> lease_name \<Rightarrow> lease option"
    and clock :: "'c \<Rightarrow> int"
    and tick :: "i64 \<Rightarrow> 'c \<Rightarrow> 'c"
  assumes tick_law: "ok c \<Longrightarrow> ok (tick t c) \<and> row (tick t c) = row c \<and> clock c \<le> clock (tick t c)
      \<and> clock (tick t c) \<le> max (clock c) (int_of t)"
    and acquire_law: "ok c \<Longrightarrow> cp_acquire (port_of e) n i ttl c = (r, c') \<Longrightarrow>
      ok c' \<and> clock c' = clock c \<and> (\<forall>m. m \<noteq> n \<longrightarrow> row c' m = row c m)
      \<and> ((row c' n = row c n \<and> (\<forall>l. r \<noteq> Ok (AcquisitionGranted l)))
         \<or> (\<exists>l. row c' n = Some l \<and> lease_name l = n \<and> lease_instance l = i
              \<and> int_of (lease_expires_at_millis l) \<le> clock c + int_of ttl
              \<and> (\<forall>p. row c n = Some p \<longrightarrow> lease_token p < lease_token l
                   \<and> (int_of (lease_expires_at_millis p) \<le> clock c \<or> lease_instance p = i))
              \<and> (\<forall>g. r = Ok (AcquisitionGranted g) \<longrightarrow> g = l)))"
    and renew_law: "ok c \<Longrightarrow> clock c + int_of ttl \<le> int_of i64_MAX
      \<Longrightarrow> cp_renew (port_of e) h ttl c = (q, c') \<Longrightarrow>
      ok c' \<and> clock c' = clock c \<and> (\<forall>m. m \<noteq> lease_name h \<longrightarrow> row c' m = row c m)
      \<and> ((row c' (lease_name h) = row c (lease_name h) \<and> (\<forall>l. q \<noteq> Ok (Some l)))
         \<or> (\<exists>p l. row c (lease_name h) = Some p \<and> row c' (lease_name h) = Some l
              \<and> lease_name l = lease_name h \<and> lease_instance p = lease_instance h
              \<and> lease_instance l = lease_instance h \<and> lease_token p = lease_token h
              \<and> lease_token l = lease_token h
              \<and> int_of (lease_expires_at_millis l) = clock c + int_of ttl
              \<and> (\<forall>g. q = Ok (Some g) \<longrightarrow> g = l)))"
    and release_law: "ok c \<Longrightarrow> cp_release (port_of e) h c = (u, c') \<Longrightarrow>
      ok c' \<and> clock c' = clock c \<and> (\<forall>m. m \<noteq> lease_name h \<longrightarrow> row c' m = row c m)
      \<and> (row c' (lease_name h) = row c (lease_name h)
         \<or> (\<exists>p l. row c (lease_name h) = Some p \<and> row c' (lease_name h) = Some l
              \<and> lease_instance p = lease_instance h \<and> lease_instance l = lease_instance h
              \<and> lease_token p = lease_token h \<and> lease_token l = lease_token h))"

text \<open>
  A system of replicas over one provider. A pass takes the time the replica read beforehand,
  which may be stale by the time its call is decided.
\<close>

record 'c coord_system =
  sys_store :: 'c
  sys_replica :: "string \<Rightarrow> singleton"

datatype 'e coord_event =
    Ticks i64
  | Passes string "(i64, port_error) result" 'e
  | Resigns string 'e

fun coord_step ::
  "('e \<Rightarrow> 'c coordination_port) \<Rightarrow> (i64 \<Rightarrow> 'c \<Rightarrow> 'c) \<Rightarrow> 'e coord_event \<Rightarrow> 'c coord_system \<Rightarrow> 'c coord_system" where
  "coord_step port_of tick (Ticks t) s = s\<lparr>sys_store := tick t (sys_store s)\<rparr>"
| "coord_step port_of tick (Passes i reading e) s =
     (case singleton_standing ((port_of e)\<lparr>cp_now_millis := (\<lambda>_. reading)\<rparr>) (sys_replica s i) (sys_store s) of
        (_, sg, c) \<Rightarrow> s\<lparr>sys_store := c, sys_replica := (sys_replica s)(i := sg)\<rparr>)"
| "coord_step port_of tick (Resigns i e) s =
     (case singleton_resign (port_of e) (sys_replica s i) (sys_store s) of
        (_, sg, c) \<Rightarrow> s\<lparr>sys_store := c, sys_replica := (sys_replica s)(i := sg)\<rparr>)"

text \<open>Time stays below \<open>horizon\<close> in the events.\<close>

fun ticks_below :: "int \<Rightarrow> 'e coord_event \<Rightarrow> bool" where
  "ticks_below horizon (Ticks t) \<longleftrightarrow> int_of t \<le> horizon"
| "ticks_below horizon _ \<longleftrightarrow> True"

definition fresh_replicas :: "int \<Rightarrow> (string \<Rightarrow> singleton) \<Rightarrow> bool" where
  "fresh_replicas horizon replica \<longleftrightarrow>
     (\<forall>i. sg_instance (replica i) = i \<and> sg_held (replica i) = None
          \<and> horizon + int_of (sg_ttl_millis (replica i)) \<le> int_of i64_MAX)"

context lease_provider begin

text \<open>What a replica's lease says about the provider's row, while others go on.\<close>

definition stands :: "'c \<Rightarrow> string \<Rightarrow> lease \<Rightarrow> bool" where
  "stands c i l \<longleftrightarrow> (\<exists>p. row c (lease_name l) = Some p \<and> lease_token l \<le> lease_token p
     \<and> (lease_token l = lease_token p \<longrightarrow> lease_instance p = i
          \<and> (lease_expires_at_millis l \<le> lease_expires_at_millis p \<or> int_of (lease_expires_at_millis l) \<le> clock c))
     \<and> (lease_token l < lease_token p \<longrightarrow> int_of (lease_expires_at_millis l) \<le> clock c))"

definition holds_well :: "'c \<Rightarrow> string \<Rightarrow> singleton \<Rightarrow> bool" where
  "holds_well c i sg \<longleftrightarrow> sg_instance sg = i \<and> (\<forall>l. sg_held sg = Some l \<longrightarrow>
     lease_instance l = i \<and> lease_name l = sg_name sg
     \<and> int_of (lease_expires_at_millis l) \<le> clock c + int_of (sg_ttl_millis sg) \<and> stands c i l)"

definition exclusive :: "int \<Rightarrow> 'c coord_system \<Rightarrow> bool" where
  "exclusive horizon s \<longleftrightarrow> ok (sys_store s) \<and> clock (sys_store s) \<le> horizon
     \<and> (\<forall>i. holds_well (sys_store s) i (sys_replica s i)
          \<and> horizon + int_of (sg_ttl_millis (sys_replica s i)) \<le> int_of i64_MAX)"

lemma stands_same: "clock c' = clock c \<Longrightarrow> row c' = row c \<Longrightarrow> stands c' i l = stands c i l"
  by (simp add: stands_def)

lemma stands_token:
  "row c (lease_name h) = Some l \<Longrightarrow> lease_token l = lease_token h \<Longrightarrow> lease_instance l = i
   \<Longrightarrow> lease_expires_at_millis h \<le> lease_expires_at_millis l \<Longrightarrow> stands c i h"
  by (simp add: stands_def)

lemma holds_well_none: "sg_instance sg = i \<Longrightarrow> sg_held sg = None \<Longrightarrow> holds_well c i sg"
  by (simp add: holds_well_def)

lemma holds_well_same:
  "holds_well c i sg \<Longrightarrow> clock c' = clock c \<Longrightarrow> row c' = row c \<Longrightarrow> holds_well c' i sg"
  unfolding holds_well_def using stands_same [of c' c] by auto

lemma holds_well_tick:
  assumes "ok c" and "holds_well c i sg"
  shows "holds_well (tick t c) i sg"
proof -
  have "row (tick t c) = row c" "clock c \<le> clock (tick t c)" using tick_law [OF assms(1)] by auto
  then have "stands c i l \<Longrightarrow> stands (tick t c) i l" for l unfolding stands_def by fastforce
  with assms(2) \<open>clock c \<le> clock (tick t c)\<close> show ?thesis by (fastforce simp: holds_well_def)
qed

text \<open>Another instance takes the row over only once it has expired.\<close>

lemma holds_well_taken:
  assumes "holds_well c i sg" and "j \<noteq> i" and "clock c' = clock c"
    and "\<forall>m. m \<noteq> n \<longrightarrow> row c' m = row c m" and "row c' n = Some l"
    and "\<forall>p. row c n = Some p \<longrightarrow> lease_token p < lease_token l
           \<and> (int_of (lease_expires_at_millis p) \<le> clock c \<or> lease_instance p = j)"
  shows "holds_well c' i sg"
proof -
  have "stands c' i h" if h: "sg_held sg = Some h" for h
  proof (cases "lease_name h = n")
    case True
    from assms(1) h True obtain p where p: "row c n = Some p" "lease_token h \<le> lease_token p"
        "lease_token h = lease_token p \<longrightarrow> lease_instance p = i
           \<and> (lease_expires_at_millis h \<le> lease_expires_at_millis p \<or> int_of (lease_expires_at_millis h) \<le> clock c)"
        "lease_token h < lease_token p \<longrightarrow> int_of (lease_expires_at_millis h) \<le> clock c"
      unfolding holds_well_def stands_def by blast
    from assms(6) p(1) have q: "lease_token p < lease_token l"
      "int_of (lease_expires_at_millis p) \<le> clock c \<or> lease_instance p = j" by auto
    have "int_of (lease_expires_at_millis h) \<le> clock c"
      using p(2-4) q(2) assms(2) by (cases "lease_token h = lease_token p") (auto simp: i64_le_iff)
    then show ?thesis using True assms(3,5) p(2) q(1) unfolding stands_def by auto
  next
    case False
    with assms(1,3,4) h show ?thesis unfolding holds_well_def stands_def by auto
  qed
  with assms(1,3) show ?thesis unfolding holds_well_def by auto
qed

text \<open>A row rewritten for its own holder leaves every other replica's view standing.\<close>

lemma holds_well_kept:
  assumes "holds_well c i sg" and "j \<noteq> i" and "clock c' = clock c"
    and "\<forall>m. m \<noteq> n \<longrightarrow> row c' m = row c m" and "row c n = Some p" and "row c' n = Some l"
    and "lease_instance p = j" and "lease_token l = lease_token p"
  shows "holds_well c' i sg"
proof -
  have "stands c' i h" if h: "sg_held sg = Some h" for h
  proof (cases "lease_name h = n")
    case True
    have "stands c i h" using assms(1) h by (simp add: holds_well_def)
    with True assms(2,5,7) have "lease_token h < lease_token p \<and> int_of (lease_expires_at_millis h) \<le> clock c"
      unfolding stands_def by auto
    with True assms(3,6,8) show ?thesis unfolding stands_def by auto
  next
    case False
    with assms(1,3,4) h show ?thesis unfolding holds_well_def stands_def by auto
  qed
  with assms(1,3) show ?thesis unfolding holds_well_def by auto
qed

end

context lease_provider begin

lemma acquire_step:
  assumes "ok c" and "\<forall>i. holds_well c i (rep i)" and "sg_held (rep i) = None"
    and "singleton_acquire cp (rep i) c = (r, sg, c')" and "cp_acquire cp = cp_acquire (port_of e)"
  shows "ok c' \<and> clock c' = clock c \<and> sg_ttl_millis sg = sg_ttl_millis (rep i)
    \<and> holds_well c' i sg \<and> (\<forall>j. j \<noteq> i \<longrightarrow> holds_well c' j (rep j))"
proof -
  let ?n = "sg_name (rep i)" and ?ttl = "sg_ttl_millis (rep i)"
  have inst: "sg_instance (rep i) = i" using assms(2) by (simp add: holds_well_def)
  obtain a where a: "cp_acquire (port_of e) ?n i ?ttl c = (a, c')"
      "sg = (case a of Inr (AcquisitionGranted l) \<Rightarrow> (rep i)\<lparr>sg_held := Some l\<rparr> | _ \<Rightarrow> rep i)"
    using assms(4) unfolding singleton_acquire_def assms(5) inst
    by (auto split: prod.splits sum.splits acquisition.splits)
  note law = acquire_law [OF assms(1) a(1)]
  show ?thesis
  proof (cases "row c' ?n = row c ?n \<and> (\<forall>l. a \<noteq> Ok (AcquisitionGranted l))")
    case True
    then have "row c' = row c" using law by (metis ext)
    moreover have "sg = rep i" using True a(2) by (auto split: sum.splits acquisition.splits)
    ultimately show ?thesis using law assms(2) holds_well_same by metis
  next
    case False
    with law obtain l where l: "row c' ?n = Some l" "lease_name l = ?n" "lease_instance l = i"
        "int_of (lease_expires_at_millis l) \<le> clock c + int_of ?ttl"
        "\<forall>p. row c ?n = Some p \<longrightarrow> lease_token p < lease_token l
           \<and> (int_of (lease_expires_at_millis p) \<le> clock c \<or> lease_instance p = i)"
        "\<forall>g. a = Ok (AcquisitionGranted g) \<longrightarrow> g = l" by blast
    have others: "holds_well c' j (rep j)" if "j \<noteq> i" for j
      using holds_well_taken [of c j "rep j" i c' ?n l] that assms(2) law l(1,5) by auto
    have "sg_held sg = None \<or> sg_held sg = Some l" "sg_name sg = ?n" "sg_instance sg = i" "sg_ttl_millis sg = ?ttl"
      using a(2) l(6) assms(3) inst by (auto split: sum.splits acquisition.splits)
    then have "holds_well c' i sg" using l(1-4) law by (auto simp: holds_well_def stands_def)
    with others law \<open>sg_ttl_millis sg = ?ttl\<close> show ?thesis by blast
  qed
qed

lemma renew_step:
  assumes "ok c" and "\<forall>i. holds_well c i (rep i)" and "sg_held (rep i) = Some h"
    and "clock c + int_of (sg_ttl_millis (rep i)) \<le> int_of i64_MAX"
    and "cp_renew (port_of e) h (sg_ttl_millis (rep i)) c = (q, c')"
    and "sg = (case q of Inr m \<Rightarrow> (rep i)\<lparr>sg_held := m\<rparr> | _ \<Rightarrow> rep i)"
  shows "ok c' \<and> clock c' = clock c \<and> sg_ttl_millis sg = sg_ttl_millis (rep i)
    \<and> holds_well c' i sg \<and> (\<forall>j. j \<noteq> i \<longrightarrow> holds_well c' j (rep j))"
proof -
  let ?n = "lease_name h" and ?ttl = "sg_ttl_millis (rep i)"
  have h: "lease_instance h = i" "sg_instance (rep i) = i" "?n = sg_name (rep i)"
      "int_of (lease_expires_at_millis h) \<le> clock c + int_of ?ttl"
    using assms(2,3) by (simp_all add: holds_well_def)
  note law = renew_law [OF assms(1,4,5)]
  have ttl: "sg_ttl_millis sg = ?ttl" using assms(6) by (auto split: sum.splits)
  show ?thesis
  proof (cases "row c' ?n = row c ?n \<and> (\<forall>l. q \<noteq> Ok (Some l))")
    case True
    then have same: "row c' = row c" using law by (metis ext)
    have "sg_held sg = None \<and> sg_instance sg = i \<or> sg = rep i"
      using True assms(6) h(2) by (auto split: sum.splits option.splits)
    then show ?thesis using law ttl assms(2) same holds_well_same holds_well_none by metis
  next
    case False
    with law obtain p l where l: "row c ?n = Some p" "row c' ?n = Some l" "lease_name l = ?n"
        "lease_instance p = i" "lease_instance l = i" "lease_token p = lease_token h" "lease_token l = lease_token h"
        "int_of (lease_expires_at_millis l) = clock c + int_of ?ttl" "\<forall>g. q = Ok (Some g) \<longrightarrow> g = l"
      unfolding h(1) by blast
    have others: "holds_well c' j (rep j)" if "j \<noteq> i" for j
      using holds_well_kept [of c j "rep j" i c' ?n p l] that assms(2) law l(1,2,4,6,7) by auto
    have "sg_held sg = None \<or> sg_held sg = Some l \<or> sg_held sg = Some h" "sg_name sg = ?n" "sg_instance sg = i"
      using assms(3,6) l(9) h(2,3) by (auto split: sum.splits option.splits)
    moreover have "stands c' i l" "stands c' i h"
      using l(2,3,5,7,8) h(4) by (auto intro: stands_token simp: i64_le_iff)
    ultimately have "holds_well c' i sg"
      using l(3,5,8) h(1,3,4) law ttl unfolding holds_well_def by auto
    with others law ttl show ?thesis by blast
  qed
qed

lemma release_step:
  assumes "ok c" and "\<forall>i. holds_well c i (rep i)" and "sg_held (rep i) = Some h"
    and "cp_release (port_of e) h c = (u, c')"
  shows "ok c' \<and> clock c' = clock c \<and> holds_well c' i ((rep i)\<lparr>sg_held := None\<rparr>)
    \<and> (\<forall>j. j \<noteq> i \<longrightarrow> holds_well c' j (rep j))"
proof -
  have h: "lease_instance h = i" "sg_instance (rep i) = i" using assms(2,3) by (simp_all add: holds_well_def)
  note law = release_law [OF assms(1,4)]
  have "holds_well c' j (rep j)" if "j \<noteq> i" for j
  proof (cases "row c' (lease_name h) = row c (lease_name h)")
    case True
    then have "row c' = row c" using law by (metis ext)
    then show ?thesis using law assms(2) holds_well_same by metis
  next
    case False
    with law obtain p l where "row c (lease_name h) = Some p" "row c' (lease_name h) = Some l"
        "lease_instance p = i" "lease_token p = lease_token h" "lease_token l = lease_token h" unfolding h(1) by blast
    then show ?thesis using holds_well_kept [of c j "rep j" i c' "lease_name h" p l] that assms(2) law by auto
  qed
  with law h(2) show ?thesis by (auto intro: holds_well_none)
qed

end

context lease_provider begin

lemma exclusive_after:
  assumes "exclusive horizon s" and "ok c'" and "clock c' = clock (sys_store s)"
    and "sg_ttl_millis sg = sg_ttl_millis (sys_replica s i)" and "holds_well c' i sg"
    and "\<forall>j. j \<noteq> i \<longrightarrow> holds_well c' j (sys_replica s j)"
  shows "exclusive horizon (s\<lparr>sys_store := c', sys_replica := (sys_replica s)(i := sg)\<rparr>)"
  using assms by (simp add: exclusive_def)

lemma standing_step:
  assumes "exclusive horizon s"
    and "singleton_standing ((port_of e)\<lparr>cp_now_millis := (\<lambda>_. reading)\<rparr>) (sys_replica s i) (sys_store s) = (r, sg, c')"
  shows "exclusive horizon (s\<lparr>sys_store := c', sys_replica := (sys_replica s)(i := sg)\<rparr>)"
proof -
  let ?c = "sys_store s" and ?rep = "sys_replica s"
  have ok: "ok ?c" and hold: "\<forall>i. holds_well ?c i (?rep i)"
    and room: "clock ?c + int_of (sg_ttl_millis (?rep i)) \<le> int_of i64_MAX"
    using assms(1) by (auto simp: exclusive_def dest: spec [of _ i])
  have inst: "sg_instance (?rep i) = i" using hold by (simp add: holds_well_def)
  have quiet: ?thesis if "c' = ?c" "sg = ?rep i \<or> sg = (?rep i)\<lparr>sg_held := None\<rparr>"
    using that inst hold ok by (intro exclusive_after [OF assms(1)]) (auto intro: holds_well_none)
  show ?thesis
  proof (cases reading)
    case (Inl err)
    then show ?thesis using assms(2) by (intro quiet) (auto simp: singleton_standing_def)
  next
    case (Inr now)
    show ?thesis
    proof (cases "sg_held (?rep i)")
      case None
      then have "singleton_acquire ((port_of e)\<lparr>cp_now_millis := (\<lambda>_. reading)\<rparr>) (?rep i) ?c = (r, sg, c')"
        using assms(2) Inr by (simp add: singleton_standing_def)
      from acquire_step [OF ok hold None this] show ?thesis by (intro exclusive_after [OF assms(1)]) auto
    next
      case (Some h)
      show ?thesis
      proof (cases "standing h (sg_margin (?rep i)) now")
        case Held
        then show ?thesis using assms(2) Inr Some by (intro quiet) (auto simp: singleton_standing_def)
      next
        case Renew
        obtain q d where q: "cp_renew (port_of e) h (sg_ttl_millis (?rep i)) ?c = (q, d)" by fastforce
        then have "sg = (case q of Inr m \<Rightarrow> (?rep i)\<lparr>sg_held := m\<rparr> | _ \<Rightarrow> ?rep i)" "c' = d"
          using assms(2) Inr Some Renew by (auto simp: singleton_standing_def split: sum.splits option.splits)
        with renew_step [OF ok hold Some room q] show ?thesis by (intro exclusive_after [OF assms(1)]) auto
      next
        case Stop
        obtain u d where u: "cp_release (port_of e) h ?c = (u, d)" by fastforce
        then have "sg = (?rep i)\<lparr>sg_held := None\<rparr>" "c' = d"
          using assms(2) Inr Some Stop by (auto simp: singleton_standing_def)
        with release_step [OF ok hold Some u] show ?thesis by (intro exclusive_after [OF assms(1)]) auto
      qed
    qed
  qed
qed

lemma resign_step:
  assumes "exclusive horizon s" and "singleton_resign (port_of e) (sys_replica s i) (sys_store s) = (r, sg, c')"
  shows "exclusive horizon (s\<lparr>sys_store := c', sys_replica := (sys_replica s)(i := sg)\<rparr>)"
proof (cases "sg_held (sys_replica s i)")
  case None
  with assms show ?thesis by (auto simp: singleton_resign_def exclusive_def)
next
  case (Some h)
  obtain u d where u: "cp_release (port_of e) h (sys_store s) = (u, d)" by fastforce
  then have sg: "sg = (sys_replica s i)\<lparr>sg_held := None\<rparr>" "c' = d"
    using assms(2) Some by (auto simp: singleton_resign_def)
  have "ok (sys_store s)" "\<forall>i. holds_well (sys_store s) i (sys_replica s i)"
    using assms(1) by (auto simp: exclusive_def)
  from release_step [OF this Some u] show ?thesis unfolding sg by (intro exclusive_after [OF assms(1)]) auto
qed

lemma step_exclusive:
  assumes "exclusive horizon s" and "ticks_below horizon ev"
  shows "exclusive horizon (coord_step port_of tick ev s)"
proof (cases ev)
  case (Ticks t)
  then show ?thesis
    using assms tick_law [of "sys_store s" t] holds_well_tick by (auto simp: exclusive_def)
next
  case (Passes i reading e)
  then show ?thesis using standing_step [OF assms(1)] by (auto split: prod.splits)
next
  case (Resigns i e)
  then show ?thesis using resign_step [OF assms(1)] by (auto split: prod.splits)
qed

lemma run_exclusive:
  "exclusive horizon s \<Longrightarrow> list_all (ticks_below horizon) events
   \<Longrightarrow> exclusive horizon (fold (coord_step port_of tick) events s)"
  by (induction events arbitrary: s) (auto intro: step_exclusive)

lemma exclusive_leases:
  assumes "exclusive horizon s" and "i \<noteq> j" and "sg_held (sys_replica s i) = Some a"
    and "sg_held (sys_replica s j) = Some b" and "lease_name a = lease_name b" and "lease_token a \<le> lease_token b"
  shows "int_of (lease_expires_at_millis a) \<le> clock (sys_store s)"
proof -
  have "stands (sys_store s) i a" "stands (sys_store s) j b"
    using assms(1,3,4) by (auto simp: exclusive_def holds_well_def)
  with assms(2,5,6) show ?thesis unfolding stands_def by fastforce
qed

lemma replicas_exclude:
  assumes "fresh_replicas horizon replica" and "ok c" and "clock c \<le> horizon"
    and "list_all (ticks_below horizon) events"
    and "s = fold (coord_step port_of tick) events \<lparr>sys_store = c, sys_replica = replica\<rparr>"
    and "i \<noteq> j" and "sg_held (sys_replica s i) = Some a" and "sg_held (sys_replica s j) = Some b"
    and "lease_name a = lease_name b" and "lease_token a \<le> lease_token b"
  shows "int_of (lease_expires_at_millis a) \<le> clock (sys_store s)"
proof -
  have "exclusive horizon \<lparr>sys_store = c, sys_replica = replica\<rparr>"
    using assms(1-3) by (auto simp: exclusive_def fresh_replicas_def holds_well_def)
  from run_exclusive [OF this assms(4)] assms(5) have "exclusive horizon s" by simp
  from exclusive_leases [OF this assms(6-10)] show ?thesis .
qed

end

end
