(* ===== verification/Coordination_Store.thy ===== *)
theory Coordination_Store
  imports Coordination
begin

text \<open>
  The storage provider of leases interprets the contract of \<open>Coordination\<close>; the properties of
  leases and fences follow.
\<close>

section \<open>The storage provider keeps the contract\<close>

text \<open>
  The transactions of other replicas are the events between a replica's own, so a call here
  meets only its own failures.
\<close>

definition quiet_coordination :: "(nat \<Rightarrow> trx_end) \<times> port_error option \<Rightarrow> coord_db coordination_port" where
  "quiet_coordination e = storage_coordination (quiet (fst e)) (snd e)"

definition coord_tick :: "i64 \<Rightarrow> coord_db \<Rightarrow> coord_db" where
  "coord_tick t db = db\<lparr>provider_now := max (provider_now db) t\<rparr>"

definition coord_ok :: "coord_db \<Rightarrow> bool" where
  "coord_ok db \<longleftrightarrow> (\<forall>n r. coordination_lease db n = Some r \<longrightarrow> 1 \<le> int_of (lr_token r))"

definition coord_row :: "coord_db \<Rightarrow> lease_name \<Rightarrow> lease option" where
  "coord_row db n =
     (case coordination_lease db (lease_name_as_str n) of
        None \<Rightarrow> None
      | Some r \<Rightarrow> Some \<lparr>lease_name = n, lease_instance = lr_instance r,
                      lease_token = FencingToken (word_of_int (int_of (lr_token r))),
                      lease_acquired_at_millis = lr_acquired_at_millis r,
                      lease_expires_at_millis = lr_expires_at_millis r\<rparr>)"

lemma lease_name_inject: "lease_name_as_str m = lease_name_as_str n \<longleftrightarrow> m = n"
  by (cases m; cases n) simp

lemma coord_row_upd:
  "coord_row (db\<lparr>coordination_lease := (coordination_lease db)(lease_name_as_str n \<mapsto> r)\<rparr>) m
   = (if m = n then coord_row (db\<lparr>coordination_lease := [lease_name_as_str n \<mapsto> r]\<rparr>) n else coord_row db m)"
  by (auto simp: coord_row_def lease_name_inject)

lemma row_lease_Ok:
  assumes "1 \<le> int_of (lr_token r)"
  shows "row_lease n r = Ok \<lparr>lease_name = n, lease_instance = lr_instance r,
      lease_token = FencingToken (word_of_int (int_of (lr_token r))),
      lease_acquired_at_millis = lr_acquired_at_millis r, lease_expires_at_millis = lr_expires_at_millis r\<rparr>"
proof -
  have "int_of (lr_token r) < 2 ^ 64" using int_of_bounds(2) [of "lr_token r"] by simp
  then have "uint (word_of_int (int_of (lr_token r)) :: u64) = int_of (lr_token r)"
    using assms by (simp add: uint_word_of_int)
  then have "(1 :: u64) \<le> word_of_int (int_of (lr_token r))" using assms by (simp add: word_le_def)
  then show ?thesis using assms by (simp add: row_lease_def stored_token_def u64_of_i64_def token_from_stored_def)
qed

lemma coord_row_lease:
  assumes "coord_ok db"
  shows "(case coordination_lease db (lease_name_as_str n) of None \<Rightarrow> Ok None
      | Some r \<Rightarrow> and_then (row_lease n r) (\<lambda>l. Ok (Some l))) = Ok (coord_row db n)"
  using assms row_lease_Ok by (auto simp: coord_ok_def coord_row_def split: option.split)

lemma token_stored_Ok:
  assumes "token_stored t = Ok v"
  shows "int_of v = uint (token_get t)" "FencingToken (word_of_int (int_of v)) = t"
  using assms by (auto simp: token_stored_def result_simps i64_of_u64_Some_iff)

lemma plan_granted:
  assumes "plan_acquisition n current i now ttl = Ok (AcquisitionGranted l)"
  shows "lease_name l = n" "lease_instance l = i" "lease_acquired_at_millis l = now"
    "lease_expires_at_millis l = saturating_add_i64 now ttl" "0 < int_of ttl"
    "\<forall>p. current = Some p \<longrightarrow> lease_token p < lease_token l
       \<and> (lease_expires_at_millis p \<le> now \<or> lease_instance p = i)"
    "current = None \<longrightarrow> lease_token l = token_FIRST"
proof -
  have "token_next t = Ok u \<Longrightarrow> t < u" for t u
    using token.succ_less by (simp add: less_fencing_token_def)
  with assms show "lease_name l = n" "lease_instance l = i" "lease_acquired_at_millis l = now"
    "lease_expires_at_millis l = saturating_add_i64 now ttl" "0 < int_of ttl"
    "\<forall>p. current = Some p \<longrightarrow> lease_token p < lease_token l
       \<and> (lease_expires_at_millis p \<le> now \<or> lease_instance p = i)"
    "current = None \<longrightarrow> lease_token l = token_FIRST"
    by (auto simp: plan_acquisition_def Let_def result_simps split: if_splits option.splits)
qed

lemma acquire_op_granted:
  assumes "coord_ok db" and "acquire_op down n i ttl db = Ok (Ok (AcquisitionGranted l), db')"
  shows "coord_ok db' \<and> provider_now db' = provider_now db \<and> coord_row db' n = Some l
    \<and> (\<forall>m. m \<noteq> n \<longrightarrow> coord_row db' m = coord_row db m)
    \<and> plan_acquisition n (coord_row db n) i (provider_now db) ttl = Ok (AcquisitionGranted l)"
proof -
  from assms obtain v where v: "token_stored (lease_token l) = Ok v"
      "plan_acquisition n (coord_row db n) i (provider_now db) ttl = Ok (AcquisitionGranted l)"
      "db' = db\<lparr>coordination_lease := (coordination_lease db)(lease_name_as_str n \<mapsto>
         \<lparr>lr_instance = lease_instance l, lr_token = v, lr_acquired_at_millis = lease_acquired_at_millis l,
          lr_expires_at_millis = lease_expires_at_millis l\<rparr>)\<rparr>"
    unfolding acquire_op_def coord_row_lease [OF assms(1)] Let_def
    by (auto simp: coord_now_def split: option.splits sum.splits acquisition.splits)
  have "token_get (lease_token l) \<noteq> 0"
  proof (cases "coord_row db n")
    case None
    then show ?thesis using plan_granted(7) [OF v(2)] by (simp add: token_FIRST_def)
  next
    case (Some p)
    then have "token_get (lease_token p) < token_get (lease_token l)"
      using plan_granted(6) [OF v(2)] by (simp add: less_fencing_token_def)
    then show ?thesis by auto
  qed
  then have "0 < uint (token_get (lease_token l))" by (simp add: word_neq_0_conv word_less_def)
  then have "1 \<le> int_of v" using token_stored_Ok(1) [OF v(1)] by simp
  then have "coord_ok db'" using assms(1) unfolding v(3) by (auto simp: coord_ok_def)
  with v token_stored_Ok(2) [OF v(1)] plan_granted(1) [OF v(2)] show ?thesis
    by (simp add: coord_row_upd) (simp add: coord_row_def)
qed

lemma acquire_op_other:
  "acquire_op down n i ttl db = Ok (Ok a, db') \<Longrightarrow> (\<forall>l. a \<noteq> AcquisitionGranted l) \<Longrightarrow> db' = db"
  unfolding acquire_op_def Let_def by (auto split: sum.splits acquisition.splits)

lemma renew_op_cases:
  assumes "coord_ok db" and "renew_op down h v ttl db = Ok (Ok m, db')" and "token_stored (lease_token h) = Ok v"
    and "int_of (provider_now db) + int_of ttl \<le> int_of i64_MAX" and "0 < int_of ttl"
  shows "coord_ok db' \<and> provider_now db' = provider_now db
    \<and> (\<forall>n. n \<noteq> lease_name h \<longrightarrow> coord_row db' n = coord_row db n)
    \<and> (db' = db \<and> m = None
       \<or> (\<exists>p l. coord_row db (lease_name h) = Some p \<and> coord_row db' (lease_name h) = Some l \<and> m = Some l
            \<and> lease_name l = lease_name h \<and> lease_instance p = lease_instance h
            \<and> lease_instance l = lease_instance h \<and> lease_token p = lease_token h
            \<and> lease_token l = lease_token h
            \<and> int_of (lease_expires_at_millis l) = int_of (provider_now db) + int_of ttl))"
proof (cases "db' = db \<and> m = None")
  case False
  let ?n = "lease_name_as_str (lease_name h)" and ?now = "provider_now db"
  from False assms(2) obtain r where row: "coordination_lease db ?n = Some r"
    and not_refused: "\<not> (lr_instance r \<noteq> lease_instance h \<or> lr_token r \<noteq> v \<or> lr_expires_at_millis r \<le> ?now)"
    and now: "coord_now down db = Ok ?now"
    unfolding renew_op_def coord_now_def by (cases down; cases "coordination_lease db ?n") (auto split: if_splits)
  then have r: "coordination_lease db ?n = Some r" "lr_instance r = lease_instance h" "lr_token r = v"
      "and_then (row_lease (lease_name h) (r\<lparr>lr_expires_at_millis := add_i64 ?now ttl\<rparr>)) (\<lambda>l. Ok (Some l)) = Ok m"
      "db' = db\<lparr>coordination_lease := (coordination_lease db)(?n \<mapsto> r\<lparr>lr_expires_at_millis := add_i64 ?now ttl\<rparr>)\<rparr>"
    using assms(2) by (auto simp: renew_op_def Let_def)
  have pos: "1 \<le> int_of (lr_token r)" using assms(1) r(1) by (simp add: coord_ok_def)
  have sum: "int_of (add_i64 ?now ttl) = int_of ?now + int_of ttl"
  proof -
    have "in_i64 (int_of ?now + int_of ttl)"
      using assms(4,5) int_of_bounds(1) [of ?now] int_of_bounds(2) [of i64_MAX] by (simp add: in_i64_def)
    then show ?thesis by (simp add: add_i64_def int_of_I64_in del: int_of_I64)
  qed
  have "coord_ok db'" using assms(1) pos unfolding r(5) by (auto simp: coord_ok_def)
  with r(1-5) pos sum token_stored_Ok(2) [OF assms(3)] show ?thesis
    by (simp add: coord_row_upd row_lease_Ok) (auto simp: coord_row_def)
qed (use assms(1) in auto)

lemma release_op_cases:
  assumes "coord_ok db" and "release_op down h v db = Ok (Ok u, db')" and "token_stored (lease_token h) = Ok v"
  shows "coord_ok db' \<and> provider_now db' = provider_now db
    \<and> (\<forall>n. n \<noteq> lease_name h \<longrightarrow> coord_row db' n = coord_row db n)
    \<and> (coord_row db' (lease_name h) = coord_row db (lease_name h)
       \<or> (\<exists>p l. coord_row db (lease_name h) = Some p \<and> coord_row db' (lease_name h) = Some l
            \<and> lease_instance p = lease_instance h \<and> lease_instance l = lease_instance h
            \<and> lease_token p = lease_token h \<and> lease_token l = lease_token h))"
proof (cases "db' = db")
  case False
  let ?n = "lease_name_as_str (lease_name h)"
  from False assms(2) obtain r where r: "coordination_lease db ?n = Some r"
      "lr_instance r = lease_instance h" "lr_token r = v"
      "db' = db\<lparr>coordination_lease := (coordination_lease db)
         (?n \<mapsto> r\<lparr>lr_expires_at_millis := max (lr_acquired_at_millis r) (provider_now db)\<rparr>)\<rparr>"
    unfolding release_op_def by (auto simp: coord_now_def split: option.splits if_splits sum.splits)
  have "coord_ok db'" using assms(1) r(1) unfolding r(4) by (auto simp: coord_ok_def)
  with r token_stored_Ok(2) [OF assms(3)] show ?thesis
    by (simp add: coord_row_upd) (auto simp: coord_row_def)
qed (use assms(1) in auto)

interpretation storage: lease_provider quiet_coordination coord_ok coord_row "\<lambda>db. int_of (provider_now db)" coord_tick
proof
  fix db t assume "coord_ok db"
  then show "coord_ok (coord_tick t db) \<and> coord_row (coord_tick t db) = coord_row db
      \<and> int_of (provider_now db) \<le> int_of (provider_now (coord_tick t db))
      \<and> int_of (provider_now (coord_tick t db)) \<le> max (int_of (provider_now db)) (int_of t)"
    by (auto simp: coord_tick_def coord_ok_def coord_row_def max_def i64_le_iff split: option.split)
next
  fix db e n i ttl r db'
  assume ok: "coord_ok db" and run: "cp_acquire (quiet_coordination e) n i ttl db = (r, db')"
  have sat: "int_of (saturating_add_i64 now ttl) \<le> int_of now + int_of ttl" if "0 < int_of ttl" for now
    using that int_of_bounds(1) [of now] by (simp add: int_of_saturating_add)
  from run decide_quiet [of "fst e" "acquire_op (snd e) n i ttl" db r db']
  have "db' = db \<and> (\<forall>v. r \<noteq> Ok v) \<or> (\<exists>v. acquire_op (snd e) n i ttl db = Ok (Ok v, db') \<and> (\<forall>w. r = Ok w \<longrightarrow> w = v))"
    by (simp add: quiet_coordination_def storage_coordination_def coord_acquire_def)
  then consider "db' = db" "\<forall>l. r \<noteq> Ok (AcquisitionGranted l)"
    | l where "acquire_op (snd e) n i ttl db = Ok (Ok (AcquisitionGranted l), db')" "\<forall>g. r = Ok (AcquisitionGranted g) \<longrightarrow> g = l"
    using acquire_op_other by (metis acquisition.inject(1))
  then show "coord_ok db' \<and> int_of (provider_now db') = int_of (provider_now db)
      \<and> (\<forall>m. m \<noteq> n \<longrightarrow> coord_row db' m = coord_row db m)
      \<and> ((coord_row db' n = coord_row db n \<and> (\<forall>l. r \<noteq> Ok (AcquisitionGranted l)))
         \<or> (\<exists>l. coord_row db' n = Some l \<and> lease_name l = n \<and> lease_instance l = i
              \<and> int_of (lease_expires_at_millis l) \<le> int_of (provider_now db) + int_of ttl
              \<and> (\<forall>p. coord_row db n = Some p \<longrightarrow> lease_token p < lease_token l
                   \<and> (int_of (lease_expires_at_millis p) \<le> int_of (provider_now db) \<or> lease_instance p = i))
              \<and> (\<forall>g. r = Ok (AcquisitionGranted g) \<longrightarrow> g = l)))"
  proof cases
    case 2
    from acquire_op_granted [OF ok 2(1)] plan_granted [of n "coord_row db n" i "provider_now db" ttl l] 2(2) sat
    show ?thesis by (auto simp: i64_le_iff)
  qed (use ok in simp)
next
  fix db ttl e h q db'
  assume ok: "coord_ok db" and room: "int_of (provider_now db) + int_of ttl \<le> int_of i64_MAX"
    and run: "cp_renew (quiet_coordination e) h ttl db = (q, db')"
  show "coord_ok db' \<and> int_of (provider_now db') = int_of (provider_now db)
      \<and> (\<forall>m. m \<noteq> lease_name h \<longrightarrow> coord_row db' m = coord_row db m)
      \<and> ((coord_row db' (lease_name h) = coord_row db (lease_name h) \<and> (\<forall>l. q \<noteq> Ok (Some l)))
         \<or> (\<exists>p l. coord_row db (lease_name h) = Some p \<and> coord_row db' (lease_name h) = Some l
              \<and> lease_name l = lease_name h \<and> lease_instance p = lease_instance h
              \<and> lease_instance l = lease_instance h \<and> lease_token p = lease_token h
              \<and> lease_token l = lease_token h
              \<and> int_of (lease_expires_at_millis l) = int_of (provider_now db) + int_of ttl
              \<and> (\<forall>g. q = Ok (Some g) \<longrightarrow> g = l)))"
  proof (cases "db' = db \<and> (\<forall>v. q \<noteq> Ok v)")
    case False
    with run obtain v where ttl: "0 < int_of ttl" and v: "token_stored (lease_token h) = Ok v"
        and run': "decide (quiet (fst e)) (renew_op (snd e) h v ttl) db = (q, db')"
      by (auto simp: quiet_coordination_def storage_coordination_def coord_renew_def split: if_splits sum.splits)
    from decide_quiet [OF run'] False obtain m where m: "renew_op (snd e) h v ttl db = Ok (Ok m, db')"
        "\<forall>w. q = Ok w \<longrightarrow> w = m" by blast
    from renew_op_cases [OF ok m(1) v room ttl] m(2) show ?thesis by (auto simp: i64_le_iff)
  qed (use ok in simp)
next
  fix db e h u db'
  assume ok: "coord_ok db" and run: "cp_release (quiet_coordination e) h db = (u, db')"
  show "coord_ok db' \<and> int_of (provider_now db') = int_of (provider_now db)
      \<and> (\<forall>m. m \<noteq> lease_name h \<longrightarrow> coord_row db' m = coord_row db m)
      \<and> (coord_row db' (lease_name h) = coord_row db (lease_name h)
         \<or> (\<exists>p l. coord_row db (lease_name h) = Some p \<and> coord_row db' (lease_name h) = Some l
              \<and> lease_instance p = lease_instance h \<and> lease_instance l = lease_instance h
              \<and> lease_token p = lease_token h \<and> lease_token l = lease_token h))"
  proof (cases "db' = db")
    case False
    with run obtain v where v: "token_stored (lease_token h) = Ok v"
        and run': "decide (quiet (fst e)) (release_op (snd e) h v) db = (u, db')"
      by (auto simp: quiet_coordination_def storage_coordination_def coord_release_def split: if_splits sum.splits)
    from decide_quiet [OF run'] False obtain m where "release_op (snd e) h v db = Ok (Ok m, db')" by blast
    from release_op_cases [OF ok this v] show ?thesis by auto
  qed (use ok in simp)
qed


section \<open>Fences\<close>

text \<open>
  A run of effects offered to a fenced destination, each with the token of its holder and the
  circumstances of its transaction: the results in order, and the fence they leave.
\<close>

fun offer_effects ::
  "lease_name \<Rightarrow> ((nat \<Rightarrow> trx_end) \<times> fencing_token) list \<Rightarrow> coord_db \<Rightarrow> (unit, port_error) result list" where
  "offer_effects name [] db = []"
| "offer_effects name ((ends, token) # rest) db =
     (case fence_accept (quiet ends) name token db of
        (r, db') \<Rightarrow> r # offer_effects name rest db')"

lemma token_stored_less:
  assumes "token_stored a = Ok v" and "token_stored b = Ok w"
  shows "v < w \<longleftrightarrow> a < b" "v \<le> w \<longleftrightarrow> a \<le> b"
  using token_stored_Ok(1) [OF assms(1)] token_stored_Ok(1) [OF assms(2)]
  by (simp_all add: i64_less_iff i64_le_iff less_fencing_token_def less_eq_fencing_token_def word_less_def word_le_def)

lemma fence_accept_cases:
  assumes "fence_accept (quiet ends) name token db = (r, db')"
  shows "db' = db \<and> (\<forall>u. r \<noteq> Ok u)
    \<or> (\<exists>v. token_stored token = Ok v \<and> \<not> is_some_and (\<lambda>t. t > v) (coordination_fence db (lease_name_as_str name))
         \<and> coordination_fence db' (lease_name_as_str name) = Some v)"
proof (cases "token_stored token")
  case (Inr v)
  then have "decide (quiet ends) (accept_op name v) db = (r, db')" using assms by (simp add: fence_accept_def)
  from decide_quiet [OF this] Inr show ?thesis by (auto simp: accept_op_def split: if_splits)
qed (use assms in \<open>auto simp: fence_accept_def\<close>)

lemma offer_effects_above:
  assumes "coordination_fence db (lease_name_as_str name) = Some v" and "k < length effects"
    and "offer_effects name effects db ! k = Ok u"
  shows "\<exists>w. token_stored (snd (effects ! k)) = Ok w \<and> v \<le> w"
  using assms
proof (induction effects arbitrary: db v k)
  case (Cons e effects)
  obtain ends token where e: "e = (ends, token)" by (cases e)
  obtain r db' where run: "fence_accept (quiet ends) name token db = (r, db')" by fastforce
  note cases = fence_accept_cases [OF run]
  show ?case
  proof (cases k)
    case 0
    then show ?thesis using Cons.prems cases e run by (auto simp: is_some_and_iff not_less)
  next
    case (Suc m)
    obtain w where "coordination_fence db' (lease_name_as_str name) = Some w" "v \<le> w"
      using cases Cons.prems(1) by (auto simp: is_some_and_iff not_less)
    with Cons.IH [of db' w m] Cons.prems(2,3) Suc e run show ?thesis by fastforce
  qed
qed simp

lemma offer_effects_length [simp]: "length (offer_effects name effects db) = length effects"
  by (induction name effects db rule: offer_effects.induct) (auto split: prod.splits)

lemma offer_effects_ordered:
  assumes "i < j" and "j < length effects" and "offer_effects name effects db ! i = Ok u"
    and "offer_effects name effects db ! j = Ok w"
  shows "snd (effects ! i) \<le> snd (effects ! j)"
  using assms
proof (induction effects arbitrary: db i j)
  case (Cons e effects)
  obtain ends token where e: "e = (ends, token)" by (cases e)
  obtain r db' where run: "fence_accept (quiet ends) name token db = (r, db')" by fastforce
  obtain m where j: "j = Suc m" using Cons.prems(1) by (cases j) auto
  show ?case
  proof (cases i)
    case 0
    then obtain v where v: "token_stored token = Ok v" "coordination_fence db' (lease_name_as_str name) = Some v"
      using fence_accept_cases [OF run] Cons.prems(3) e run by auto
    from offer_effects_above [OF v(2), of m effects w] Cons.prems(2,4) j e run
    obtain x where "token_stored (snd (effects ! m)) = Ok x" "v \<le> x" by auto
    with v(1) token_stored_less(2) 0 j e show ?thesis by simp
  next
    case (Suc n)
    then show ?thesis using Cons.IH [of n m db'] Cons.prems j e run by simp
  qed
qed simp

section \<open>Properties\<close>

text \<open>
  C7: at most one replica holds a lease that has not expired. After any run of passes,
  resignations and ticks over the storage provider, with failing and lost transactions and stale
  readings of the clock, of two replicas that believe they hold a lease of the same name the one
  with the lower token (or each, where the tokens are equal) holds one that has expired by the
  provider's clock. Time must stay far enough from the end of 64 bits for a renewal not to wrap.
\<close>

theorem one_replica_holds_a_live_lease:
  assumes "fresh_replicas horizon replica" and "coord_ok db" and "int_of (provider_now db) \<le> horizon"
    and "list_all (ticks_below horizon) events"
    and "s = fold (coord_step quiet_coordination coord_tick) events \<lparr>sys_store = db, sys_replica = replica\<rparr>"
    and "i \<noteq> j" and "sg_held (sys_replica s i) = Some a" and "sg_held (sys_replica s j) = Some b"
    and "lease_name a = lease_name b" and "lease_token a \<le> lease_token b"
  shows "int_of (lease_expires_at_millis a) \<le> int_of (provider_now (sys_store s))"
  by (rule storage.replicas_exclude [OF assms])

text \<open>
  C32: an effect of an earlier holder never follows one of a later holder. Of the effects a fenced
  destination accepted, each carries a token at least as great as every one accepted before it.
\<close>

theorem accepted_effects_ordered:
  assumes "i < j" and "j < length effects" and "offer_effects name effects db ! i = Ok ()"
    and "offer_effects name effects db ! j = Ok ()"
  shows "snd (effects ! i) \<le> snd (effects ! j)"
  by (rule offer_effects_ordered [OF assms])

lemma standing_Stop_iff:
  assumes "0 < int_of (margin_millis margin)"
  shows "standing l margin now = Stop \<longleftrightarrow> int_of (lease_expires_at_millis l) \<le> int_of now + int_of (margin_millis margin)"
proof -
  have "saturating_sub_i64 (lease_expires_at_millis l) (margin_millis margin) \<le> now
      \<longleftrightarrow> int_of (lease_expires_at_millis l) - int_of (margin_millis margin) \<le> int_of now"
    using assms int_of_bounds [of now] int_of_bounds(2) [of "lease_expires_at_millis l"]
    by (auto simp: i64_le_iff int_of_saturating_sub)
  then show ?thesis by (auto simp: standing_def Let_def)
qed

text \<open>
  C33: a replica works only while its lease has room. Over any provider, a pass that starts with a
  held lease runs the work only if the time it read is before the expiry by more than the safety
  margin; where it is not, the pass runs nothing, reports that it yielded, and keeps no lease.
\<close>

theorem work_runs_with_room:
  assumes "sg_held sg = Some l" and "0 < int_of (margin_millis (sg_margin sg))" and "cp_now_millis cp c = Ok now"
  shows "(fst (singleton_run cp work sg c) = Ok (Ran t, out)
          \<longrightarrow> int_of now + int_of (margin_millis (sg_margin sg)) < int_of (lease_expires_at_millis l))
    \<and> (int_of (lease_expires_at_millis l) \<le> int_of now + int_of (margin_millis (sg_margin sg))
       \<longrightarrow> fst (singleton_run cp work sg c) = Ok (Yielded, None)
         \<and> sg_held (fst (snd (singleton_run cp work sg c))) = None)"
proof (cases "standing l (sg_margin sg) now = Stop")
  case True
  with assms standing_Stop_iff [OF assms(2), of l now] show ?thesis
    by (simp add: singleton_run_def singleton_standing_def)
next
  case False
  with standing_Stop_iff [OF assms(2), of l now] show ?thesis by simp
qed

lemma token_next_stored:
  assumes "coord_row db n = Some p" and "coordination_lease db (lease_name_as_str n) = Some r" and "coord_ok db"
    and "int_of (lr_token r) < int_of i64_MAX"
  obtains t v where "token_next (lease_token p) = Ok t" "token_stored t = Ok v"
proof -
  let ?k = "int_of (lr_token r)"
  have p: "token_get (lease_token p) = word_of_int ?k" using assms(1,2) by (auto simp: coord_row_def)
  have "1 \<le> ?k" using assms(2,3) by (auto simp: coord_ok_def)
  moreover have max: "?k < 9223372036854775807" using assms(4) by (simp add: i64_MAX_def)
  ultimately have k: "uint (token_get (lease_token p)) = ?k" unfolding p by (simp add: uint_word_of_int)
  then obtain t where t: "token_next (lease_token p) = Ok t" using token.succ_defined [of "lease_token p"] max by auto
  have "uint (token_get t) = ?k + 1" using token.succ_Ok [OF t] k by simp
  then have "token_stored t = Ok (I64 (?k + 1))"
    using max \<open>1 \<le> ?k\<close> by (simp add: token_stored_def i64_of_u64_def checked_i64_def in_i64_def)
  with t that show thesis by blast
qed

text \<open>
  C34: a free or expired lease can be taken. Where nobody holds an unexpired lease of the name and
  the token counter has room, an undisturbed acquisition is granted to the caller, for the time it
  asked from the provider's now.
\<close>

theorem expired_lease_is_available:
  assumes "coord_ok db" and "0 < int_of ttl"
    and "\<And>r. coordination_lease db (lease_name_as_str n) = Some r \<Longrightarrow>
           (lr_expires_at_millis r \<le> provider_now db \<or> lr_instance r = i) \<and> int_of (lr_token r) < int_of i64_MAX"
  shows "\<exists>l db'. coord_acquire calm None n i ttl db = (Ok (AcquisitionGranted l), db')
    \<and> lease_instance l = i \<and> lease_expires_at_millis l = saturating_add_i64 (provider_now db) ttl
    \<and> coord_row db' n = Some l"
proof -
  have "\<exists>l db'. acquire_op None n i ttl db = Ok (Ok (AcquisitionGranted l), db')"
  proof (cases "coordination_lease db (lease_name_as_str n)")
    case None
    moreover have "token_stored token_FIRST = Ok (I64 1)"
      by (simp add: token_stored_def token_FIRST_def i64_of_u64_def checked_i64_def in_i64_def)
    ultimately show ?thesis
      using assms(2) by (simp add: acquire_op_def coord_now_def plan_acquisition_def Let_def)
  next
    case (Some r)
    then obtain p where p: "coord_row db n = Some p" "lease_expires_at_millis p = lr_expires_at_millis r"
        "lease_instance p = lr_instance r" by (auto simp: coord_row_def)
    from token_next_stored [OF p(1) Some assms(1)] assms(3) [OF Some] obtain t v where
      "token_next (lease_token p) = Ok t" "token_stored t = Ok v" by blast
    then show ?thesis
      using assms(2) assms(3) [OF Some] p coord_row_lease [OF assms(1), of n]
      unfolding acquire_op_def Let_def
      by (auto simp: coord_now_def plan_acquisition_def Let_def not_less)
  qed
  then obtain l db' where op: "acquire_op None n i ttl db = Ok (Ok (AcquisitionGranted l), db')" by blast
  then have "coord_acquire calm None n i ttl db = (Ok (AcquisitionGranted l), db')"
    by (simp add: coord_acquire_def decide_calm)
  with acquire_op_granted [OF assms(1) op] plan_granted [of n "coord_row db n" i "provider_now db" ttl l]
  show ?thesis by auto
qed

section \<open>Witnesses\<close>

definition sample_replica :: "string \<Rightarrow> singleton" where
  "sample_replica i = singleton_new (LeaseName ''job'') i (I64 10) (SafetyMargin (I64 2))"

definition empty_coord :: coord_db where
  "empty_coord = \<lparr>provider_now = I64 0, coordination_lease = Map.empty, coordination_fence = Map.empty\<rparr>"

definition sample_lease :: "string \<Rightarrow> u64 \<Rightarrow> int \<Rightarrow> lease" where
  "sample_lease i token at = \<lparr>lease_name = LeaseName ''job'', lease_instance = i, lease_token = FencingToken token,
     lease_acquired_at_millis = I64 at, lease_expires_at_millis = I64 (at + 10)\<rparr>"

lemma small_i64: "- 1000 \<le> x \<Longrightarrow> x \<le> 1000 \<Longrightarrow> int_of (I64 x) = x"
  by simp

lemma token_stored_small: "token_stored (FencingToken 1) = Ok (I64 1)" "token_stored (FencingToken 2) = Ok (I64 2)"
  by (simp_all add: token_stored_def i64_of_u64_def checked_i64_def in_i64_def)

lemma saturating_small:
  "saturating_add_i64 (I64 0) (I64 10) = I64 10" "saturating_add_i64 (I64 11) (I64 10) = I64 21"
  by (simp_all add: saturating_add_i64_def saturate_i64_def in_i64_def)

lemma sample_run:
  "fold (coord_step quiet_coordination coord_tick)
     [Passes ''a'' (Ok (I64 0)) (\<lambda>_. Commits, None), Ticks (I64 11), Passes ''b'' (Ok (I64 11)) (\<lambda>_. Commits, None)]
     \<lparr>sys_store = empty_coord, sys_replica = sample_replica\<rparr>
   = \<lparr>sys_store = \<lparr>provider_now = I64 11, coordination_lease = [''job'' \<mapsto>
        \<lparr>lr_instance = ''b'', lr_token = I64 2, lr_acquired_at_millis = I64 11, lr_expires_at_millis = I64 21\<rparr>],
        coordination_fence = Map.empty\<rparr>,
      sys_replica = sample_replica(''a'' := (sample_replica ''a'')\<lparr>sg_held := Some (sample_lease ''a'' 1 0)\<rparr>,
        ''b'' := (sample_replica ''b'')\<lparr>sg_held := Some (sample_lease ''b'' 2 11)\<rparr>)\<rparr>"
proof -
  have succ_token: "token_next (FencingToken 1) = Ok (FencingToken 2)"
    by (simp add: token_next_def checked_add_def)
  have read: "stored_token (I64 1) = Ok (FencingToken 1)"
    by (simp add: stored_token_def u64_of_i64_def token_from_stored_def)
  have max: "max (I64 0) (I64 11) = I64 11" by (simp add: max_def i64_le_iff)
  note run = singleton_standing_def singleton_acquire_def quiet_coordination_def storage_coordination_def
    coord_acquire_def quiet_commits decide_calm acquire_op_def coord_now_def plan_acquisition_def
    token_FIRST_def token_stored_small saturating_small sample_lease_def succ_token read row_lease_def
    coord_tick_def empty_coord_def sample_replica_def singleton_new_def max
  show ?thesis by (simp add: run fun_upd_twist i64_less_iff)
qed

theorem one_replica_holds_a_live_lease_witness:
  "int_of (lease_expires_at_millis (sample_lease ''a'' 1 0)) \<le> 11"
proof -
  have "fresh_replicas 100 sample_replica"
    by (simp add: fresh_replicas_def sample_replica_def singleton_new_def i64_MAX_def)
  moreover have "coord_ok empty_coord" by (simp add: coord_ok_def empty_coord_def)
  moreover have "int_of (provider_now empty_coord) \<le> 100" by (simp add: empty_coord_def)
  moreover have "list_all (ticks_below 100) [Passes ''a'' (Ok (I64 0)) (\<lambda>_ :: nat. Commits, None :: port_error option),
      Ticks (I64 11), Passes ''b'' (Ok (I64 11)) (\<lambda>_. Commits, None)]" by simp
  moreover note run = sample_run [symmetric]
  ultimately have "int_of (lease_expires_at_millis (sample_lease ''a'' 1 0))
      \<le> int_of (provider_now \<lparr>provider_now = I64 11, coordination_lease = [''job'' \<mapsto>
        \<lparr>lr_instance = ''b'', lr_token = I64 2, lr_acquired_at_millis = I64 11, lr_expires_at_millis = I64 21\<rparr>],
        coordination_fence = Map.empty\<rparr>)"
    using one_replica_holds_a_live_lease [of 100 sample_replica empty_coord _ _ "''a''" "''b''"
        "sample_lease ''a'' 1 0" "sample_lease ''b'' 2 11"]
    by (simp add: sample_lease_def less_eq_fencing_token_def)
  then show ?thesis by simp
qed

theorem accepted_effects_ordered_witness:
  "offer_effects (LeaseName ''job'') [(\<lambda>_. Commits, FencingToken 1), (\<lambda>_. Commits, FencingToken 2)] empty_coord
     = [Ok (), Ok ()] \<and> FencingToken 1 \<le> FencingToken 2"
proof -
  let ?es = "[(\<lambda>_ :: nat. Commits, FencingToken 1), (\<lambda>_. Commits, FencingToken 2)]"
  have run: "offer_effects (LeaseName ''job'') ?es empty_coord = [Ok (), Ok ()]"
    by (simp add: fence_accept_def quiet_commits decide_calm token_stored_small accept_op_def empty_coord_def
        is_some_and_iff i64_less_iff)
  with accepted_effects_ordered [of 0 1 ?es "LeaseName ''job''" empty_coord] show ?thesis by simp
qed

theorem work_runs_with_room_witness:
  "fst (singleton_run (storage_coordination calm None) (\<lambda>t. token_get t)
     ((sample_replica ''a'')\<lparr>sg_held := Some (sample_lease ''a'' 1 (- 9))\<rparr>) empty_coord) = Ok (Yielded, None)"
  using work_runs_with_room [of "(sample_replica ''a'')\<lparr>sg_held := Some (sample_lease ''a'' 1 (- 9))\<rparr>"
      "sample_lease ''a'' 1 (- 9)" "storage_coordination calm None" empty_coord "I64 0", where work = "\<lambda>t. token_get t"]
  by (simp add: sample_replica_def singleton_new_def storage_coordination_def coord_now_def empty_coord_def sample_lease_def)

theorem expired_lease_is_available_witness:
  "\<exists>l db'. coord_acquire calm None (LeaseName ''job'') ''a'' (I64 10) empty_coord = (Ok (AcquisitionGranted l), db')"
  using expired_lease_is_available [of empty_coord "I64 10" "LeaseName ''job''" "''a''"]
  by (auto simp: coord_ok_def empty_coord_def)

end
