(* ===== verification/Realtime.thy ===== *)
theory Realtime
  imports Auto_Store
begin

text \<open>
  Durable realtime events: the rules of \<open>crates/aseman-domain/src/realtime.rs\<close>, the event log,
  checkpoints and outbox on the storage module (\<open>crates/aseman-capsule/src/realtime.rs\<close>), the
  producer of \<open>apps/aseman-node/src/live/topics.rs\<close> and the public subscription of
  \<open>apps/aseman-node/src/transports/http.rs\<close>. The text of a UUID is a parameter.
\<close>

section \<open>The rules\<close>

datatype retention_class = Transient | Standard | Durable

fun retention_millis :: "retention_class \<Rightarrow> i64 option" where
  "retention_millis Transient = Some (I64 (60 * 60 * 1000))"
| "retention_millis Standard = Some (I64 (7 * 24 * 60 * 60 * 1000))"
| "retention_millis Durable = None"

record event =
  event_id :: uuid
  event_stream :: string
  event_creature_id :: uuid
  event_kind :: string
  event_producer :: string
  event_sequence :: u64
  event_at_millis :: i64
  event_payload_digest :: string
  event_retention :: retention_class
  event_version :: string
  event_idempotency_key :: "string option"

record checkpoint =
  cp_consumer :: string
  cp_stream :: string
  cp_sequence :: u64
  cp_at_millis :: i64

datatype realtime_error =
    RealtimeUnknownVersion
  | InvalidStream
  | RealtimeInvalidDigest
  | RealtimeOutOfOrder u64
  | CheckpointWentBackwards

definition accept_append :: "event \<Rightarrow> u64 option \<Rightarrow> (unit, realtime_error) result" where
  "accept_append e last_seq =
     (if event_version e \<noteq> ''1'' then Err RealtimeUnknownVersion
      else if event_stream e = [] \<or> length (event_stream e) > 256 then Err InvalidStream
      else if \<not> sha256_digest (event_payload_digest e) then Err RealtimeInvalidDigest
      else let expected = (case last_seq of None \<Rightarrow> 1 | Some l \<Rightarrow> l + 1) in
        if event_sequence e \<noteq> expected then Err (RealtimeOutOfOrder expected) else Ok ())"

definition accept_checkpoint :: "u64 option \<Rightarrow> u64 \<Rightarrow> (unit, realtime_error) result" where
  "accept_checkpoint current sequence =
     (case current of
        Some c \<Rightarrow> if sequence < c then Err CheckpointWentBackwards else Ok ()
      | None \<Rightarrow> Ok ())"

definition can_replay_from :: "u64 option \<Rightarrow> u64 \<Rightarrow> bool" where
  "can_replay_from oldest_kept sequence = is_none_or (\<lambda>oldest. sequence + 1 \<ge> oldest) oldest_kept"

definition may_deliver :: "event \<Rightarrow> uuid \<Rightarrow> bool" where
  "may_deliver e subscriber_creature \<longleftrightarrow> event_creature_id e = subscriber_creature"

definition is_retained :: "event \<Rightarrow> i64 \<Rightarrow> bool" where
  "is_retained e now =
     (case retention_millis (event_retention e) of
        None \<Rightarrow> True
      | Some window \<Rightarrow> now < saturating_add_i64 (event_at_millis e) window)"

section \<open>The log, the outbox and the checkpoints in storage\<close>

record publication =
  pub_event :: event
  pub_payload :: string

record log_row =
  lg_key :: string
  lg_stream :: string
  lg_sequence :: i64
  lg_creature_id :: string
  lg_event_kind :: string
  lg_producer :: string
  lg_at_millis :: i64
  lg_payload_digest :: string
  lg_retention :: string
  lg_version :: string
  lg_idempotency_key :: "string option"
  lg_payload :: string

record outbox_row =
  ob_claimed_by :: "string option"
  ob_claimed_until_millis :: "i64 option"
  ob_attempts :: i64
  ob_published :: bool

record checkpoint_row =
  cr_consumer :: string
  cr_stream :: string
  cr_sequence :: i64
  cr_at_millis :: i64

text \<open>
  The log's rows stand in the order the provider gives rows that tie in a query's order; the
  two other tables are keyed by their unique column.
\<close>

record realtime_db =
  log_rows :: "log_row list"
  outbox_rows :: "string \<rightharpoonup> outbox_row"
  checkpoint_rows :: "string \<rightharpoonup> checkpoint_row"

definition MAX_ATTEMPTS :: int where
  "MAX_ATTEMPTS = 8"

definition TRANSIENT_MILLIS :: i64 where
  "TRANSIENT_MILLIS = I64 (60 * 60 * 1000)"

definition STANDARD_MILLIS :: i64 where
  "STANDARD_MILLIS = I64 (7 * 24 * 60 * 60 * 1000)"

fun retention_name :: "retention_class \<Rightarrow> string" where
  "retention_name Transient = ''transient''"
| "retention_name Standard = ''standard''"
| "retention_name Durable = ''durable''"

definition retention_class_of :: "string \<Rightarrow> retention_class" where
  "retention_class_of name =
     (if name = ''transient'' then Transient else if name = ''durable'' then Durable else Standard)"

definition signed :: "u64 \<Rightarrow> (i64, storage_error) result" where
  "signed v = ok_or (StorageInvalid TRY_FROM_INT_ERROR) (i64_of_u64 v)"

text \<open>\<open>um\<close> is the message of a text that is not a UUID.\<close>

definition stored_uuid :: "(string \<Rightarrow> uuid option) \<Rightarrow> string \<Rightarrow> string \<Rightarrow> (uuid, storage_error) result" where
  "stored_uuid parse_uuid um t = ok_or (StorageInvalid um) (parse_uuid t)"

definition publication_of ::
  "(string \<Rightarrow> uuid option) \<Rightarrow> string \<Rightarrow> log_row \<Rightarrow> (publication, storage_error) result" where
  "publication_of parse_uuid um row =
     and_then (stored_uuid parse_uuid um (lg_key row)) (\<lambda>i.
     and_then (stored_uuid parse_uuid um (lg_creature_id row)) (\<lambda>creature.
     and_then (ok_or (StorageInvalid TRY_FROM_INT_ERROR) (u64_of_i64 (lg_sequence row))) (\<lambda>sequence.
       Ok \<lparr>pub_event = \<lparr>event_id = i, event_stream = lg_stream row, event_creature_id = creature,
             event_kind = lg_event_kind row, event_producer = lg_producer row, event_sequence = sequence,
             event_at_millis = lg_at_millis row, event_payload_digest = lg_payload_digest row,
             event_retention = retention_class_of (lg_retention row), event_version = lg_version row,
             event_idempotency_key = lg_idempotency_key row\<rparr>,
           pub_payload = lg_payload row\<rparr>)))"

definition stream_rows :: "string \<Rightarrow> realtime_db \<Rightarrow> log_row list" where
  "stream_rows stream db = sort_key lg_sequence (filter (\<lambda>r. lg_stream r = stream) (log_rows db))"

definition last_sequence :: "string \<Rightarrow> realtime_db \<Rightarrow> i64 option" where
  "last_sequence stream db =
     (case stream_rows stream db of [] \<Rightarrow> None | rows \<Rightarrow> Some (lg_sequence (last rows)))"

definition event_row :: "(uuid \<Rightarrow> string) \<Rightarrow> publication \<Rightarrow> i64 \<Rightarrow> log_row" where
  "event_row uuid_text p sequence =
     (let e = pub_event p in
      \<lparr>lg_key = uuid_text (event_id e), lg_stream = event_stream e, lg_sequence = sequence,
       lg_creature_id = uuid_text (event_creature_id e), lg_event_kind = event_kind e,
       lg_producer = event_producer e, lg_at_millis = event_at_millis e,
       lg_payload_digest = event_payload_digest e, lg_retention = retention_name (event_retention e),
       lg_version = event_version e, lg_idempotency_key = event_idempotency_key e,
       lg_payload = pub_payload p\<rparr>)"

text \<open>The unique indexes on the key and on the stream with the sequence.\<close>

definition log_conflict :: "log_row \<Rightarrow> realtime_db \<Rightarrow> bool" where
  "log_conflict row db \<longleftrightarrow> (\<exists>r \<in> set (log_rows db). lg_key r = lg_key row
     \<or> lg_stream r = lg_stream row \<and> lg_sequence r = lg_sequence row)"

definition append_op ::
  "(uuid \<Rightarrow> string) \<Rightarrow> publication \<Rightarrow> realtime_db
   \<Rightarrow> ((unit, port_error) result \<times> realtime_db, storage_error) result" where
  "append_op uuid_text p db =
     (let e = pub_event p; last_seq = last_sequence (event_stream e) db in
      and_then (signed (event_sequence e)) (\<lambda>sequence.
        if sequence \<noteq> (case last_seq of None \<Rightarrow> I64 1 | Some l \<Rightarrow> add_i64 l (I64 1))
        then Ok (Err Conflict, db)
        else let row = event_row uuid_text p sequence in
          if log_conflict row db then Err (StorageConflict ''unique'')
          else if outbox_rows db (lg_key row) \<noteq> None then Err (StorageConflict ''unique'')
          else Ok (Ok (), db\<lparr>log_rows := log_rows db @ [row],
                 outbox_rows := (outbox_rows db)(lg_key row \<mapsto>
                   \<lparr>ob_claimed_by = None, ob_claimed_until_millis = None, ob_attempts = I64 0,
                    ob_published = False\<rparr>)\<rparr>)))"

definition log_append ::
  "(uuid \<Rightarrow> string) \<Rightarrow> realtime_db environment \<Rightarrow> publication \<Rightarrow> realtime_db
   \<Rightarrow> (unit, port_error) result \<times> realtime_db" where
  "log_append uuid_text env p db = decide env (append_op uuid_text p) db"

definition log_read ::
  "(string \<Rightarrow> uuid option) \<Rightarrow> string \<Rightarrow> trx_end \<Rightarrow> string \<Rightarrow> u64 \<Rightarrow> nat \<Rightarrow> realtime_db
   \<Rightarrow> (publication list, port_error) result" where
  "log_read parse_uuid um e stream after limit db =
     map_err port (fst (auto_run e ReadOnly (\<lambda>db.
       and_then (signed after) (\<lambda>a.
       and_then (collect (publication_of parse_uuid um)
           (take (max limit 1) (filter (\<lambda>r. lg_sequence r > a) (stream_rows stream db)))) (\<lambda>ps.
         Ok (ps, db)))) db))"

definition log_bounds ::
  "trx_end \<Rightarrow> string \<Rightarrow> realtime_db \<Rightarrow> (u64 option \<times> u64 option, port_error) result" where
  "log_bounds e stream db =
     map_err port (fst (auto_run e ReadOnly (\<lambda>db.
       let rows = stream_rows stream db in
       Ok ((if rows = [] then None else u64_of_i64 (lg_sequence (last rows)),
            if rows = [] then None else u64_of_i64 (lg_sequence (hd rows))), db)) db))"

definition row_expired :: "i64 \<Rightarrow> log_row \<Rightarrow> bool" where
  "row_expired now r \<longleftrightarrow>
     lg_retention r = ''transient'' \<and> lg_at_millis r < sub_i64 now TRANSIENT_MILLIS
     \<or> lg_retention r = ''standard'' \<and> lg_at_millis r < sub_i64 now STANDARD_MILLIS"

definition purge_op ::
  "i64 \<Rightarrow> realtime_db \<Rightarrow> ((u64, port_error) result \<times> realtime_db, storage_error) result" where
  "purge_op now db =
     (let expired = filter (row_expired now) (log_rows db) in
      if expired = [] then Ok (Ok 0, db)
      else Ok (Ok (of_nat (length expired)),
            db\<lparr>log_rows := filter (\<lambda>r. \<not> row_expired now r) (log_rows db),
               outbox_rows := outbox_rows db |` (- lg_key ` set expired)\<rparr>))"

definition log_purge_expired ::
  "realtime_db environment \<Rightarrow> i64 \<Rightarrow> realtime_db \<Rightarrow> (u64, port_error) result \<times> realtime_db" where
  "log_purge_expired env now db = decide env (purge_op now) db"

subsection \<open>Checkpoints\<close>

definition checkpoint_key :: "string \<Rightarrow> string \<Rightarrow> string" where
  "checkpoint_key consumer stream = consumer @ ''::'' @ stream"

definition checkpoint_read ::
  "trx_end \<Rightarrow> string \<Rightarrow> string \<Rightarrow> realtime_db \<Rightarrow> (checkpoint option, port_error) result" where
  "checkpoint_read e consumer stream db =
     map_err port (fst (auto_run e ReadOnly (\<lambda>db.
       case checkpoint_rows db (checkpoint_key consumer stream) of
         None \<Rightarrow> Ok (None, db)
       | Some row \<Rightarrow>
           and_then (ok_or (StorageInvalid TRY_FROM_INT_ERROR) (u64_of_i64 (cr_sequence row))) (\<lambda>sequence.
             Ok (Some \<lparr>cp_consumer = cr_consumer row, cp_stream = cr_stream row,
                       cp_sequence = sequence, cp_at_millis = cr_at_millis row\<rparr>, db))) db))"

definition record_op ::
  "checkpoint \<Rightarrow> realtime_db \<Rightarrow> ((unit, port_error) result \<times> realtime_db, storage_error) result" where
  "record_op c db =
     (let key = checkpoint_key (cp_consumer c) (cp_stream c) in
      and_then (signed (cp_sequence c)) (\<lambda>sequence.
        case checkpoint_rows db key of
          Some current \<Rightarrow>
            if cr_sequence current > sequence then Ok (Err Conflict, db)
            else Ok (Ok (), db\<lparr>checkpoint_rows := (checkpoint_rows db)(key \<mapsto>
                   current\<lparr>cr_sequence := sequence, cr_at_millis := cp_at_millis c\<rparr>)\<rparr>)
        | None \<Rightarrow> Ok (Ok (), db\<lparr>checkpoint_rows := (checkpoint_rows db)(key \<mapsto>
            \<lparr>cr_consumer = cp_consumer c, cr_stream = cp_stream c, cr_sequence = sequence,
             cr_at_millis = cp_at_millis c\<rparr>)\<rparr>)))"

definition checkpoint_record ::
  "realtime_db environment \<Rightarrow> checkpoint \<Rightarrow> realtime_db \<Rightarrow> (unit, port_error) result \<times> realtime_db" where
  "checkpoint_record env c db = decide env (record_op c) db"

subsection \<open>The outbox\<close>

record claim =
  claim_events :: "publication list"
  claim_until_millis :: i64

definition events_of ::
  "(string \<Rightarrow> uuid option) \<Rightarrow> string \<Rightarrow> string list \<Rightarrow> realtime_db \<Rightarrow> (publication list, storage_error) result" where
  "events_of parse_uuid um ids db =
     (if ids = [] then Ok []
      else collect (publication_of parse_uuid um)
             (sort_key lg_sequence (filter (\<lambda>r. lg_key r \<in> set ids) (log_rows db))))"

definition claimable :: "i64 \<Rightarrow> outbox_row \<Rightarrow> bool" where
  "claimable until row \<longleftrightarrow>
     \<not> ob_published row \<and> int_of (ob_attempts row) < MAX_ATTEMPTS
     \<and> is_none_or (\<lambda>t. t < until) (ob_claimed_until_millis row)"

text \<open>The keys of the outbox in order; a table is finite.\<close>

definition outbox_keys :: "(outbox_row \<Rightarrow> bool) \<Rightarrow> realtime_db \<Rightarrow> string list" where
  "outbox_keys wanted db =
     filter (\<lambda>k. case outbox_rows db k of Some row \<Rightarrow> wanted row | None \<Rightarrow> False)
       (sorted_list_of_set (dom (outbox_rows db)))"

definition claim_entry :: "string \<Rightarrow> i64 \<Rightarrow> string \<Rightarrow> (string \<rightharpoonup> outbox_row) \<Rightarrow> (string \<rightharpoonup> outbox_row)" where
  "claim_entry worker until key rows =
     (case rows key of
        None \<Rightarrow> rows
      | Some row \<Rightarrow> rows(key \<mapsto> row\<lparr>ob_claimed_by := Some worker, ob_claimed_until_millis := Some until,
                                   ob_attempts := add_i64 (ob_attempts row) (I64 1)\<rparr>))"

definition claim_op ::
  "string \<Rightarrow> nat \<Rightarrow> i64 \<Rightarrow> realtime_db
   \<Rightarrow> ((string list, port_error) result \<times> realtime_db, storage_error) result" where
  "claim_op worker limit until db =
     (let keys = take (max limit 1) (outbox_keys (claimable until) db) in
      Ok (Ok keys, db\<lparr>outbox_rows := fold (claim_entry worker until) keys (outbox_rows db)\<rparr>))"

definition outbox_claim ::
  "(string \<Rightarrow> uuid option) \<Rightarrow> string \<Rightarrow> realtime_db environment \<Rightarrow> trx_end \<Rightarrow> string \<Rightarrow> nat \<Rightarrow> i64 \<Rightarrow> realtime_db
   \<Rightarrow> (claim, port_error) result \<times> realtime_db" where
  "outbox_claim parse_uuid um env e worker limit until db =
     (case decide env (claim_op worker limit until) db of
        (Inl err, db') \<Rightarrow> (Err err, db')
      | (Inr keys, db') \<Rightarrow>
          (and_then (map_err port (fst (auto_run e ReadOnly (\<lambda>db.
               and_then (events_of parse_uuid um keys db) (\<lambda>ps. Ok (ps, db))) db'))) (\<lambda>ps.
             Ok \<lparr>claim_events = ps, claim_until_millis = until\<rparr>), db'))"

text \<open>The loop of \<open>complete\<close>; its first refusal ends the transaction.\<close>

fun complete_rows ::
  "string \<Rightarrow> string list \<Rightarrow> (string \<rightharpoonup> outbox_row) \<Rightarrow> (string \<rightharpoonup> outbox_row, port_error) result" where
  "complete_rows worker [] rows = Ok rows"
| "complete_rows worker (key # rest) rows =
     (case rows key of
        None \<Rightarrow> Err Conflict
      | Some row \<Rightarrow>
          if ob_published row \<or> ob_claimed_by row \<noteq> Some worker then Err Conflict
          else complete_rows worker rest (rows(key \<mapsto>
                 row\<lparr>ob_published := True, ob_claimed_by := None, ob_claimed_until_millis := None\<rparr>)))"

definition complete_op ::
  "string \<Rightarrow> string list \<Rightarrow> realtime_db \<Rightarrow> ((unit, port_error) result \<times> realtime_db, storage_error) result" where
  "complete_op worker keys db =
     (case complete_rows worker keys (outbox_rows db) of
        Inl e \<Rightarrow> Ok (Err e, db)
      | Inr rows \<Rightarrow> Ok (Ok (), db\<lparr>outbox_rows := rows\<rparr>))"

definition outbox_complete ::
  "(uuid \<Rightarrow> string) \<Rightarrow> realtime_db environment \<Rightarrow> string \<Rightarrow> uuid list \<Rightarrow> realtime_db
   \<Rightarrow> (unit, port_error) result \<times> realtime_db" where
  "outbox_complete uuid_text env worker ids db =
     (if ids = [] then (Ok (), db) else decide env (complete_op worker (map uuid_text ids)) db)"

fun release_rows :: "string \<Rightarrow> string list \<Rightarrow> (string \<rightharpoonup> outbox_row) \<Rightarrow> (string \<rightharpoonup> outbox_row)" where
  "release_rows worker [] rows = rows"
| "release_rows worker (key # rest) rows =
     release_rows worker rest
       (case rows key of
          Some row \<Rightarrow>
            if ob_claimed_by row = Some worker
            then rows(key \<mapsto> row\<lparr>ob_claimed_by := None, ob_claimed_until_millis := None\<rparr>)
            else rows
        | None \<Rightarrow> rows)"

definition release_outbox_op ::
  "string \<Rightarrow> string list \<Rightarrow> realtime_db \<Rightarrow> ((unit, port_error) result \<times> realtime_db, storage_error) result" where
  "release_outbox_op worker keys db =
     Ok (Ok (), db\<lparr>outbox_rows := release_rows worker keys (outbox_rows db)\<rparr>)"

definition outbox_release ::
  "(uuid \<Rightarrow> string) \<Rightarrow> realtime_db environment \<Rightarrow> string \<Rightarrow> uuid list \<Rightarrow> realtime_db
   \<Rightarrow> (unit, port_error) result \<times> realtime_db" where
  "outbox_release uuid_text env worker ids db =
     (if ids = [] then (Ok (), db) else decide env (release_outbox_op worker (map uuid_text ids)) db)"

definition dead_letters ::
  "(string \<Rightarrow> uuid option) \<Rightarrow> string \<Rightarrow> trx_end \<Rightarrow> nat \<Rightarrow> realtime_db \<Rightarrow> (publication list, port_error) result" where
  "dead_letters parse_uuid um e limit db =
     map_err port (fst (auto_run e ReadOnly (\<lambda>db.
       and_then (events_of parse_uuid um
           (outbox_keys (\<lambda>row. \<not> ob_published row \<and> int_of (ob_attempts row) \<ge> MAX_ATTEMPTS) db) db) (\<lambda>dead.
         Ok (take (max limit 1) (sort_key (\<lambda>p. event_at_millis (pub_event p)) dead), db))) db))"

section \<open>The producer and the subscriber\<close>

text \<open>
  \<open>append_durable\<close>: up to 32 attempts over an event log, each on the bound it reads; the clock of
  each attempt, the payload's bytes and their digest are arguments.
\<close>

record 'l event_log =
  el_append :: "publication \<Rightarrow> 'l \<Rightarrow> (unit, port_error) result \<times> 'l"
  el_bounds :: "string \<Rightarrow> 'l \<Rightarrow> (u64 option \<times> u64 option, port_error) result"
  el_read :: "string \<Rightarrow> u64 \<Rightarrow> nat \<Rightarrow> 'l \<Rightarrow> (publication list, port_error) result"

fun append_attempts ::
  "(nat \<Rightarrow> 'l event_log) \<Rightarrow> (nat \<Rightarrow> i64) \<Rightarrow> string \<Rightarrow> uuid \<Rightarrow> uuid \<Rightarrow> string \<Rightarrow> string \<Rightarrow> string \<Rightarrow> nat list \<Rightarrow> 'l
   \<Rightarrow> (unit, port_error) result \<times> 'l" where
  "append_attempts logs clock topic event creature key payload digest [] l = (Err Conflict, l)"
| "append_attempts logs clock topic event creature key payload digest (n # rest) l =
     (case el_bounds (logs n) topic l of
        Inl e \<Rightarrow> (Err e, l)
      | Inr (latest, _) \<Rightarrow>
          (case el_append (logs n) \<lparr>pub_event = \<lparr>event_id = event, event_stream = topic,
                 event_creature_id = creature, event_kind = key, event_producer = ''guest.bridge.publish'',
                 event_sequence = saturating_add (case latest of None \<Rightarrow> 0 | Some s \<Rightarrow> s) 1,
                 event_at_millis = clock n, event_payload_digest = digest, event_retention = Standard,
                 event_version = ''1'', event_idempotency_key = None\<rparr>, pub_payload = payload\<rparr> l of
             (Inr _, l') \<Rightarrow> (Ok (), l')
           | (Inl Conflict, l') \<Rightarrow>
               append_attempts logs clock topic event creature key payload digest rest l'
           | (Inl e, l') \<Rightarrow> (Err e, l')))"

definition append_durable ::
  "(nat \<Rightarrow> 'l event_log) \<Rightarrow> (nat \<Rightarrow> i64) \<Rightarrow> string \<Rightarrow> uuid \<Rightarrow> uuid \<Rightarrow> string \<Rightarrow> string \<Rightarrow> string \<Rightarrow> 'l
   \<Rightarrow> (unit, port_error) result \<times> 'l" where
  "append_durable logs clock topic event creature key payload digest l =
     (if topic = [] \<or> length topic > 256 then (Err (Failed ''realtime topic must be 1-256 bytes''), l)
      else append_attempts logs clock topic event creature key payload digest [0..<32] l)"

text \<open>
  The public subscription to one stream. A batch carries the publications; the text a frame
  carries on the wire is left out.
\<close>

datatype public_event_batch =
    Resync "u64 option" "u64 option"
  | BatchEvents "publication list"

record public_action_error =
  error_status :: nat
  error_reason :: string

definition public_read ::
  "'l event_log \<Rightarrow> uuid \<Rightarrow> string \<Rightarrow> u64 \<Rightarrow> nat \<Rightarrow> 'l \<Rightarrow> (public_event_batch, public_action_error) result" where
  "public_read log creature stream after limit l =
     and_then (map_err (\<lambda>_. \<lparr>error_status = 503, error_reason = ''realtime_unavailable''\<rparr>)
       (el_bounds log stream l)) (\<lambda>(latest, oldest).
       if \<not> can_replay_from oldest after then Ok (Resync oldest latest)
       else and_then (map_err (\<lambda>_. \<lparr>error_status = 503, error_reason = ''realtime_unavailable''\<rparr>)
              (el_read log stream after limit l)) (\<lambda>publications.
         if list_all (\<lambda>p. may_deliver (pub_event p) creature) publications
         then Ok (BatchEvents publications)
         else Err \<lparr>error_status = 403, error_reason = ''event_scope_denied''\<rparr>))"

definition storage_event_log ::
  "(uuid \<Rightarrow> string) \<Rightarrow> (string \<Rightarrow> uuid option) \<Rightarrow> string \<Rightarrow> realtime_db environment \<Rightarrow> trx_end \<Rightarrow> realtime_db event_log" where
  "storage_event_log uuid_text parse_uuid um env e =
     \<lparr>el_append = log_append uuid_text env, el_bounds = log_bounds e, el_read = log_read parse_uuid um e\<rparr>"

end
