(* ===== verification/Realtime_Log.thy ===== *)
theory Realtime_Log
  imports Realtime
begin

text \<open>
  The contract of an event log (\<open>event_log_laws\<close>), what it gives producers and subscribers, and
  its interpretation on the storage module's log. The invariant \<open>log_ok\<close> relates the log to the
  outbox and is kept by every operation.
\<close>

section \<open>The contract of an event log\<close>

abbreviation pub_sequence :: "publication \<Rightarrow> u64" where
  "pub_sequence p \<equiv> event_sequence (pub_event p)"

locale event_log_laws =
  fixes log_of :: "'e \<Rightarrow> 'l event_log"
    and ok :: "'l \<Rightarrow> bool"
    and stream_of :: "'l \<Rightarrow> string \<Rightarrow> publication list"
  assumes stream_sorted: "ok l \<Longrightarrow> sorted_wrt (<) (map pub_sequence (stream_of l s))"
    and bounds_law: "ok l \<Longrightarrow> el_bounds (log_of e) s l = Ok (latest, oldest) \<Longrightarrow>
      latest = (if stream_of l s = [] then None else Some (pub_sequence (last (stream_of l s))))
      \<and> oldest = (if stream_of l s = [] then None else Some (pub_sequence (hd (stream_of l s))))"
    and append_Ok: "ok l \<Longrightarrow> el_append (log_of e) p l = (Ok (), l') \<Longrightarrow>
      ok l' \<and> stream_of l' (event_stream (pub_event p)) = stream_of l (event_stream (pub_event p)) @ [p]
      \<and> uint (pub_sequence p) = (if stream_of l (event_stream (pub_event p)) = [] then 1
           else uint (pub_sequence (last (stream_of l (event_stream (pub_event p))))) + 1)"
    and append_Conflict: "ok l \<Longrightarrow> el_append (log_of e) p l = (Err Conflict, l') \<Longrightarrow> l' = l"
    and read_law: "ok l \<Longrightarrow> el_read (log_of e) s after limit l = Ok ps \<Longrightarrow>
      ps = take (max limit 1) (filter (\<lambda>p. pub_sequence p > after) (stream_of l s))"
begin

lemma append_attempts_appends:
  assumes "ok l" and "append_attempts (\<lambda>n. log_of (e n)) clock topic event creature key payload digest ns l = (Ok (), l')"
  shows "\<exists>p. ok l' \<and> stream_of l' topic = stream_of l topic @ [p] \<and> pub_payload p = payload
    \<and> event_id (pub_event p) = event \<and> event_creature_id (pub_event p) = creature \<and> event_kind (pub_event p) = key
    \<and> uint (pub_sequence p) = (if stream_of l topic = [] then 1 else uint (pub_sequence (last (stream_of l topic))) + 1)"
  using assms(2)
proof (induction ns)
  case (Cons n ns)
  from Cons.prems obtain latest oldest where b: "el_bounds (log_of (e n)) topic l = Ok (latest, oldest)"
    by (auto split: sum.splits)
  let ?p = "\<lparr>pub_event = \<lparr>event_id = event, event_stream = topic,
                 event_creature_id = creature, event_kind = key, event_producer = ''guest.bridge.publish'',
                 event_sequence = saturating_add (case latest of None \<Rightarrow> 0 | Some s \<Rightarrow> s) 1,
                 event_at_millis = clock n, event_payload_digest = digest, event_retention = Standard,
                 event_version = ''1'', event_idempotency_key = None\<rparr>, pub_payload = payload\<rparr>"
  obtain r m where a: "el_append (log_of (e n)) ?p l = (r, m)" by fastforce
  consider "r = Ok ()" "m = l'" | "r = Err Conflict"
    "append_attempts (\<lambda>n. log_of (e n)) clock topic event creature key payload digest ns m = (Ok (), l')"
    using Cons.prems a b by (auto split: sum.splits port_error.splits)
  then show ?case
  proof cases
    case 1
    with append_Ok [OF assms(1), of "e n" ?p l'] a show ?thesis by (intro exI [of _ ?p]) simp
  next
    case 2
    then have "m = l" using append_Conflict [OF assms(1)] a by blast
    with 2 Cons.IH show ?thesis by simp
  qed
qed simp

text \<open>A subscriber who has everything before the last event is given exactly that event.\<close>

lemma last_event_delivered:
  assumes "ok l" and "stream_of l s = ps @ [p]" and "event_creature_id (pub_event p) = creature"
    and "uint (pub_sequence p) = (if ps = [] then 1 else uint (pub_sequence (last ps)) + 1)"
    and "after = (if ps = [] then 0 else pub_sequence (last ps))"
    and "public_read (log_of e) creature s after limit l = Ok batch"
  shows "batch = BatchEvents [p]"
proof -
  have sorted: "sorted_wrt (<) (map pub_sequence ps)" "\<forall>q \<in> set ps. pub_sequence q < pub_sequence p"
    using stream_sorted [OF assms(1), of s] assms(2) by (auto simp: sorted_wrt_append)
  have after: "uint after + 1 = uint (pub_sequence p)" using assms(4,5) by auto
  have succ: "after + 1 = pub_sequence p" "after < pub_sequence p"
  proof -
    have "after + 1 = word_of_int (uint after + 1)" by simp
    also have "\<dots> = pub_sequence p" unfolding after by simp
    finally show "after + 1 = pub_sequence p" .
    show "after < pub_sequence p" using after by (simp add: word_less_def)
  qed
  have old: "q \<in> set ps \<Longrightarrow> \<not> after < pub_sequence q" for q
    using sorted(1) assms(5) by (cases ps rule: rev_cases) (auto simp: sorted_wrt_append)
  from assms(6) obtain latest oldest where b: "el_bounds (log_of e) s l = Ok (latest, oldest)"
    by (auto simp: public_read_def result_simps)
  have "oldest = Some (pub_sequence (hd (ps @ [p])))" using bounds_law [OF assms(1) b] assms(2) by simp
  moreover have "pub_sequence (hd (ps @ [p])) \<le> pub_sequence p"
    using sorted(2) by (cases ps) (auto intro: less_imp_le)
  ultimately have "can_replay_from oldest after" using succ(1) by (simp add: can_replay_from_def)
  with assms(6) b obtain qs where read: "el_read (log_of e) s after limit l = Ok qs"
      "(if list_all (\<lambda>p. may_deliver (pub_event p) creature) qs then Ok (BatchEvents qs)
        else Err \<lparr>error_status = 403, error_reason = ''event_scope_denied''\<rparr>) = Ok batch"
    by (auto simp: public_read_def result_simps split: if_splits)
  have "filter (\<lambda>p. pub_sequence p > after) ps = []" using old by (auto simp: filter_empty_conv)
  then have "qs = [p]" using read_law [OF assms(1) read(1)] assms(2) succ(2) by simp
  with read(2) assms(3) show ?thesis by (simp add: may_deliver_def)
qed

end

section \<open>The storage log\<close>

definition log_ok :: "(uuid \<Rightarrow> string) \<Rightarrow> realtime_db \<Rightarrow> bool" where
  "log_ok uuid_text db \<longleftrightarrow>
     distinct (map lg_key (log_rows db))
     \<and> distinct (map (\<lambda>r. (lg_stream r, lg_sequence r)) (log_rows db))
     \<and> (\<forall>r \<in> set (log_rows db). \<exists>p v. signed (pub_sequence p) = Ok v \<and> r = event_row uuid_text p v)
     \<and> dom (outbox_rows db) = lg_key ` set (log_rows db)"

definition text_parses :: "(uuid \<Rightarrow> string) \<Rightarrow> (string \<Rightarrow> uuid option) \<Rightarrow> bool" where
  "text_parses uuid_text parse_uuid \<longleftrightarrow> (\<forall>u. parse_uuid (uuid_text u) = Some u)"

definition row_publication :: "(string \<Rightarrow> uuid option) \<Rightarrow> log_row \<Rightarrow> publication" where
  "row_publication parse_uuid r = (case publication_of parse_uuid [] r of Inr p \<Rightarrow> p)"

definition log_stream :: "(string \<Rightarrow> uuid option) \<Rightarrow> realtime_db \<Rightarrow> string \<Rightarrow> publication list" where
  "log_stream parse_uuid db s = map (row_publication parse_uuid) (stream_rows s db)"

lemma signed_Ok_iff: "signed u = Ok v \<longleftrightarrow> int_of v = uint u"
  by (simp add: signed_def result_simps i64_of_u64_Some_iff)

lemma retention_roundtrip: "retention_class_of (retention_name c) = c"
  by (cases c) (simp_all add: retention_class_of_def)

lemma event_row_simps [simp]:
  "lg_key (event_row t p v) = t (event_id (pub_event p))" "lg_stream (event_row t p v) = event_stream (pub_event p)"
  "lg_sequence (event_row t p v) = v"
  by (simp_all add: event_row_def Let_def)

lemma publication_of_event_row:
  assumes "text_parses uuid_text parse_uuid" and "signed (pub_sequence p) = Ok v"
  shows "publication_of parse_uuid um (event_row uuid_text p v) = Ok p"
proof -
  have "u64_of_i64 v = Some (pub_sequence p)"
    using assms(2) by (simp add: signed_Ok_iff u64_of_i64_def)
  then show ?thesis
    using assms(1) by (simp add: publication_of_def event_row_def Let_def stored_uuid_def text_parses_def
        retention_roundtrip)
qed

lemma stream_rows_set: "set (stream_rows s db) = {r \<in> set (log_rows db). lg_stream r = s}"
  by (auto simp: stream_rows_def)

lemma stream_rows_sorted:
  assumes "distinct (map (\<lambda>r. (lg_stream r, lg_sequence r)) (log_rows db))"
  shows "sorted_wrt (<) (map lg_sequence (stream_rows s db))"
proof -
  let ?rows = "filter (\<lambda>r. lg_stream r = s) (log_rows db)"
  have "distinct (map lg_sequence ?rows)"
    using assms by (fastforce simp: distinct_map inj_on_def)
  then have "distinct (map lg_sequence (stream_rows s db))"
    by (simp add: stream_rows_def distinct_map)
  moreover have "sorted (map lg_sequence (stream_rows s db))" by (simp add: stream_rows_def)
  ultimately show ?thesis by (simp add: strict_sorted_iff)
qed

lemma log_ok_rows:
  assumes "log_ok uuid_text db" and "text_parses uuid_text parse_uuid" and "r \<in> set (log_rows db)"
  shows "publication_of parse_uuid um r = Ok (row_publication parse_uuid r)"
    "int_of (lg_sequence r) = uint (pub_sequence (row_publication parse_uuid r))"
    "lg_stream r = event_stream (pub_event (row_publication parse_uuid r))"
proof -
  from assms(1,3) obtain p v where p: "signed (pub_sequence p) = Ok v" "r = event_row uuid_text p v"
    by (auto simp: log_ok_def)
  with publication_of_event_row [OF assms(2) p(1)] signed_Ok_iff
  show "publication_of parse_uuid um r = Ok (row_publication parse_uuid r)"
    "int_of (lg_sequence r) = uint (pub_sequence (row_publication parse_uuid r))"
    "lg_stream r = event_stream (pub_event (row_publication parse_uuid r))"
    by (simp_all add: row_publication_def)
qed

lemma stream_row_sequence:
  assumes "log_ok uuid_text db" and "text_parses uuid_text parse_uuid" and "r \<in> set (stream_rows s db)"
  shows "int_of (lg_sequence r) = uint (pub_sequence (row_publication parse_uuid r))"
  using log_ok_rows(2) [OF assms(1,2)] assms(3) by (simp add: stream_rows_set)

lemma insort_key_before:
  "f a < f x \<Longrightarrow> insort_key f a (ys @ [x]) = insort_key f a ys @ [x]"
  by (induction ys) auto

lemma sort_key_snoc: "\<forall>y \<in> set xs. f y < f x \<Longrightarrow> sort_key f (xs @ [x]) = sort_key f xs @ [x]"
  by (induction xs) (simp_all add: insort_key_before)

lemma append_op_Ok:
  assumes "log_ok uuid_text db" and "append_op uuid_text p db = Ok (Ok (), db')"
  shows "log_ok uuid_text db' \<and> (\<exists>v. signed (pub_sequence p) = Ok v
    \<and> stream_rows (event_stream (pub_event p)) db' = stream_rows (event_stream (pub_event p)) db @ [event_row uuid_text p v]
    \<and> int_of v = (case last_sequence (event_stream (pub_event p)) db of None \<Rightarrow> 1 | Some l \<Rightarrow> int_of l + 1))"
proof -
  let ?s = "event_stream (pub_event p)"
  from assms(2) obtain v where v: "signed (pub_sequence p) = Ok v"
      "v = (case last_sequence ?s db of None \<Rightarrow> I64 1 | Some l \<Rightarrow> add_i64 l (I64 1))"
      "\<not> log_conflict (event_row uuid_text p v) db" "outbox_rows db (uuid_text (event_id (pub_event p))) = None"
      "db' = db\<lparr>log_rows := log_rows db @ [event_row uuid_text p v],
         outbox_rows := (outbox_rows db)(uuid_text (event_id (pub_event p)) \<mapsto>
           \<lparr>ob_claimed_by = None, ob_claimed_until_millis = None, ob_attempts = I64 0, ob_published = False\<rparr>)\<rparr>"
    by (auto simp: append_op_def Let_def result_simps split: if_splits)
  have pos: "0 \<le> int_of v" using v(1) by (simp add: signed_Ok_iff)
  have nxt: "int_of v = (case last_sequence ?s db of None \<Rightarrow> 1 | Some l \<Rightarrow> int_of l + 1)"
  proof (cases "last_sequence ?s db")
    case (Some l)
    then have "v = add_i64 l (I64 1)" using v(2) by simp
    then show ?thesis using Some pos by (auto simp: int_of_add_one split: if_splits)
  qed (use v(2) in simp)
  have above: "lg_sequence r < v" if r: "r \<in> set (stream_rows ?s db)" for r
  proof -
    obtain rs l where rs: "stream_rows ?s db = rs @ [l]" using r by (cases "stream_rows ?s db" rule: rev_cases) auto
    have "sorted_wrt (<) (map lg_sequence (stream_rows ?s db))"
      using stream_rows_sorted assms(1) by (simp add: log_ok_def)
    then have "lg_sequence r \<le> lg_sequence l" using r unfolding rs by (auto simp: sorted_wrt_append intro: less_imp_le)
    moreover have "last_sequence ?s db = Some (lg_sequence l)" using rs by (cases rs) (simp_all add: last_sequence_def)
    ultimately show ?thesis using nxt by (simp add: i64_less_iff i64_le_iff)
  qed
  have rows: "stream_rows ?s db' = stream_rows ?s db @ [event_row uuid_text p v]"
    unfolding v(5) using above by (simp add: stream_rows_def sort_key_snoc)
  have "log_ok uuid_text db'"
    using assms(1) v(1,3,4) unfolding v(5) log_ok_def log_conflict_def by fastforce
  with v(1) rows nxt show ?thesis by blast
qed

text \<open>The circumstances of a call: the ends of its transactions, writing and reading.\<close>

definition quiet_log ::
  "(uuid \<Rightarrow> string) \<Rightarrow> (string \<Rightarrow> uuid option) \<Rightarrow> string \<Rightarrow> (nat \<Rightarrow> trx_end) \<times> trx_end \<Rightarrow> realtime_db event_log" where
  "quiet_log uuid_text parse_uuid um e = storage_event_log uuid_text parse_uuid um (quiet (fst e)) (snd e)"

lemma read_only_Ok:
  "fst (auto_run e ReadOnly operation db) = Ok v \<Longrightarrow> \<exists>db'. operation db = Ok (v, db')"
  by (auto simp: auto_run_def Let_def split: trx_end.splits sum.splits)

lemma log_stream_Nil: "log_stream parse_uuid db s = [] \<longleftrightarrow> stream_rows s db = []"
  by (simp add: log_stream_def)

lemma append_Conflict_unchanged:
  assumes "decide (quiet ends) operation db = (Err Conflict, db')"
  shows "db' = db"
proof (rule ccontr)
  assume "db' \<noteq> db"
  with decide_quiet [OF assms] obtain v where op: "operation db = Ok (Ok v, db')" by blast
  have "decide_attempts (map (quiet ends) ns) operation db = (Err Conflict, db') \<Longrightarrow> db' = db" for ns
    using op by (induction ns) (auto simp: quiet_def Let_def split: trx_end.splits storage_error.splits)
  with assms \<open>db' \<noteq> db\<close> show False by (simp add: decide_def)
qed

interpretation storage_log: event_log_laws "quiet_log uuid_text parse_uuid um"
    "\<lambda>db. log_ok uuid_text db \<and> text_parses uuid_text parse_uuid" "log_stream parse_uuid"
proof
  fix db s
  assume ok: "log_ok uuid_text db \<and> text_parses uuid_text parse_uuid"
  then have "sorted_wrt (<) (map lg_sequence (stream_rows s db))"
    using stream_rows_sorted by (simp add: log_ok_def)
  moreover have "lg_sequence a < lg_sequence b \<longleftrightarrow>
      pub_sequence (row_publication parse_uuid a) < pub_sequence (row_publication parse_uuid b)"
    if "a \<in> set (stream_rows s db)" "b \<in> set (stream_rows s db)" for a b
    using that stream_row_sequence [OF ok [THEN conjunct1] ok [THEN conjunct2]] by (simp add: i64_less_iff word_less_def)
  ultimately show "sorted_wrt (<) (map pub_sequence (log_stream parse_uuid db s))"
    by (simp add: log_stream_def sorted_wrt_map) (metis (mono_tags, lifting) sorted_wrt_mono_rel)
next
  fix db e s latest oldest
  assume ok: "log_ok uuid_text db \<and> text_parses uuid_text parse_uuid"
    and run: "el_bounds (quiet_log uuid_text parse_uuid um e) s db = Ok (latest, oldest)"
  have seq: "u64_of_i64 (lg_sequence r) = Some (pub_sequence (row_publication parse_uuid r))"
    if "r \<in> set (stream_rows s db)" for r
    using that stream_row_sequence [OF ok [THEN conjunct1] ok [THEN conjunct2]] by (simp add: u64_of_i64_def)
  from run have "fst (auto_run (snd e) ReadOnly (\<lambda>db. let rows = stream_rows s db in
       Ok ((if rows = [] then None else u64_of_i64 (lg_sequence (last rows)),
            if rows = [] then None else u64_of_i64 (lg_sequence (hd rows))), db)) db) = Ok (latest, oldest)"
    by (simp add: quiet_log_def storage_event_log_def log_bounds_def result_simps)
  from read_only_Ok [OF this] have
    "latest = (if stream_rows s db = [] then None else u64_of_i64 (lg_sequence (last (stream_rows s db))))"
    "oldest = (if stream_rows s db = [] then None else u64_of_i64 (lg_sequence (hd (stream_rows s db))))"
    by (auto simp: Let_def)
  then show "latest = (if log_stream parse_uuid db s = [] then None else Some (pub_sequence (last (log_stream parse_uuid db s))))
      \<and> oldest = (if log_stream parse_uuid db s = [] then None else Some (pub_sequence (hd (log_stream parse_uuid db s))))"
    using seq by (simp add: log_stream_def last_map hd_map)
next
  fix db e p db'
  assume ok: "log_ok uuid_text db \<and> text_parses uuid_text parse_uuid"
    and run: "el_append (quiet_log uuid_text parse_uuid um e) p db = (Ok (), db')"
  let ?s = "event_stream (pub_event p)"
  from run decide_quiet [of "fst e" "append_op uuid_text p" db "Ok ()" db']
  have "append_op uuid_text p db = Ok (Ok (), db')"
    by (auto simp: quiet_log_def storage_event_log_def log_append_def)
  from append_op_Ok [OF _ this] ok obtain v where v: "log_ok uuid_text db'" "signed (pub_sequence p) = Ok v"
      "stream_rows ?s db' = stream_rows ?s db @ [event_row uuid_text p v]"
      "int_of v = (case last_sequence ?s db of None \<Rightarrow> 1 | Some l \<Rightarrow> int_of l + 1)" by auto
  have "row_publication parse_uuid (event_row uuid_text p v) = p"
    using publication_of_event_row v(2) ok by (simp add: row_publication_def)
  then have stream: "log_stream parse_uuid db' ?s = log_stream parse_uuid db ?s @ [p]"
    using v(3) by (simp add: log_stream_def)
  have "uint (pub_sequence p) = (if stream_rows ?s db = [] then 1 else int_of (lg_sequence (last (stream_rows ?s db))) + 1)"
    using v(2,4) by (auto simp: signed_Ok_iff last_sequence_def split: list.splits)
  then have "uint (pub_sequence p) = (if log_stream parse_uuid db ?s = [] then 1
      else uint (pub_sequence (last (log_stream parse_uuid db ?s))) + 1)"
    using ok stream_row_sequence [of uuid_text db parse_uuid "last (stream_rows ?s db)" ?s]
    by (auto simp: log_stream_def last_map)
  with v(1) ok stream show "(log_ok uuid_text db' \<and> text_parses uuid_text parse_uuid)
      \<and> log_stream parse_uuid db' ?s = log_stream parse_uuid db ?s @ [p]
      \<and> uint (pub_sequence p) = (if log_stream parse_uuid db ?s = [] then 1
           else uint (pub_sequence (last (log_stream parse_uuid db ?s))) + 1)" by simp
next
  fix db e p db'
  assume "el_append (quiet_log uuid_text parse_uuid um e) p db = (Err Conflict, db')"
  then show "db' = db"
    using append_Conflict_unchanged by (auto simp: quiet_log_def storage_event_log_def log_append_def)
next
  fix db e s after limit ps
  assume ok: "log_ok uuid_text db \<and> text_parses uuid_text parse_uuid"
    and run: "el_read (quiet_log uuid_text parse_uuid um e) s after limit db = Ok ps"
  let ?rows = "\<lambda>a. take (max limit 1) (filter (\<lambda>r. lg_sequence r > a) (stream_rows s db))"
  from run read_only_Ok obtain a where a: "signed after = Ok a" "collect (publication_of parse_uuid um) (?rows a) = Ok ps"
    by (fastforce simp: quiet_log_def storage_event_log_def log_read_def result_simps)
  have rows: "set (?rows a) \<subseteq> set (log_rows db)"
    by (auto dest!: in_set_takeD simp: stream_rows_set)
  have "collect (publication_of parse_uuid um) (?rows a) = Ok (map (row_publication parse_uuid) (?rows a))"
    using rows ok log_ok_rows(1) by (intro collect_map) blast
  then have "ps = take (max limit 1) (map (row_publication parse_uuid) (filter (\<lambda>r. lg_sequence r > a) (stream_rows s db)))"
    using a(2) by (simp add: take_map)
  also have "filter (\<lambda>r. lg_sequence r > a) (stream_rows s db)
      = filter (\<lambda>r. pub_sequence (row_publication parse_uuid r) > after) (stream_rows s db)"
    using a(1) stream_row_sequence [OF ok [THEN conjunct1] ok [THEN conjunct2]]
    by (intro filter_cong) (auto simp: signed_Ok_iff i64_less_iff word_less_def)
  finally show "ps = take (max limit 1) (filter (\<lambda>p. pub_sequence p > after) (log_stream parse_uuid db s))"
    by (simp add: log_stream_def filter_map comp_def)
qed

section \<open>Every operation keeps the log and the outbox together\<close>

datatype realtime_op =
    Appends publication
  | Purges i64
  | Claims string nat i64
  | Completes string "uuid list"
  | Releases string "uuid list"
  | Records checkpoint

fun apply_realtime ::
  "(uuid \<Rightarrow> string) \<Rightarrow> (string \<Rightarrow> uuid option) \<Rightarrow> realtime_op \<times> (nat \<Rightarrow> trx_end) \<Rightarrow> realtime_db \<Rightarrow> realtime_db" where
  "apply_realtime uuid_text parse_uuid (Appends p, ends) db = snd (log_append uuid_text (quiet ends) p db)"
| "apply_realtime uuid_text parse_uuid (Purges now, ends) db = snd (log_purge_expired (quiet ends) now db)"
| "apply_realtime uuid_text parse_uuid (Claims worker limit until, ends) db =
     snd (outbox_claim parse_uuid [] (quiet ends) (ends 0) worker limit until db)"
| "apply_realtime uuid_text parse_uuid (Completes worker ids, ends) db =
     snd (outbox_complete uuid_text (quiet ends) worker ids db)"
| "apply_realtime uuid_text parse_uuid (Releases worker ids, ends) db =
     snd (outbox_release uuid_text (quiet ends) worker ids db)"
| "apply_realtime uuid_text parse_uuid (Records c, ends) db = snd (checkpoint_record (quiet ends) c db)"

definition checkpoints_advance :: "realtime_db \<Rightarrow> realtime_db \<Rightarrow> bool" where
  "checkpoints_advance before after \<longleftrightarrow> (\<forall>k row. checkpoint_rows before k = Some row \<longrightarrow>
     (\<exists>row'. checkpoint_rows after k = Some row' \<and> cr_sequence row \<le> cr_sequence row'))"

lemma checkpoints_same: "checkpoint_rows after = checkpoint_rows before \<Longrightarrow> checkpoints_advance before after"
  by (simp add: checkpoints_advance_def)

lemma checkpoints_advance_trans:
  "checkpoints_advance a b \<Longrightarrow> checkpoints_advance b c \<Longrightarrow> checkpoints_advance a c"
  unfolding checkpoints_advance_def by (meson order_trans)

lemma decide_quiet_keeps:
  assumes "I db" and "\<And>v db'. operation db = Ok (Ok v, db') \<Longrightarrow> I db'"
  shows "I (snd (decide (quiet ends) operation db))"
  using decide_quiet [of ends operation db "fst (decide (quiet ends) operation db)" "snd (decide (quiet ends) operation db)"]
    assms by auto

lemma claim_entry_dom: "dom (claim_entry worker until k rows) = dom rows"
  by (auto simp: claim_entry_def split: option.splits)

lemma fold_claim_dom: "dom (fold (claim_entry worker until) ks rows) = dom rows"
  by (induction ks arbitrary: rows) (simp_all add: claim_entry_dom)

lemma complete_rows_dom: "complete_rows worker ks rows = Ok rows' \<Longrightarrow> dom rows' = dom rows"
  by (induction ks arbitrary: rows) (auto split: option.splits if_splits)

lemma release_rows_dom: "dom (release_rows worker ks rows) = dom rows"
  by (induction worker ks rows rule: release_rows.induct) (auto split: option.splits)

lemma log_ok_outbox:
  "log_ok uuid_text db \<Longrightarrow> dom rows = dom (outbox_rows db) \<Longrightarrow> log_ok uuid_text (db\<lparr>outbox_rows := rows\<rparr>)"
  by (simp add: log_ok_def)

lemma purge_op_keeps:
  assumes "log_ok uuid_text db" and "purge_op now db = Ok (Ok n, db')"
  shows "log_ok uuid_text db' \<and> checkpoint_rows db' = checkpoint_rows db
    \<and> log_rows db' = filter (\<lambda>r. \<not> row_expired now r) (log_rows db)"
proof (cases "filter (row_expired now) (log_rows db) = []")
  case True
  then have "filter (\<lambda>r. \<not> row_expired now r) (log_rows db) = log_rows db"
    by (auto simp: filter_empty_conv filter_id_conv)
  with True assms show ?thesis by (simp add: purge_op_def)
next
  case False
  with assms(2) have db': "db' = db\<lparr>log_rows := filter (\<lambda>r. \<not> row_expired now r) (log_rows db),
      outbox_rows := outbox_rows db |` (- lg_key ` set (filter (row_expired now) (log_rows db)))\<rparr>"
    by (simp add: purge_op_def Let_def)
  have "lg_key ` set (log_rows db) - lg_key ` {r \<in> set (log_rows db). row_expired now r}
      = lg_key ` {r \<in> set (log_rows db). \<not> row_expired now r}"
    using assms(1) by (auto simp: log_ok_def distinct_map inj_on_def)
  then show ?thesis using assms(1) unfolding db' log_ok_def
    by (auto simp: distinct_map_filter)
qed

lemma log_ok_checkpoints [simp]: "log_ok uuid_text (db\<lparr>checkpoint_rows := rows\<rparr>) = log_ok uuid_text db"
  by (simp add: log_ok_def)

lemma record_op_keeps:
  assumes "log_ok uuid_text db" and "record_op c db = Ok (Ok u, db')"
  shows "log_ok uuid_text db' \<and> checkpoints_advance db db'"
proof -
  from assms(2) obtain v row where "db' = db\<lparr>checkpoint_rows := (checkpoint_rows db)
        (checkpoint_key (cp_consumer c) (cp_stream c) \<mapsto> row)\<rparr>" "cr_sequence row = v"
      "\<forall>old. checkpoint_rows db (checkpoint_key (cp_consumer c) (cp_stream c)) = Some old \<longrightarrow> cr_sequence old \<le> v"
    by (cases "checkpoint_rows db (checkpoint_key (cp_consumer c) (cp_stream c))")
      (auto simp: record_op_def Let_def result_simps not_less split: if_splits)
  with assms(1) show ?thesis by (auto simp: checkpoints_advance_def)
qed

lemma apply_realtime_keeps:
  assumes "log_ok uuid_text db"
  shows "log_ok uuid_text (apply_realtime uuid_text parse_uuid p db)
    \<and> checkpoints_advance db (apply_realtime uuid_text parse_uuid p db)"
proof -
  let ?I = "\<lambda>db'. log_ok uuid_text db' \<and> checkpoints_advance db db'"
  have start: "?I db" using assms checkpoints_same by blast
  obtain q ends where p: "p = (q, ends)" by (cases p)
  show ?thesis
  proof (cases q)
    case (Appends x)
    have "?I db'" if "append_op uuid_text x db = Ok (Ok v, db')" for v db'
      using append_op_Ok [OF assms] that
      by (auto simp: append_op_def Let_def result_simps intro!: checkpoints_same split: if_splits)
    from decide_quiet_keeps [of ?I db "append_op uuid_text x" ends, OF start this] Appends p show ?thesis by (simp add: log_append_def)
  next
    case (Purges now)
    have "?I db'" if "purge_op now db = Ok (Ok v, db')" for v db'
      using purge_op_keeps [OF assms that] checkpoints_same by blast
    from decide_quiet_keeps [of ?I db "purge_op now" ends, OF start this] Purges p show ?thesis by (simp add: log_purge_expired_def)
  next
    case (Claims worker limit until)
    have "?I db'" if "claim_op worker limit until db = Ok (Ok v, db')" for v db'
      using that log_ok_outbox [OF assms fold_claim_dom] by (auto simp: claim_op_def Let_def intro: checkpoints_same)
    from decide_quiet_keeps [of ?I db "claim_op worker limit until" ends, OF start this] Claims p show ?thesis
      by (auto simp: outbox_claim_def split: prod.splits sum.splits)
  next
    case (Completes worker ids)
    have "?I db'" if "complete_op worker ks db = Ok (Ok v, db')" for ks v db'
      using that log_ok_outbox [OF assms complete_rows_dom]
      by (auto simp: complete_op_def intro: checkpoints_same split: sum.splits)
    from decide_quiet_keeps [of ?I db "complete_op worker (map uuid_text ids)" ends, OF start this] Completes p start show ?thesis by (simp add: outbox_complete_def)
  next
    case (Releases worker ids)
    have "?I db'" if "release_outbox_op worker ks db = Ok (Ok v, db')" for ks v db'
      using that log_ok_outbox [OF assms release_rows_dom] by (auto simp: release_outbox_op_def intro: checkpoints_same)
    from decide_quiet_keeps [of ?I db "release_outbox_op worker (map uuid_text ids)" ends, OF start this] Releases p start show ?thesis by (simp add: outbox_release_def)
  next
    case (Records c)
    have "?I db'" if "record_op c db = Ok (Ok v, db')" for v db'
      using record_op_keeps [OF assms that] .
    from decide_quiet_keeps [of ?I db "record_op c" ends, OF start this] Records p show ?thesis by (simp add: checkpoint_record_def)
  qed
qed

lemma realtime_run_keeps:
  "log_ok uuid_text db \<Longrightarrow> log_ok uuid_text (fold (apply_realtime uuid_text parse_uuid) ps db)
    \<and> checkpoints_advance db (fold (apply_realtime uuid_text parse_uuid) ps db)"
proof (induction ps arbitrary: db)
  case (Cons p ps)
  then show ?case using apply_realtime_keeps [of uuid_text db parse_uuid p] checkpoints_advance_trans by fastforce
qed (simp add: checkpoints_same)

section \<open>Properties\<close>

text \<open>
  C35: the log and its outbox stay together, and checkpoints never move back. After any sequence of
  appends, purges, claims, completions, releases and recorded checkpoints, with failing and lost
  transactions, the keys of the log and its sequences within a stream are distinct, exactly the
  events of the log have an outbox entry, and every consumer is at least as far as it was.
\<close>

theorem log_and_outbox_agree:
  assumes "log_ok uuid_text db"
  shows "log_ok uuid_text (fold (apply_realtime uuid_text parse_uuid) ops db)
    \<and> checkpoints_advance db (fold (apply_realtime uuid_text parse_uuid) ops db)"
  by (rule realtime_run_keeps [OF assms])

text \<open>
  C14: what a producer published reaches a subscriber that is up to date. When the producer's retry
  loop reports success on the storage log, a subscriber of the creature whose position is the last
  event before it is given exactly that event, with its payload; no resynchronisation is asked.
\<close>

theorem published_event_delivered:
  assumes "log_ok uuid_text db" and "text_parses uuid_text parse_uuid"
    and "append_durable (\<lambda>n. quiet_log uuid_text parse_uuid um (e n)) clock topic event creature key payload digest db
           = (Ok (), db')"
    and "public_read (quiet_log uuid_text parse_uuid um e') creature topic
           (if log_stream parse_uuid db topic = [] then 0 else pub_sequence (last (log_stream parse_uuid db topic)))
           limit db' = Ok batch"
  shows "\<exists>p. batch = BatchEvents [p] \<and> event_id (pub_event p) = event \<and> event_kind (pub_event p) = key
    \<and> pub_payload p = payload"
proof -
  have run: "append_attempts (\<lambda>n. quiet_log uuid_text parse_uuid um (e n)) clock topic event creature key payload digest
      [0..<32] db = (Ok (), db')"
    using assms(3) by (simp add: append_durable_def split: if_splits)
  have ok: "log_ok uuid_text db \<and> text_parses uuid_text parse_uuid" using assms(1,2) by simp
  from storage_log.append_attempts_appends [OF ok run] obtain p where
    p: "log_ok uuid_text db' \<and> text_parses uuid_text parse_uuid"
      "log_stream parse_uuid db' topic = log_stream parse_uuid db topic @ [p]" "pub_payload p = payload"
      "event_id (pub_event p) = event" "event_creature_id (pub_event p) = creature" "event_kind (pub_event p) = key"
      "uint (pub_sequence p) = (if log_stream parse_uuid db topic = [] then 1
         else uint (pub_sequence (last (log_stream parse_uuid db topic))) + 1)" by blast
  from storage_log.last_event_delivered [OF p(1,2,5,7) refl assms(4)] p(3,4,6) show ?thesis by blast
qed

subsection \<open>A purged stream starts again\<close>

lemma read_commits: "fst (auto_run Commits ReadOnly operation db) = map_err id (and_then (operation db) (\<lambda>v. Ok (fst v)))"
  by (auto simp: auto_run_def Let_def split: sum.split prod.split) 

lemma append_first:
  assumes "log_ok uuid_text db" and "stream_rows topic db = []"
    and "\<forall>r \<in> set (log_rows db). lg_key r \<noteq> uuid_text (event_id (pub_event p))"
    and "event_stream (pub_event p) = topic" and "pub_sequence p = 1"
  shows "\<exists>db'. append_op uuid_text p db = Ok (Ok (), db')"
proof -
  have "signed (pub_sequence p) = Ok (I64 1)" by (simp add: signed_Ok_iff assms(5))
  moreover have "last_sequence topic db = None" using assms(2) by (simp add: last_sequence_def)
  moreover have "\<not> log_conflict (event_row uuid_text p (I64 1)) db"
    using assms(2,3,4) stream_rows_set [of topic db] by (auto simp: log_conflict_def)
  moreover have "uuid_text (event_id (pub_event p)) \<notin> dom (outbox_rows db)"
    using assms(1,3) by (auto simp: log_ok_def)
  then have "outbox_rows db (uuid_text (event_id (pub_event p))) = None" by blast
  ultimately show ?thesis using assms(4) by (simp add: append_op_def Let_def)
qed

text \<open>
  C36: a stream whose events have all been purged starts again at 1, and a subscriber further along
  is told nothing. Where the retention of every event of a stream has passed, a purge followed by
  the next publication leaves the stream with that single event, numbered 1; a subscriber whose
  position is any later number is given an empty batch instead of the event or a resynchronisation.
\<close>

theorem purged_stream_restarts:
  assumes "log_ok uuid_text db" and "text_parses uuid_text parse_uuid"
    and "\<And>r. r \<in> set (stream_rows topic db) \<Longrightarrow> row_expired now r"
    and "\<And>r. r \<in> set (log_rows db) \<Longrightarrow> lg_key r \<noteq> uuid_text event"
    and "topic \<noteq> []" and "length topic \<le> 256" and "1 \<le> after" and "signed after = Ok a"
    and log_def: "log = quiet_log uuid_text parse_uuid um (\<lambda>_. Commits, Commits)"
  shows "\<exists>n db1 db2 p. log_purge_expired calm now db = (Ok n, db1)
    \<and> append_durable (\<lambda>_. log) clock topic event creature key payload digest db1 = (Ok (), db2)
    \<and> log_stream parse_uuid db2 topic = [p] \<and> pub_sequence p = 1
    \<and> public_read log creature topic after limit db2 = Ok (BatchEvents [])"
proof -
  obtain n db1 where purge: "purge_op now db = Ok (Ok n, db1)"
    by (cases "filter (row_expired now) (log_rows db) = []") (simp_all add: purge_op_def Let_def)
  then have purged: "log_purge_expired calm now db = (Ok n, db1)" by (simp add: log_purge_expired_def decide_calm)
  have db1: "log_ok uuid_text db1" "log_rows db1 = filter (\<lambda>r. \<not> row_expired now r) (log_rows db)"
    using purge_op_keeps [OF assms(1) purge] by auto
  have empty: "stream_rows topic db1 = []"
  proof -
    have "set (stream_rows topic db1) = {}"
      using assms(3) stream_rows_set [of topic db] db1(2) by (auto simp: stream_rows_set)
    then show ?thesis by simp
  qed
  let ?p = "\<lparr>pub_event = \<lparr>event_id = event, event_stream = topic,
       event_creature_id = creature, event_kind = key, event_producer = ''guest.bridge.publish'',
       event_sequence = saturating_add 0 1, event_at_millis = clock 0, event_payload_digest = digest,
       event_retention = Standard, event_version = ''1'', event_idempotency_key = None\<rparr>, pub_payload = payload\<rparr>"
  have one: "saturating_add 0 1 = (1 :: u64)" by (simp add: saturating_add_def)
  from append_first [OF db1(1) empty, of ?p] assms(4) db1(2) one
  obtain db2 where op: "append_op uuid_text ?p db1 = Ok (Ok (), db2)" by auto
  have bounds: "el_bounds log topic db1 = Ok (None, None)"
    unfolding log_def quiet_log_def storage_event_log_def log_bounds_def
    by (simp add: read_commits Let_def empty)
  have "el_append log ?p db1 = (Ok (), db2)"
    unfolding log_def quiet_log_def storage_event_log_def log_append_def by (simp add: quiet_commits decide_calm op)
  then have appended: "append_durable (\<lambda>_. log) clock topic event creature key payload digest db1 = (Ok (), db2)"
    using assms(5,6) bounds by (simp add: append_durable_def upt_conv_Cons)
  from append_op_Ok [OF db1(1) op] obtain v where v: "log_ok uuid_text db2" "signed (saturating_add 0 1) = Ok v"
      "stream_rows topic db2 = [event_row uuid_text ?p v]" using empty by auto
  then have v1: "v = I64 1" by (simp add: one signed_Ok_iff i64_eq_iff)
  have "row_publication parse_uuid (event_row uuid_text ?p v) = ?p"
    using publication_of_event_row [OF assms(2), of ?p v] v(2) by (simp add: row_publication_def)
  then have stream: "log_stream parse_uuid db2 topic = [?p]" using v(3) by (simp add: log_stream_def)
  have "el_bounds log topic db2 = Ok (Some 1, Some 1)"
    unfolding log_def quiet_log_def storage_event_log_def log_bounds_def
    by (simp add: read_commits Let_def v(3) v1 u64_of_i64_def)
  moreover have "\<not> I64 1 > a" using assms(7,8) by (simp add: signed_Ok_iff i64_less_iff word_le_def)
  then have "el_read log topic after limit db2 = Ok []"
    unfolding log_def quiet_log_def storage_event_log_def log_read_def
    by (simp add: read_commits v(3) v1 assms(8))
  moreover have "can_replay_from (Some 1) after"
  proof -
    have "uint after + 1 < 2 ^ 64" using assms(8) int_of_bounds(2) [of a] by (simp add: signed_Ok_iff)
    then have "uint (after + 1) = uint after + 1" using uint_add_lem [of after 1] by simp
    then show ?thesis by (simp add: can_replay_from_def word_le_def)
  qed
  ultimately have "public_read log creature topic after limit db2 = Ok (BatchEvents [])" by (simp add: public_read_def)
  with purged appended stream one show ?thesis by (intro exI [of _ n] exI [of _ db1] exI [of _ db2] exI [of _ ?p]) simp
qed

text \<open>A worker takes an entry whose claim by another worker has not run out.\<close>

lemma unexpired_claim_is_taken:
  assumes "outbox_rows db k = Some row" and "dom (outbox_rows db) = {k}" and "claimable until row"
    and "ob_claimed_by row = Some other" and "ob_claimed_until_millis row = Some t"
  shows "claim_op worker 1 until db = Ok (Ok [k], db\<lparr>outbox_rows := (outbox_rows db)(k \<mapsto>
      row\<lparr>ob_claimed_by := Some worker, ob_claimed_until_millis := Some until,
          ob_attempts := add_i64 (ob_attempts row) (I64 1)\<rparr>)\<rparr>)"
  using assms by (simp add: claim_op_def outbox_keys_def claim_entry_def)

section \<open>Witnesses\<close>

definition unary_text :: "uuid \<Rightarrow> string" where
  "unary_text u = replicate (unat u) CHR ''x''"

definition unary_parse :: "string \<Rightarrow> uuid option" where
  "unary_parse t = Some (of_nat (length t))"

lemma unary_text_parses: "text_parses unary_text unary_parse"
  by (simp add: text_parses_def unary_text_def unary_parse_def)

definition empty_realtime :: realtime_db where
  "empty_realtime = \<lparr>log_rows = [], outbox_rows = Map.empty, checkpoint_rows = Map.empty\<rparr>"

lemma empty_realtime_ok: "log_ok t empty_realtime"
  by (simp add: log_ok_def empty_realtime_def)

text \<open>A store with a stream of two transient events of time 0, claimed by a worker, and a consumer at the first.\<close>

definition old_publication :: "uuid \<Rightarrow> u64 \<Rightarrow> publication" where
  "old_publication i n = \<lparr>pub_event = \<lparr>event_id = i, event_stream = ''s'', event_creature_id = 2,
     event_kind = ''k'', event_producer = ''p'', event_sequence = n, event_at_millis = I64 0,
     event_payload_digest = ''d'', event_retention = Transient, event_version = ''1'',
     event_idempotency_key = None\<rparr>, pub_payload = ''old''\<rparr>"

definition aged_realtime :: realtime_db where
  "aged_realtime = \<lparr>
     log_rows = [event_row unary_text (old_publication 1 1) (I64 1), event_row unary_text (old_publication 2 2) (I64 2)],
     outbox_rows = (\<lambda>k. if k \<in> {''x'', ''xx''} then Some \<lparr>ob_claimed_by = Some ''w'',
       ob_claimed_until_millis = Some (I64 5), ob_attempts = I64 1, ob_published = False\<rparr> else None),
     checkpoint_rows = [''c::s'' \<mapsto> \<lparr>cr_consumer = ''c'', cr_stream = ''s'', cr_sequence = I64 1, cr_at_millis = I64 0\<rparr>]\<rparr>"

lemma old_publication_simps [simp]:
  "event_id (pub_event (old_publication i n)) = i" "event_stream (pub_event (old_publication i n)) = ''s''"
  "pub_sequence (old_publication i n) = n"
  by (simp_all add: old_publication_def)

lemma aged_rows:
  "lg_key (event_row unary_text (old_publication i n) v) = unary_text i"
  "lg_stream (event_row unary_text (old_publication i n) v) = ''s''"
  "lg_sequence (event_row unary_text (old_publication i n) v) = v"
  "row_expired now (event_row unary_text (old_publication i n) v) \<longleftrightarrow> I64 0 < sub_i64 now TRANSIENT_MILLIS"
  by (simp_all add: event_row_def old_publication_def row_expired_def)

lemma unary_keys: "unary_text 1 = ''x''" "unary_text 2 = ''xx''" "unary_text 3 = ''xxx''"
proof -
  have "unat (2 :: uuid) = Suc (Suc 0)" "unat (3 :: uuid) = Suc (Suc (Suc 0))" by simp_all
  then show "unary_text 1 = ''x''" "unary_text 2 = ''xx''" "unary_text 3 = ''xxx''"
    by (simp_all only: unary_text_def unat_1 replicate.simps One_nat_def)
qed

lemma aged_realtime_ok: "log_ok unary_text aged_realtime"
proof -
  have "\<exists>p v. signed (pub_sequence p) = Ok v \<and> event_row unary_text (old_publication i n) w = event_row unary_text p v"
    if "signed n = Ok w" for i n w
    using that by (intro exI [of _ "old_publication i n"] exI [of _ w]) (simp add: old_publication_def)
  moreover have "signed 1 = Ok (I64 1)" "signed 2 = Ok (I64 2)" by (simp_all add: signed_Ok_iff)
  ultimately show ?thesis
    by (auto simp: log_ok_def aged_realtime_def aged_rows unary_keys i64_eq_iff dom_def)
qed

lemma aged_expired: "row_expired (I64 3600001) (event_row unary_text (old_publication i n) v)"
  by (simp add: aged_rows TRANSIENT_MILLIS_def sub_i64_def i64_less_iff)

theorem log_and_outbox_agree_witness:
  "\<exists>db. db = fold (apply_realtime unary_text unary_parse)
       [(Completes ''w'' [1], \<lambda>_. Commits), (Purges (I64 3600001), \<lambda>_. Commits), (Claims ''v'' 3 (I64 9), \<lambda>_. CommitLost [])]
       aged_realtime
     \<and> log_ok unary_text db \<and> checkpoints_advance aged_realtime db \<and> checkpoint_rows db ''c::s'' \<noteq> None"
proof -
  define ops where "ops = [(Completes ''w'' [1], \<lambda>_ :: nat. Commits), (Purges (I64 3600001), \<lambda>_. Commits),
    (Claims ''v'' 3 (I64 9), \<lambda>_. CommitLost [])]"
  have "checkpoint_rows aged_realtime ''c::s'' \<noteq> None" by (simp add: aged_realtime_def)
  with log_and_outbox_agree [OF aged_realtime_ok, of unary_parse ops] show ?thesis
    unfolding ops_def checkpoints_advance_def by fastforce
qed

theorem purged_stream_restarts_witness:
  "\<exists>db1 db2 p. log_stream unary_parse aged_realtime ''s'' = [old_publication 1 1, old_publication 2 2]
     \<and> log_purge_expired calm (I64 3600001) aged_realtime = (Ok 2, db1)
     \<and> append_durable (\<lambda>_. quiet_log unary_text unary_parse [] (\<lambda>_. Commits, Commits)) (\<lambda>_. I64 3600002) ''s'' 3 2
         ''k'' ''new'' ''d'' db1 = (Ok (), db2)
     \<and> log_stream unary_parse db2 ''s'' = [p] \<and> pub_sequence p = 1
     \<and> public_read (quiet_log unary_text unary_parse [] (\<lambda>_. Commits, Commits)) 2 ''s'' 2 10 db2 = Ok (BatchEvents [])"
proof -
  have seq: "signed 1 = Ok (I64 1)" "signed 2 = Ok (I64 2)" by (simp_all add: signed_Ok_iff)
  have rows: "stream_rows ''s'' aged_realtime =
      [event_row unary_text (old_publication 1 1) (I64 1), event_row unary_text (old_publication 2 2) (I64 2)]"
    by (simp add: stream_rows_def aged_realtime_def aged_rows i64_le_iff)
  have stream: "log_stream unary_parse aged_realtime ''s'' = [old_publication 1 1, old_publication 2 2]"
    using publication_of_event_row [OF unary_text_parses, of "old_publication 1 1" "I64 1"] seq
      publication_of_event_row [OF unary_text_parses, of "old_publication 2 2" "I64 2"]
    by (simp add: log_stream_def rows row_publication_def)
  have "\<exists>db1. purge_op (I64 3600001) aged_realtime = Ok (Ok 2, db1)"
    by (simp add: purge_op_def aged_realtime_def aged_expired Let_def)
  then obtain db1 where purge: "log_purge_expired calm (I64 3600001) aged_realtime = (Ok 2, db1)"
    by (auto simp: log_purge_expired_def decide_calm)
  have fresh: "\<And>r. r \<in> set (log_rows aged_realtime) \<Longrightarrow> lg_key r \<noteq> unary_text 3"
    by (auto simp: aged_realtime_def aged_rows unary_keys)
  have gone: "\<And>r. r \<in> set (stream_rows ''s'' aged_realtime) \<Longrightarrow> row_expired (I64 3600001) r"
    by (auto simp: rows aged_expired)
  from purged_stream_restarts [OF aged_realtime_ok unary_text_parses gone fresh _ _ _ seq(2) refl,
      where clock = "\<lambda>_. I64 3600002" and creature = 2 and key = "''k''" and payload = "''new''" and digest = "''d''"
        and limit = 10 and um = "[]"] purge stream
  show ?thesis by auto
qed

theorem published_event_delivered_witness:
  "\<exists>db' p. append_durable (\<lambda>_. quiet_log unary_text unary_parse [] (\<lambda>_. Commits, Commits)) (\<lambda>_. I64 0) ''s'' 1 2
       ''k'' ''payload'' ''d'' empty_realtime = (Ok (), db')
     \<and> public_read (quiet_log unary_text unary_parse [] (\<lambda>_. Commits, Commits)) 2 ''s'' 0 10 db' = Ok (BatchEvents [p])
     \<and> pub_payload p = ''payload''"
proof -
  let ?log = "quiet_log unary_text unary_parse [] (\<lambda>_. Commits, Commits)"
  have empty: "stream_rows ''s'' empty_realtime = []" by (simp add: stream_rows_def empty_realtime_def)
  have one: "saturating_add 0 1 = (1 :: u64)" by (simp add: saturating_add_def)
  have seq: "signed 1 = Ok (I64 1)" by (simp add: signed_Ok_iff)
  let ?p = "\<lparr>pub_event = \<lparr>event_id = 1, event_stream = ''s'',
       event_creature_id = 2, event_kind = ''k'', event_producer = ''guest.bridge.publish'',
       event_sequence = 1, event_at_millis = I64 0, event_payload_digest = ''d'',
       event_retention = Standard, event_version = ''1'', event_idempotency_key = None\<rparr>, pub_payload = ''payload''\<rparr>"
  have op: "\<exists>db'. append_op unary_text ?p empty_realtime = Ok (Ok (), db')"
    using append_first [OF empty_realtime_ok empty, of unary_text ?p] by (simp add: empty_realtime_def)
  then obtain db' where op: "append_op unary_text ?p empty_realtime = Ok (Ok (), db')" by blast
  then have db': "append_durable (\<lambda>_. ?log) (\<lambda>_. I64 0) ''s'' 1 2 ''k'' ''payload'' ''d'' empty_realtime = (Ok (), db')"
    by (simp add: append_durable_def upt_conv_Cons quiet_log_def storage_event_log_def log_bounds_def read_commits
        Let_def empty log_append_def quiet_commits decide_calm one)
  from append_op_Ok [OF empty_realtime_ok op] have rows: "stream_rows ''s'' db' = [event_row unary_text ?p (I64 1)]"
    using seq empty by auto
  have "publication_of unary_parse [] (event_row unary_text ?p (I64 1)) = Ok ?p"
    using publication_of_event_row [OF unary_text_parses, of ?p "I64 1"] seq by simp
  then obtain batch where batch: "public_read ?log 2 ''s'' 0 10 db' = Ok batch"
    by (simp add: public_read_def quiet_log_def storage_event_log_def log_bounds_def log_read_def read_commits Let_def
        rows u64_of_i64_def can_replay_from_def signed_def i64_of_u64_def checked_i64_def in_i64_def i64_less_iff
        may_deliver_def)
  have "log_stream unary_parse empty_realtime ''s'' = []" by (simp add: log_stream_def empty)
  with published_event_delivered [OF empty_realtime_ok unary_text_parses db', of "(\<lambda>_. Commits, Commits)" 10 batch] batch db'
  show ?thesis by auto
qed

end
