(* ===== verification/Resumable.thy ===== *)
theory Resumable
  imports Contracts
begin

text \<open>
  Programs that write down what they have done. A driver runs the steps of a plan one at a
  time, writes its journal to a file after each, and may be killed at any moment. The file
  is what the next run starts from. The locale \<open>journal_driver\<close> is the contract of such a
  loop; the administrative operations (\<open>Operations\<close>) and the bootstrap (\<open>Bootstrap\<close>) provide
  it, the first over \<open>std::fs::write\<close>, the second over \<open>write_atomic\<close>.
\<close>

section \<open>Files\<close>

datatype stored_file = Absent | Unreadable string | Contents string

text \<open>
  \<open>std::fs::write\<close> truncates and writes: a write that fails, or during which the process is
  killed, leaves the old file, the new one, or something the caller does not choose.
\<close>

datatype leftover = Kept | Whole | Torn stored_file

fun leftover_file :: "leftover \<Rightarrow> string \<Rightarrow> stored_file \<Rightarrow> stored_file" where
  "leftover_file Kept contents file = file"
| "leftover_file Whole contents file = Contents contents"
| "leftover_file (Torn left) contents file = left"

datatype write_end =
    Written
  | WriteFails string leftover
  | WriteKilled leftover

fun fs_write :: "write_end \<Rightarrow> string \<Rightarrow> stored_file
    \<Rightarrow> (unit, string) result option \<times> stored_file" where
  "fs_write Written contents file = (Some (Ok ()), Contents contents)"
| "fs_write (WriteFails e left) contents file = (Some (Err e), leftover_file left contents file)"
| "fs_write (WriteKilled left) contents file = (None, leftover_file left contents file)"

fun tears :: "write_end \<Rightarrow> bool" where
  "tears (WriteFails e (Torn left)) = True"
| "tears (WriteKilled (Torn left)) = True"
| "tears _ = False"

text \<open>What a torn write leaves, and the same write with the old file left in its place.\<close>

fun torn_left :: "write_end \<Rightarrow> stored_file option" where
  "torn_left (WriteFails e (Torn left)) = Some left"
| "torn_left (WriteKilled (Torn left)) = Some left"
| "torn_left _ = None"

fun mend :: "write_end \<Rightarrow> write_end" where
  "mend (WriteFails e (Torn left)) = WriteFails e Kept"
| "mend (WriteKilled (Torn left)) = WriteKilled Kept"
| "mend w = w"

lemma mend_simps: "\<not> tears (mend w)" "fst (fs_write (mend w) contents file) = fst (fs_write w contents file)"
  "torn_left w = None \<Longrightarrow> mend w = w"
  "torn_left w = Some left \<Longrightarrow>
    snd (fs_write w contents file) = left \<and> fst (fs_write w contents file) \<noteq> Some (Ok ())"
  "tears w \<longleftrightarrow> torn_left w \<noteq> None"
  by (induction w rule: mend.induct) auto

lemma untorn_old_or_new:
  "\<not> tears end \<Longrightarrow> snd (fs_write end contents file) = file \<and>
     fst (fs_write end contents file) \<noteq> Some (Ok ()) \<or>
   snd (fs_write end contents file) = Contents contents"
  by (induction "end" rule: tears.induct) auto

text \<open>
  \<open>crates/aseman-fs/src/lib.rs\<close>: \<open>staged\<close> writes and syncs a temporary file beside the target,
  \<open>persist\<close> renames it over the target, and the directory is synced last.
\<close>

datatype atomic_end =
    StageFails string
  | StageKilled
  | RenameFails string
  | RenameKilled
  | SyncFails string
  | Synced

fun staged :: "atomic_end \<Rightarrow> (unit, string) result option" where
  "staged (StageFails e) = Some (Err e)"
| "staged StageKilled = None"
| "staged _ = Some (Ok ())"

fun rename_over :: "atomic_end \<Rightarrow> string \<Rightarrow> stored_file
    \<Rightarrow> (unit, string) result option \<times> stored_file" where
  "rename_over (RenameFails e) contents target = (Some (Err e), target)"
| "rename_over RenameKilled contents target = (None, Contents contents)"
| "rename_over _ contents target = (Some (Ok ()), Contents contents)"

fun sync_directory :: "atomic_end \<Rightarrow> (unit, string) result" where
  "sync_directory (SyncFails e) = Err e"
| "sync_directory _ = Ok ()"

definition write_atomic :: "atomic_end \<Rightarrow> string \<Rightarrow> stored_file
    \<Rightarrow> (unit, string) result option \<times> stored_file" where
  "write_atomic end contents target =
     (case staged end of
        None \<Rightarrow> (None, target)
      | Some (Inl e) \<Rightarrow> (Some (Err e), target)
      | Some (Inr _) \<Rightarrow>
          (case rename_over end contents target of
             (Some (Inr _), target') \<Rightarrow> (Some (sync_directory end), target')
           | (r, target') \<Rightarrow> (r, target')))"

text \<open>A reader finds the old file or the whole new one, whatever happens.\<close>

lemma write_atomic_old_or_new:
  "snd (write_atomic end contents target) = target \<and>
     fst (write_atomic end contents target) \<noteq> Some (Ok ()) \<or>
   snd (write_atomic end contents target) = Contents contents"
  by (cases "end") (auto simp: write_atomic_def)

section \<open>The loop\<close>

text \<open>
  What happens to one pass of the loop: the process is killed while the step runs, or the
  step returns and the journal is written, which ends in its own way.
\<close>

datatype 'w pass_end = KilledInStep | StepReturns 'w

datatype ('s, 'e) drive_error =
    NotReady string
  | JournalError 'e
  | StepFailed 's string
  | NotWritten string

text \<open>
  A run that was killed has no result. \<open>logged\<close> instruments a step so that the world also
  holds the steps that were run.
\<close>

type_synonym ('s, 'e, 'x, 'f) run = "(unit, ('s, 'e) drive_error) result option \<times> 'x \<times> 'f"

definition logged :: "('s \<Rightarrow> 'x \<Rightarrow> (unit, string) result \<times> 'x)
    \<Rightarrow> 's \<Rightarrow> 'x \<times> 's list \<Rightarrow> (unit, string) result \<times> 'x \<times> 's list" where
  "logged step s w = (case step s (fst w) of (r, x) \<Rightarrow> (r, x, snd w @ [s]))"

definition intact :: "('j \<Rightarrow> 's list) \<Rightarrow> ('f \<Rightarrow> 'j)
    \<Rightarrow> ('w \<Rightarrow> 'j \<Rightarrow> 'f \<Rightarrow> (unit, string) result option \<times> 'f) \<Rightarrow> 'w pass_end list \<Rightarrow> bool" where
  "intact plan load save ends \<longleftrightarrow>
     (\<forall>e j f. StepReturns e \<in> set ends \<longrightarrow> plan j = plan (load f) \<longrightarrow>
        load (snd (save e j f)) = load f \<and> fst (save e j f) \<noteq> Some (Ok ()) \<or>
        load (snd (save e j f)) = j)"

text \<open>
  What a run from journal \<open>j\<close> ran when the steps were \<open>did\<close>, ended in \<open>r\<close> and left the journal \<open>k\<close>: it ran
  the steps that follow \<open>j\<close> in the plan and recorded each, save the last one at most.
\<close>

definition ran_rest :: "('j \<Rightarrow> 's list) \<Rightarrow> ('j \<Rightarrow> 's list) \<Rightarrow> 'j \<Rightarrow> 's list
    \<Rightarrow> (unit, 'e) result option \<Rightarrow> 'j \<Rightarrow> bool" where
  "ran_rest plan recorded j did r k \<longleftrightarrow>
     (\<exists>new unrecorded. did = new @ unrecorded \<and> length unrecorded \<le> 1 \<and>
        prefix (recorded j @ did) (plan j) \<and> plan k = plan j \<and> recorded k = recorded j @ new \<and>
        (r = Some (Ok ()) \<longrightarrow> unrecorded = [] \<and> recorded k = plan j))"

lemma ran_nothing:
  "prefix (recorded j) (plan j) \<Longrightarrow> (r = Some (Ok ()) \<Longrightarrow> recorded j = plan j) \<Longrightarrow>
   ran_rest plan recorded j [] r j"
  by (simp add: ran_rest_def)

lemma ran_unrecorded:
  "prefix (recorded j @ [s]) (plan j) \<Longrightarrow> r \<noteq> Some (Ok ()) \<Longrightarrow> recorded k = recorded j \<Longrightarrow>
   plan k = plan j \<Longrightarrow> ran_rest plan recorded j [s] r k"
  by (auto simp: ran_rest_def)

lemma ran_recorded:
  "prefix (recorded j @ [s]) (plan j) \<Longrightarrow> r \<noteq> Some (Ok ()) \<Longrightarrow> recorded k = recorded j @ [s] \<Longrightarrow>
   plan k = plan j \<Longrightarrow> ran_rest plan recorded j [s] r k"
  by (auto simp: ran_rest_def)

lemma ran_Cons:
  assumes "ran_rest plan recorded k did r l"
    and "recorded k = recorded j @ [s]" and "plan k = plan j"
  shows "ran_rest plan recorded j (s # did) r l"
proof -
  from assms(1) obtain new unrecorded where
    "did = new @ unrecorded" "length unrecorded \<le> 1" "prefix (recorded k @ did) (plan k)"
    "plan l = plan k" "recorded l = recorded k @ new"
    "r = Some (Ok ()) \<longrightarrow> unrecorded = [] \<and> recorded l = plan k"
    unfolding ran_rest_def by blast
  with assms(2,3) show ?thesis
    unfolding ran_rest_def by (intro exI [of _ "s # new"] exI [of _ unrecorded]) simp
qed

locale journal_driver = step_journal plan done_steps next_step succeed
  for plan :: "'j \<Rightarrow> 's list"
    and done_steps :: "'j \<Rightarrow> 's list"
    and next_step :: "'j \<Rightarrow> 's option"
    and succeed :: "'j \<Rightarrow> 's \<Rightarrow> ('j, 'e) result" +
  fixes fail :: "'j \<Rightarrow> 's \<Rightarrow> string \<Rightarrow> ('j, 'e) result"
    and save :: "'w \<Rightarrow> 'j \<Rightarrow> 'f \<Rightarrow> (unit, string) result option \<times> 'f"
    and loop :: "('s \<Rightarrow> 'x \<times> 's list \<Rightarrow> (unit, string) result \<times> 'x \<times> 's list)
      \<Rightarrow> 'w pass_end list \<Rightarrow> 'j \<Rightarrow> 'x \<times> 's list \<Rightarrow> 'f \<Rightarrow> ('s, 'e, 'x \<times> 's list, 'f) run"
  assumes fail_Ok: "fail j s why = Ok k \<Longrightarrow> done_steps k = done_steps j \<and> plan k = plan j"
    and fail_defined: "next_step j = Some s \<Longrightarrow> \<exists>k. fail j s why = Ok k"
    and loop_done: "next_step j = None \<Longrightarrow> loop step ends j w f = (Some (Ok ()), w, f)"
    and loop_killed: "next_step j = Some s \<Longrightarrow> loop step [] j w f = (None, w, f)"
    and loop_in_step: "next_step j = Some s \<Longrightarrow>
      loop step (KilledInStep # ends) j w f = (None, snd (step s w), f)"
    and loop_Ok: "next_step j = Some s \<Longrightarrow> step s w = (Ok u, w') \<Longrightarrow> succeed j s = Ok k \<Longrightarrow>
      loop step (StepReturns e # ends) j w f =
        (case save e k f of
           (None, g) \<Rightarrow> (None, w', g)
         | (Some (Inl why'), g) \<Rightarrow> (Some (Err (NotWritten why')), w', g)
         | (Some (Inr _), g) \<Rightarrow> loop step ends k w' g)"
    and loop_Err: "next_step j = Some s \<Longrightarrow> step s w = (Err why, w') \<Longrightarrow> fail j s why = Ok k \<Longrightarrow>
      loop step (StepReturns e # ends) j w f =
        (case save e k f of
           (None, g) \<Rightarrow> (None, w', g)
         | (Some (Inl why'), g) \<Rightarrow> (Some (Err (NotWritten why')), w', g)
         | (Some (Inr _), g) \<Rightarrow> (Some (Err (StepFailed s why)), w', g))"
begin

lemma saved_journal:
  assumes "intact plan load save (StepReturns e # ends)" and "plan k = plan (load f)"
    and "save e k f = (r, g)"
  shows "load g = load f \<and> r \<noteq> Some (Ok ()) \<or> load g = k"
  using assms unfolding intact_def by (metis fst_conv snd_conv list.set_intros(1))

lemma failed_pass:
  assumes "intact plan load save (StepReturns e # ends)" and "prefix (done_steps (load f)) (plan (load f))"
    and "next_step (load f) = Some s" and "step s x = (Err why, x1)"
    and "loop (logged step) (StepReturns e # ends) (load f) (x, log) f = (r, (x', log'), g)"
  shows "log' = log @ [s] \<and> ran_rest plan done_steps (load f) [s] r (load g)"
proof -
  obtain k where k: "fail (load f) s why = Ok k" using fail_defined [OF assms(3)] by blast
  obtain o1 g1 where sv: "save e k f = (o1, g1)" by fastforce
  have lg: "logged step s (x, log) = (Err why, x1, log @ [s])"
    using assms(4) by (simp add: logged_def)
  have "load g1 = load f \<or> load g1 = k"
    using saved_journal [OF assms(1) _ sv] fail_Ok [OF k] by auto
  moreover have "r \<noteq> Some (Ok ())" "log' = log @ [s]" "g = g1"
    using assms(5) sv loop_Err [where step = "logged step", OF assms(3) lg k] by (auto split: option.splits sum.splits)
  ultimately show ?thesis
    using fail_Ok [OF k] next_extends [OF assms(2,3)] by (auto intro: ran_unrecorded)
qed

lemma unwritten_pass:
  assumes "intact plan load save (StepReturns e # ends)" and "prefix (done_steps (load f)) (plan (load f))"
    and "next_step (load f) = Some s" and "step s x = (Ok u, x1)"
    and "succeed (load f) s = Ok k" and "save e k f = (o1, g1)" and "o1 \<noteq> Some (Ok ())"
    and "loop (logged step) (StepReturns e # ends) (load f) (x, log) f = (r, (x', log'), g)"
  shows "log' = log @ [s] \<and> ran_rest plan done_steps (load f) [s] r (load g)"
proof -
  have lg: "logged step s (x, log) = (Ok u, x1, log @ [s])"
    using assms(4) by (simp add: logged_def)
  have "load g1 = load f \<or> load g1 = k"
    using saved_journal [OF assms(1) _ assms(6)] succeed_Ok [OF assms(5)] by auto
  moreover have "r \<noteq> Some (Ok ())" "log' = log @ [s]" "g = g1"
    using assms(6-8) loop_Ok [where step = "logged step", OF assms(3) lg assms(5)] by (auto split: option.splits sum.splits)
  ultimately show ?thesis
    using succeed_Ok [OF assms(5)] next_extends [OF assms(2,3)]
    by (auto intro: ran_unrecorded ran_recorded)
qed

text \<open>
  A run that starts from what the file holds runs the steps that follow it in the plan and
  records each, save the last one at most.
\<close>

lemma loop_runs_rest:
  assumes "intact plan load save ends" and "prefix (done_steps (load f)) (plan (load f))"
    and "loop (logged step) ends (load f) (x, log) f = (r, (x', log'), g)"
  shows "\<exists>did. log' = log @ did \<and> ran_rest plan done_steps (load f) did r (load g)"
  using assms
proof (induction ends arbitrary: x log f)
  case Nil
  then show ?case
    using done_is_plan [of "load f"]
    by (cases "next_step (load f)") (auto simp: loop_done loop_killed intro: ran_nothing)
next
  case (Cons a ends)
  show ?case
  proof (cases "next_step (load f)")
    case None
    with Cons.prems show ?thesis
      using done_is_plan [of "load f"] by (auto simp: loop_done intro: ran_nothing)
  next
    case (Some s)
    obtain r1 x1 where st: "step s x = (r1, x1)" by fastforce
    then have lg: "logged step s (x, log) = (r1, x1, log @ [s])" by (simp add: logged_def)
    show ?thesis
    proof (cases a)
      case KilledInStep
      with Cons.prems Some st show ?thesis
        using next_extends [OF Cons.prems(2) Some]
        by (auto simp: loop_in_step logged_def intro: ran_unrecorded)
    next
      case (StepReturns e)
      note pre = Cons.prems [unfolded StepReturns]
      show ?thesis
      proof (cases r1)
        case (Inl why)
        with failed_pass [OF pre(1,2) Some _ pre(3)] st show ?thesis by auto
      next
        case (Inr u)
        obtain k where k: "succeed (load f) s = Ok k" using succeed_defined [OF Some] by blast
        obtain o1 g1 where sv: "save e k f = (o1, g1)" by fastforce
        show ?thesis
        proof (cases "o1 = Some (Ok ())")
          case True
          have ld: "load g1 = k" using saved_journal [OF pre(1) _ sv] succeed_Ok [OF k] True by auto
          have "intact plan load save ends" using pre(1) unfolding intact_def by auto
          moreover have "prefix (done_steps (load g1)) (plan (load g1))"
            using succeed_prefix [OF pre(2) k] ld by simp
          moreover have "loop (logged step) ends (load g1) (x1, log @ [s]) g1 = (r, (x', log'), g)"
            using pre(3) lg sv True ld Inr loop_Ok [where step = "logged step", OF Some _ k] by simp
          ultimately obtain did where
            "log' = (log @ [s]) @ did" "ran_rest plan done_steps (load g1) did r (load g)"
            using Cons.IH by blast
          with ld succeed_Ok [OF k] show ?thesis by (auto intro: ran_Cons)
        next
          case False
          from unwritten_pass [OF pre(1,2) Some _ k sv False pre(3)] st Inr show ?thesis by auto
        qed
      qed
    qed
  qed
qed

text \<open>A run in which every step and every write succeeds reaches the end of the plan.\<close>

lemma loop_finishes:
  assumes "\<And>s w. fst (step s w) = Ok ()"
    and "\<And>e k g. StepReturns e \<in> set ends \<Longrightarrow> fst (save e k g) = Some (Ok ())"
    and "KilledInStep \<notin> set ends"
    and "done_steps j @ rest = plan j" and "length rest \<le> length ends"
  shows "\<exists>x' g. loop (logged step) ends j (x, log) f = (Some (Ok ()), (x', log @ rest), g)"
  using assms(2-)
proof (induction rest arbitrary: ends j x log f)
  case Nil
  then show ?case using next_step_of_prefix [of j "length (plan j)"] by (simp add: loop_done)
next
  case (Cons s rest)
  from Cons.prems obtain e ends' where ends: "ends = StepReturns e # ends'"
    by (metis list.set_intros(1) neq_Nil_conv length_Cons list.size(3) not_less_eq_eq
        pass_end.exhaust le0 zero_less_Suc not_less)
  have s: "next_step j = Some s" by (rule next_of_rest [OF Cons.prems(3)])
  obtain k where k: "succeed j s = Ok k" using succeed_defined [OF s] by blast
  obtain x1 where st: "logged step s (x, log) = (Ok (), x1, log @ [s])"
    using assms(1) [of s x] by (cases "step s x") (auto simp: logged_def)
  obtain g where g: "save e k f = (Some (Ok ()), g)"
    using Cons.prems(1) [of e k f] ends by (cases "save e k f") auto
  have "done_steps k @ rest = plan k" using succeed_Ok [OF k] Cons.prems(3) by simp
  from Cons.IH [OF _ _ this, of ends' x1 "log @ [s]" g] Cons.prems ends
  show ?case using loop_Ok [where step = "logged step", OF s st k] g by auto
qed

end

section \<open>Many runs\<close>

text \<open>
  One run after the other, each from the file the one before left; \<open>run\<close> gives the steps it
  did and the file it leaves.
\<close>

fun run_all :: "('i \<Rightarrow> 'f \<Rightarrow> 's list \<times> 'f) \<Rightarrow> 'i list \<Rightarrow> 'f \<Rightarrow> 's list \<times> 'f" where
  "run_all run [] file = ([], file)"
| "run_all run (i # rest) file =
     (case run i file of (log, file) \<Rightarrow>
      case run_all run rest file of (logs, file) \<Rightarrow> (log @ logs, file))"

definition resumes :: "('f \<Rightarrow> 's list) \<Rightarrow> 's list \<Rightarrow> 's list \<Rightarrow> 'f \<Rightarrow> 'f \<Rightarrow> bool" where
  "resumes recorded plan log file file' \<longleftrightarrow>
     (\<exists>new unrecorded. log = new @ unrecorded \<and> length unrecorded \<le> 1 \<and>
        prefix (recorded file @ log) plan \<and> recorded file' = recorded file @ new)"

lemma run_all_resumes:
  assumes "\<And>i f log g. i \<in> set ins \<Longrightarrow> prefix (recorded f) plan \<Longrightarrow> run i f = (log, g) \<Longrightarrow>
      resumes recorded plan log f g"
    and "distinct plan" and "prefix (recorded store) plan" and "run_all run ins store = (log, store')"
  shows "prefix (recorded store) (recorded store') \<and> prefix (recorded store') plan \<and>
    set (recorded store) \<inter> set log = {} \<and>
    set (recorded store') \<subseteq> set (recorded store) \<union> set log \<and>
    length (recorded store) + length log \<le> length (recorded store') + length ins"
  using assms(1,3,4)
proof (induction ins arbitrary: store log)
  case Nil
  then show ?case by simp
next
  case (Cons i rest)
  obtain log1 store1 where i: "run i store = (log1, store1)" by fastforce
  obtain log2 where rest: "run_all run rest store1 = (log2, store')" and log: "log = log1 @ log2"
    using Cons.prems(3) i by (auto split: prod.splits)
  from Cons.prems(1) [OF _ Cons.prems(2) i] obtain new unrecorded where
    one: "log1 = new @ unrecorded" "length unrecorded \<le> 1"
      "prefix (recorded store @ log1) plan" "recorded store1 = recorded store @ new"
    unfolding resumes_def by auto
  then have "prefix (recorded store1) plan"
    by (metis append.assoc append_prefixD)
  moreover have "\<And>j f log g. j \<in> set rest \<Longrightarrow> prefix (recorded f) plan \<Longrightarrow> run j f = (log, g) \<Longrightarrow>
      resumes recorded plan log f g"
    using Cons.prems(1) by auto
  ultimately have more: "prefix (recorded store1) (recorded store')" "prefix (recorded store') plan"
    "set (recorded store1) \<inter> set log2 = {}"
    "set (recorded store') \<subseteq> set (recorded store1) \<union> set log2"
    "length (recorded store1) + length log2 \<le> length (recorded store') + length rest"
    using Cons.IH [OF _ _ rest] by auto
  have "set (recorded store) \<inter> set log1 = {}"
    using one(3) assms(2) by (metis distinct_append prefix_def)
  moreover have "prefix (recorded store) (recorded store')"
    using more(1) one(4) by (metis append_prefixD)
  ultimately show ?case using more one(1,2,4) log by auto
qed

end
