(* ===== verification/Operations.thy ===== *)
theory Operations
  imports Resumable
begin

text \<open>
  The resumable administrative operations: the journal of
  \<open>crates/aseman-domain/src/operations.rs\<close> and the driver of
  \<open>apps/asemanctl/src/cli/ops.rs\<close> that runs a plan and writes the journal after every
  transition. What a step does to the host is the parameter \<open>step\<close>; the JSON text of a
  journal is \<open>encode\<close> and \<open>decode\<close> (serde_json).
\<close>

section \<open>Journals\<close>

datatype operation_kind = Upgrade | Backup | Restore | Doctor | SupportBundle

datatype operation_step =
    Preflight
  | VerifyArtifacts
  | QuiesceWrites
  | SnapshotStores
  | CaptureCatalog
  | HashArtifacts
  | SignManifest
  | ResumeWrites
  | VerifyManifest
  | PrepareTarget
  | RestoreStores
  | ApplyCatalog
  | VerifyIntegrity
  | DrainServices
  | ApplyUpgrade
  | MigrateSchema
  | StartServices
  | CheckConfiguration
  | CheckDependencies
  | CheckStorage
  | CheckRuntime
  | CheckSecurity
  | CollectDiagnostics
  | RedactSecrets
  | PackageBundle
  | Health

fun steps :: "operation_kind \<Rightarrow> operation_step list" where
  "steps Upgrade =
     [Preflight, VerifyArtifacts, SnapshotStores, DrainServices, ApplyUpgrade, MigrateSchema,
      StartServices, Health]"
| "steps Backup =
     [Preflight, QuiesceWrites, SnapshotStores, CaptureCatalog, HashArtifacts, SignManifest,
      ResumeWrites, VerifyIntegrity]"
| "steps Restore =
     [Preflight, VerifyManifest, PrepareTarget, RestoreStores, ApplyCatalog, VerifyIntegrity,
      StartServices, Health]"
| "steps Doctor =
     [CheckConfiguration, CheckDependencies, CheckStorage, CheckRuntime, CheckSecurity, Health]"
| "steps SupportBundle = [CollectDiagnostics, RedactSecrets, PackageBundle, VerifyIntegrity]"

record operation_failure =
  failed_step :: operation_step
  failed_reason :: string

record operation_journal =
  journal_kind :: operation_kind
  completed :: "operation_step list"
  journal_failure :: "operation_failure option"

datatype operation_journal_error =
    AlreadyCompleted operation_step
  | OutOfOrder "operation_step option" operation_step

definition journal_new :: "operation_kind \<Rightarrow> operation_journal" where
  "journal_new kind = \<lparr>journal_kind = kind, completed = [], journal_failure = None\<rparr>"

definition journal_next :: "operation_journal \<Rightarrow> operation_step option" where
  "journal_next j = List.find (\<lambda>step. step \<notin> set (completed j)) (steps (journal_kind j))"

definition journal_complete :: "operation_journal \<Rightarrow> bool" where
  "journal_complete j \<longleftrightarrow> journal_next j = None"

definition require_next ::
  "operation_journal \<Rightarrow> operation_step \<Rightarrow> (unit, operation_journal_error) result" where
  "require_next j step =
     (if step \<in> set (completed j) then Err (AlreadyCompleted step)
      else if journal_next j \<noteq> Some step then Err (OutOfOrder (journal_next j) step)
      else Ok ())"

definition journal_succeed ::
  "operation_journal \<Rightarrow> operation_step \<Rightarrow> (operation_journal, operation_journal_error) result"
  where
  "journal_succeed j step =
     and_then (require_next j step)
       (\<lambda>_. Ok (j\<lparr>completed := completed j @ [step], journal_failure := None\<rparr>))"

definition journal_fail ::
  "operation_journal \<Rightarrow> operation_step \<Rightarrow> string
   \<Rightarrow> (operation_journal, operation_journal_error) result" where
  "journal_fail j step reason =
     and_then (require_next j step)
       (\<lambda>_. Ok (j\<lparr>journal_failure := Some \<lparr>failed_step = step, failed_reason = reason\<rparr>\<rparr>))"

section \<open>The driver\<close>

fun load_journal ::
  "(string \<Rightarrow> operation_journal option) \<Rightarrow> stored_file \<Rightarrow> operation_kind \<Rightarrow> operation_journal"
  where
  "load_journal decode (Contents text) kind =
     (case decode text of
        Some journal \<Rightarrow> if journal_kind journal = kind then journal else journal_new kind
      | None \<Rightarrow> journal_new kind)"
| "load_journal decode _ kind = journal_new kind"

definition persist_journal ::
  "(operation_journal \<Rightarrow> string) \<Rightarrow> write_end \<Rightarrow> operation_journal \<Rightarrow> stored_file
   \<Rightarrow> (unit, string) result option \<times> stored_file" where
  "persist_journal encode end journal file = fs_write end (encode journal) file"

text \<open>
  The \<open>while let\<close> of \<open>drive_journal\<close>, one element of \<open>ends\<close> for each pass: the process is killed
  when the list is used up.
\<close>

fun drive_loop ::
  "(operation_journal \<Rightarrow> string) \<Rightarrow> (operation_step \<Rightarrow> 'x \<Rightarrow> (unit, string) result \<times> 'x)
   \<Rightarrow> write_end pass_end list \<Rightarrow> operation_journal \<Rightarrow> 'x \<Rightarrow> stored_file
   \<Rightarrow> (operation_step, operation_journal_error, 'x, stored_file) run" where
  "drive_loop encode step [] journal ctx file =
     (case journal_next journal of
        None \<Rightarrow> (Some (Ok ()), ctx, file)
      | Some _ \<Rightarrow> (None, ctx, file))"
| "drive_loop encode step (end # ends) journal ctx file =
     (case journal_next journal of
        None \<Rightarrow> (Some (Ok ()), ctx, file)
      | Some nxt \<Rightarrow>
          (case (end, step nxt ctx) of
             (KilledInStep, (_, ctx)) \<Rightarrow> (None, ctx, file)
           | (StepReturns w, (Inr _, ctx)) \<Rightarrow>
               (case journal_succeed journal nxt of
                  Inl e \<Rightarrow> (Some (Err (JournalError e)), ctx, file)
                | Inr journal \<Rightarrow>
                    (case persist_journal encode w journal file of
                       (None, file) \<Rightarrow> (None, ctx, file)
                     | (Some (Inl why), file) \<Rightarrow> (Some (Err (NotWritten why)), ctx, file)
                     | (Some (Inr _), file) \<Rightarrow> drive_loop encode step ends journal ctx file))
           | (StepReturns w, (Inl error, ctx)) \<Rightarrow>
               (case journal_fail journal nxt error of
                  Inl e \<Rightarrow> (Some (Err (JournalError e)), ctx, file)
                | Inr journal \<Rightarrow>
                    (case persist_journal encode w journal file of
                       (None, file) \<Rightarrow> (None, ctx, file)
                     | (Some (Inl why), file) \<Rightarrow> (Some (Err (NotWritten why)), ctx, file)
                     | (Some (Inr _), file) \<Rightarrow> (Some (Err (StepFailed nxt error)), ctx, file)))))"

text \<open>
  \<open>drive_journal\<close> after its context was built: \<open>rehydrate\<close> reads what earlier steps left on
  the host and may fail.
\<close>

definition drive_journal ::
  "(operation_journal \<Rightarrow> string) \<Rightarrow> (string \<Rightarrow> operation_journal option)
   \<Rightarrow> (operation_kind \<Rightarrow> 'x \<Rightarrow> ('x, string) result)
   \<Rightarrow> (operation_step \<Rightarrow> 'x \<Rightarrow> (unit, string) result \<times> 'x)
   \<Rightarrow> write_end pass_end list \<Rightarrow> operation_kind \<Rightarrow> 'x \<Rightarrow> stored_file
   \<Rightarrow> (operation_step, operation_journal_error, 'x, stored_file) run" where
  "drive_journal encode decode rehydrate step ends kind ctx file =
     (let journal = load_journal decode file kind in
      case rehydrate kind ctx of
        Inl why \<Rightarrow> (Some (Err (NotReady why)), ctx, file)
      | Inr ctx \<Rightarrow>
          if journal_complete journal then (Some (Ok ()), ctx, file)
          else drive_loop encode step ends journal ctx file)"

text \<open>
  \<open>run_doctor\<close> starts a new journal every time and writes it once, after the last step; a
  check that itself fails ends the command at once. The findings the checks left in the
  context decide the result.
\<close>

record finding =
  finding_check :: string
  finding_fatal :: bool
  finding_detail :: string

fun doctor_loop ::
  "(operation_step \<Rightarrow> 'x \<Rightarrow> (unit, string) result \<times> 'x) \<Rightarrow> operation_step list
   \<Rightarrow> operation_journal \<Rightarrow> 'x
   \<Rightarrow> (operation_journal, (operation_step, operation_journal_error) drive_error) result \<times> 'x"
  where
  "doctor_loop step [] journal ctx = (Ok journal, ctx)"
| "doctor_loop step (s # rest) journal ctx =
     (case step s ctx of
        (Inl why, ctx) \<Rightarrow> (Err (StepFailed s why), ctx)
      | (Inr _, ctx) \<Rightarrow>
          (case journal_succeed journal s of
             Inl e \<Rightarrow> (Err (JournalError e), ctx)
           | Inr journal \<Rightarrow> doctor_loop step rest journal ctx))"

datatype doctor_result = Healthy | Unhealthy "string list"

definition run_doctor ::
  "(operation_journal \<Rightarrow> string) \<Rightarrow> ('x \<Rightarrow> finding list)
   \<Rightarrow> (operation_step \<Rightarrow> 'x \<Rightarrow> (unit, string) result \<times> 'x) \<Rightarrow> write_end \<Rightarrow> 'x \<Rightarrow> stored_file
   \<Rightarrow> (doctor_result, (operation_step, operation_journal_error) drive_error) result option
       \<times> 'x \<times> stored_file" where
  "run_doctor encode findings step end ctx file =
     (case doctor_loop step (steps Doctor) (journal_new Doctor) ctx of
        (Inl e, ctx) \<Rightarrow> (Some (Err e), ctx, file)
      | (Inr journal, ctx) \<Rightarrow>
          (case persist_journal encode end journal file of
             (None, file) \<Rightarrow> (None, ctx, file)
           | (Some (Inl why), file) \<Rightarrow> (Some (Err (NotWritten why)), ctx, file)
           | (Some (Inr _), file) \<Rightarrow>
               (let fatal = filter finding_fatal (findings ctx) in
                if fatal = [] then (Some (Ok Healthy), ctx, file)
                else (Some (Ok (Unhealthy (map finding_check fatal))), ctx, file))))"

section \<open>The contract\<close>

lemma require_next_Ok: "require_next j s = Ok u \<longleftrightarrow> journal_next j = Some s"
  by (auto simp: require_next_def journal_next_def find_Some_iff)

lemma journal_succeed_Ok:
  "journal_succeed j s = Ok k \<longleftrightarrow>
   journal_next j = Some s \<and> k = j\<lparr>completed := completed j @ [s], journal_failure := None\<rparr>"
  by (auto simp: journal_succeed_def result_simps require_next_Ok)

lemma journal_fail_Ok:
  "journal_fail j s why = Ok k \<longleftrightarrow>
   journal_next j = Some s \<and>
   k = j\<lparr>journal_failure := Some \<lparr>failed_step = s, failed_reason = why\<rparr>\<rparr>"
  by (auto simp: journal_fail_def result_simps require_next_Ok)

lemma steps_distinct: "distinct (steps kind)"
  by (cases kind) simp_all

lemma steps_inject: "steps k = steps l \<Longrightarrow> k = l"
  by (cases k; cases l) simp_all

interpretation operation: journal_driver "\<lambda>j. steps (journal_kind j)" completed journal_next
  journal_succeed journal_fail "persist_journal encode" "drive_loop encode"
  for encode
proof (unfold_locales, goal_cases)
  case (7 j step ends w f)
  then show ?case by (cases ends) simp_all
next
  case 10
  then show ?case by simp
next
  case 11
  then show ?case by simp
qed (auto simp: steps_distinct journal_succeed_Ok journal_fail_Ok simp flip: journal_next_def
  split: prod.split)

section \<open>Interrupted operations\<close>

text \<open>
  One invocation of a command: the context it starts in and what happens to its passes. The
  world is instrumented with the steps that were run.
\<close>

definition keep_log :: "('k \<Rightarrow> 'x \<Rightarrow> ('x, string) result) \<Rightarrow> 'k \<Rightarrow> 'x \<times> 's list
    \<Rightarrow> ('x \<times> 's list, string) result" where
  "keep_log rehydrate kind w = and_then (rehydrate kind (fst w)) (\<lambda>x. Ok (x, snd w))"

definition operation_run ::
  "(operation_journal \<Rightarrow> string) \<Rightarrow> (string \<Rightarrow> operation_journal option)
   \<Rightarrow> (operation_kind \<Rightarrow> 'x \<Rightarrow> ('x, string) result)
   \<Rightarrow> (operation_step \<Rightarrow> 'x \<Rightarrow> (unit, string) result \<times> 'x) \<Rightarrow> operation_kind
   \<Rightarrow> 'x \<times> write_end pass_end list \<Rightarrow> stored_file \<Rightarrow> operation_step list \<times> stored_file" where
  "operation_run encode decode rehydrate step kind i file =
     (case drive_journal encode decode (keep_log rehydrate) (logged step) (snd i) kind (fst i, []) file
      of (_, (_, log), file') \<Rightarrow> (log, file'))"

abbreviation recorded :: "(string \<Rightarrow> operation_journal option) \<Rightarrow> operation_kind \<Rightarrow> stored_file
    \<Rightarrow> operation_step list" where
  "recorded decode kind file \<equiv> completed (load_journal decode file kind)"

text \<open>
  The writes of an invocation: whether one tears the file, and that what a torn write leaves is
  not read as a journal. A cut text of a JSON object does not parse.
\<close>

definition untorn :: "'x \<times> write_end pass_end list \<Rightarrow> bool" where
  "untorn i \<longleftrightarrow> list_all (\<lambda>end. case end of KilledInStep \<Rightarrow> True | StepReturns w \<Rightarrow> \<not> tears w) (snd i)"

definition cut_short :: "(string \<Rightarrow> operation_journal option) \<Rightarrow> operation_kind
    \<Rightarrow> 'x \<times> write_end pass_end list \<Rightarrow> bool" where
  "cut_short decode kind i \<longleftrightarrow>
     (\<forall>w left. StepReturns w \<in> set (snd i) \<longrightarrow> torn_left w = Some left \<longrightarrow>
        load_journal decode left kind = journal_new kind)"

definition mended :: "'x \<times> write_end pass_end list \<Rightarrow> 'x \<times> write_end pass_end list" where
  "mended i = (fst i, map (\<lambda>end. case end of KilledInStep \<Rightarrow> KilledInStep | StepReturns w \<Rightarrow> StepReturns (mend w)) (snd i))"

lemma mended_untorn: "untorn (mended i)"
  by (auto simp: untorn_def mended_def list_all_iff mend_simps(1) split: pass_end.split)

lemma load_journal_kind: "journal_kind (load_journal decode f kind) = kind"
  by (cases f) (auto simp: journal_new_def split: option.split)

lemma operation_intact:
  assumes "\<And>j. decode (encode j) = Some j"
    and "list_all (\<lambda>end. case end of KilledInStep \<Rightarrow> True | StepReturns w \<Rightarrow> \<not> tears w) ends"
  shows "intact (\<lambda>j. steps (journal_kind j)) (\<lambda>f. load_journal decode f kind)
    (persist_journal encode) ends"
  unfolding intact_def
proof (intro allI impI)
  fix e and j :: operation_journal and f
  assume e: "StepReturns e \<in> set ends"
    and k: "steps (journal_kind j) = steps (journal_kind (load_journal decode f kind))"
  from e assms(2) have "\<not> tears e" by (auto simp: list_all_iff)
  with untorn_old_or_new [of e "encode j" f] assms(1) steps_inject [OF k]
  show "load_journal decode (snd (persist_journal encode e j f)) kind = load_journal decode f kind \<and>
      fst (persist_journal encode e j f) \<noteq> Some (Ok ()) \<or>
    load_journal decode (snd (persist_journal encode e j f)) kind = j"
    by (auto simp: persist_journal_def load_journal_kind)
qed

lemma operation_run_resumes:
  assumes "\<And>j. decode (encode j) = Some j" and "untorn i"
    and pre: "prefix (recorded decode kind file) (steps kind)"
    and run: "operation_run encode decode rehydrate step kind i file = (log, file')"
  shows "resumes (recorded decode kind) (steps kind) log file file'"
proof -
  let ?j = "load_journal decode file kind"
  obtain r x where drive: "drive_journal encode decode (keep_log rehydrate) (logged step) (snd i) kind
      (fst i, []) file = (r, (x, log), file')"
    using run by (auto simp: operation_run_def split: prod.splits)
  consider "log = []" "file' = file"
    | x0 where "drive_loop encode (logged step) (snd i) ?j (x0, []) file = (r, (x, log), file')"
    using drive
    by (auto simp: drive_journal_def keep_log_def Let_def split: sum.splits if_splits)
      (auto simp: result_simps)
  then show ?thesis
  proof cases
    case 1
    with pre show ?thesis by (auto simp: resumes_def)
  next
    case 2
    have "intact (\<lambda>j. steps (journal_kind j)) (\<lambda>f. load_journal decode f kind)
      (persist_journal encode) (snd i)"
      using assms(1,2) by (intro operation_intact) (auto simp: untorn_def)
    from operation.loop_runs_rest [OF this _ 2] pre show ?thesis
      by (auto simp: resumes_def ran_rest_def load_journal_kind)
  qed
qed

text \<open>
  A torn write ends the invocation, so it changes nothing but the file that is left.
\<close>

lemma mended_loop:
  assumes "drive_loop encode step ends j ctx f = (r, c, g)"
  shows "\<exists>g'. drive_loop encode step (snd (mended (x, ends))) j ctx f = (r, c, g') \<and>
    (g = g' \<or> (\<exists>w. StepReturns w \<in> set ends \<and> torn_left w = Some g))"
  using assms
proof (induction ends arbitrary: j ctx f)
  case Nil
  then show ?case by (simp add: mended_def)
next
  case (Cons a ends)
  show ?case
  proof (cases "journal_next j")
    case None
    with Cons.prems show ?thesis by (simp add: mended_def)
  next
    case (Some s)
    obtain r1 c1 where st: "step s ctx = (r1, c1)" by fastforce
    show ?thesis
    proof (cases a)
      case KilledInStep
      with Cons.prems Some st show ?thesis by (simp add: mended_def)
    next
      case (StepReturns w)
      let ?saved = "case r1 of Inr _ \<Rightarrow> journal_succeed j s | Inl why \<Rightarrow> journal_fail j s why"
      show ?thesis
      proof (cases ?saved)
        case (Inl e)
        with Cons.prems Some st StepReturns show ?thesis by (auto simp: mended_def split: sum.splits)
      next
        case (Inr k)
        obtain o1 g1 where w: "persist_journal encode w k f = (o1, g1)" by fastforce
        then obtain g2 where m: "persist_journal encode (mend w) k f = (o1, g2)"
          using mend_simps(2) [of w "encode k" f] by (cases "fs_write (mend w) (encode k) f") (auto simp: persist_journal_def)
        have g12: "g1 = g2 \<or> torn_left w = Some g1 \<and> o1 \<noteq> Some (Ok ())"
        proof (cases "torn_left w")
          case None
          then show ?thesis using w m mend_simps(3) [of w] by simp
        next
          case (Some left)
          then show ?thesis using w mend_simps(4) [OF Some, of "encode k" f] by (auto simp: persist_journal_def)
        qed
        show ?thesis
        proof (cases "\<exists>u v. o1 = Some (Ok u) \<and> r1 = Ok v")
          case True
          then have "drive_loop encode step ends k c1 g1 = (r, c, g)" "g1 = g2"
            using Cons.prems Some st StepReturns Inr w g12 by auto
          with Cons.IH [of k c1 g1] True Some st StepReturns Inr m show ?thesis by (auto simp: mended_def)
        next
          case False
          then have "drive_loop encode step (StepReturns v # rest) j ctx f = (fst (drive_loop encode step (StepReturns w # ends) j ctx f), c1, h)"
            if "persist_journal encode v k f = (o1, h)" for v h rest
            using that Some st Inr w by (auto split: sum.splits option.splits)
          from this [OF w, of ends] this [OF m, of "snd (mended (x, ends))"] Cons.prems StepReturns g12 show ?thesis
            by (auto simp: mended_def)
        qed
      qed
    qed
  qed
qed

lemma mended_run:
  assumes "operation_run encode decode rehydrate step kind i f = (log, g)"
  shows "\<exists>g'. operation_run encode decode rehydrate step kind (mended i) f = (log, g') \<and>
    (g = g' \<or> (\<exists>w. StepReturns w \<in> set (snd i) \<and> torn_left w = Some g))"
proof (cases "keep_log rehydrate kind (fst i, [] :: operation_step list)")
  case (Inl e)
  with assms show ?thesis by (auto simp: operation_run_def drive_journal_def mended_def Let_def)
next
  case (Inr c)
  let ?j = "load_journal decode f kind"
  show ?thesis
  proof (cases "journal_complete ?j")
    case True
    with Inr assms show ?thesis by (auto simp: operation_run_def drive_journal_def mended_def Let_def split: prod.splits)
  next
    case False
    obtain r y where run: "drive_loop encode (logged step) (snd i) ?j c f = (r, (y, log), g)"
      using Inr False assms by (auto simp: operation_run_def drive_journal_def Let_def split: prod.splits)
    from mended_loop [OF this, of "fst i"] obtain g' where
      "drive_loop encode (logged step) (snd (mended i)) ?j c f = (r, (y, log), g')"
      "g = g' \<or> (\<exists>w. StepReturns w \<in> set (snd i) \<and> torn_left w = Some g)" by auto
    moreover have "fst (mended i) = fst i" by (simp add: mended_def)
    ultimately show ?thesis using Inr False by (auto simp: operation_run_def drive_journal_def Let_def)
  qed
qed

definition torn_runs :: "('x \<times> write_end pass_end list) list \<Rightarrow> nat" where
  "torn_runs invocations = length (filter (\<lambda>i. \<not> untorn i) invocations)"

lemma torn_not_untorn: "StepReturns w \<in> set (snd i) \<Longrightarrow> torn_left w = Some left \<Longrightarrow> \<not> untorn i"
  by (auto simp: untorn_def list_all_iff mend_simps(5) split: pass_end.splits)

lemma torn_run_resumes:
  assumes "\<And>j. decode (encode j) = Some j" and "cut_short decode kind i"
    and "prefix (recorded decode kind f) (steps kind)"
    and "operation_run encode decode rehydrate step kind i f = (log, g)"
  shows "\<exists>g'. resumes (recorded decode kind) (steps kind) log f g' \<and>
    (recorded decode kind g = recorded decode kind g' \<or> \<not> untorn i \<and> recorded decode kind g = [])"
proof -
  obtain g' where g': "operation_run encode decode rehydrate step kind (mended i) f = (log, g')"
    "g = g' \<or> (\<exists>w. StepReturns w \<in> set (snd i) \<and> torn_left w = Some g)"
    using mended_run [OF assms(4)] by blast
  moreover have "recorded decode kind g = []" "\<not> untorn i" if "StepReturns w \<in> set (snd i)" "torn_left w = Some g" for w
    using that assms(2) torn_not_untorn by (fastforce simp: cut_short_def journal_new_def)+
  ultimately show ?thesis
    using operation_run_resumes [OF assms(1) mended_untorn assms(3) g'(1)] by blast
qed

lemma operation_runs_resume:
  assumes "\<And>j. decode (encode j) = Some j" and "list_all (cut_short decode kind) invocations"
    and "prefix (recorded decode kind f) (steps kind)"
    and "run_all (operation_run encode decode rehydrate step kind) invocations f = (log, g)"
  shows "prefix (recorded decode kind g) (steps kind) \<and>
    set (recorded decode kind g) \<subseteq> set (recorded decode kind f) \<union> set log \<and>
    length (recorded decode kind f) + length log
      \<le> length (recorded decode kind g) + length invocations + torn_runs invocations * length (steps kind)"
  using assms(2-)
proof (induction invocations arbitrary: f log)
  case (Cons i rest)
  let ?run = "operation_run encode decode rehydrate step kind" and ?rec = "recorded decode kind"
  obtain log1 f1 where i: "?run i f = (log1, f1)" by fastforce
  obtain log2 where rest: "run_all ?run rest f1 = (log2, g)" and log: "log = log1 @ log2"
    using Cons.prems(3) i by (auto split: prod.splits)
  obtain f' new unrecorded where one: "log1 = new @ unrecorded" "length unrecorded \<le> 1"
    "prefix (?rec f @ log1) (steps kind)" "?rec f' = ?rec f @ new"
    "?rec f1 = ?rec f' \<or> \<not> untorn i \<and> ?rec f1 = []"
    using torn_run_resumes [OF assms(1) _ Cons.prems(2) i] Cons.prems(1) by (auto simp: resumes_def)
  then have "prefix (?rec f1) (steps kind)" by (metis Nil_prefix append.assoc append_prefixD)
  with Cons.IH [OF _ this rest] Cons.prems(1)
  have more: "prefix (?rec g) (steps kind)" "set (?rec g) \<subseteq> set (?rec f1) \<union> set log2"
    "length (?rec f1) + length log2 \<le> length (?rec g) + length rest + torn_runs rest * length (steps kind)"
    by simp_all
  moreover have "length (?rec f) + length log1 \<le> length (?rec f1) + 1 + (if untorn i then 0 else length (steps kind))"
    using one prefix_length_le [OF one(3)] by auto
  moreover have "torn_runs (i # rest) = (if untorn i then 0 else 1) + torn_runs rest" by (simp add: torn_runs_def)
  ultimately show ?case using one log by (auto split: if_splits)
qed simp

lemma untorn_runs_resume:
  assumes "\<And>j. decode (encode j) = Some j" and "list_all untorn invocations"
    and "prefix (recorded decode kind f) (steps kind)"
    and "run_all (operation_run encode decode rehydrate step kind) invocations f = (log, g)"
  shows "prefix (recorded decode kind f) (recorded decode kind g) \<and> set (recorded decode kind f) \<inter> set log = {}"
proof -
  have run: "resumes (recorded decode kind) (steps kind) log f g" if "i \<in> set invocations"
    "prefix (recorded decode kind f) (steps kind)" "operation_run encode decode rehydrate step kind i f = (log, g)" for i f log g
    using that assms(1,2) by (intro operation_run_resumes) (auto simp: list_all_iff)
  show ?thesis
    using run_all_resumes [where recorded = "recorded decode kind" and plan = "steps kind",
        OF _ steps_distinct assms(3,4)] run by blast
qed

lemma recorded_Absent: "prefix (recorded decode kind Absent) (steps kind)"
  by (simp add: journal_new_def)

text \<open>
  C9. Administrative operations resume. However many invocations of an operation are killed,
  fail in a step, or fail to write the journal or are killed in writing it: what is recorded is
  a prefix of the plan and nothing is recorded that was not run. As long as no write tears the
  journal file, a step that it records is never run again, the record only grows, and each
  invocation runs at most one step it does not get recorded. A torn file is read as a new
  journal, so a torn write costs at most one more run of the plan.
\<close>

theorem operations_resume:
  assumes "\<And>j. decode (encode j) = Some j"
    and "list_all (cut_short decode kind) before" and "list_all (cut_short decode kind) after"
    and "run_all (operation_run encode decode rehydrate step kind) before Absent = (log1, file1)"
    and "run_all (operation_run encode decode rehydrate step kind) after file1 = (log2, file2)"
  shows "prefix (recorded decode kind file2) (steps kind) \<and>
    set (recorded decode kind file2) \<subseteq> set log1 \<union> set log2 \<and>
    length (recorded decode kind file1) + length log2
      \<le> length (recorded decode kind file2) + length after + torn_runs after * length (steps kind) \<and>
    (list_all untorn after \<longrightarrow> set (recorded decode kind file1) \<inter> set log2 = {} \<and>
       prefix (recorded decode kind file1) (recorded decode kind file2))"
proof -
  note first = operation_runs_resume [OF assms(1,2) recorded_Absent assms(4)]
  then have pre: "prefix (recorded decode kind file1) (steps kind)" by simp
  note second = operation_runs_resume [OF assms(1,3) pre assms(5)]
  from first second untorn_runs_resume [OF assms(1) _ pre assms(5)] show ?thesis
    by (auto simp: journal_new_def)
qed

lemma drive_journal_loop:
  assumes "rehydrate kind x = Ok y"
  shows "drive_journal encode decode (keep_log rehydrate) (logged step) ends kind (x, log) f =
    drive_loop encode (logged step) ends (load_journal decode f kind) (y, log) f"
  using assms
  by (cases ends) (auto simp: drive_journal_def keep_log_def Let_def journal_complete_def)

lemma journal_next_None: "completed j = steps (journal_kind j) \<Longrightarrow> journal_next j = None"
  by (auto simp: journal_next_def find_None_iff)

lemma operation_finishes:
  assumes codec: "\<And>j. decode (encode j) = Some j"
    and pre: "prefix (recorded decode kind f) (steps kind)"
    and good: "\<And>s w. fst (step s w) = Ok ()" and ready: "rehydrate kind x = Ok y"
    and n: "length (steps kind) \<le> n"
  obtains x' g where
    "drive_journal encode decode (keep_log rehydrate) (logged step) (replicate n (StepReturns Written))
       kind (x, []) f = (Some (Ok ()), (x', drop (length (recorded decode kind f)) (steps kind)), g)"
    and "recorded decode kind g = steps kind"
proof -
  let ?ends = "replicate n (StepReturns Written)"
  let ?j = "load_journal decode f kind" and ?rest = "drop (length (recorded decode kind f)) (steps kind)"
  have "recorded decode kind f @ ?rest = steps kind"
    using pre by (auto simp: prefix_def)
  then have "\<exists>x' g. drive_loop encode (logged step) ?ends ?j (y, []) f = (Some (Ok ()), (x', [] @ ?rest), g)"
    using good n by (intro operation.loop_finishes) (auto simp: persist_journal_def load_journal_kind)
  then obtain x' g where run:
    "drive_loop encode (logged step) ?ends ?j (y, []) f = (Some (Ok ()), (x', ?rest), g)"
    by auto
  have "intact (\<lambda>j. steps (journal_kind j)) (\<lambda>f. load_journal decode f kind)
    (persist_journal encode) ?ends"
    using codec by (intro operation_intact) (auto simp: list_all_iff)
  from operation.loop_runs_rest [OF this _ run] pre have "recorded decode kind g = steps kind"
    by (auto simp: ran_rest_def load_journal_kind)
  with that run show thesis by (simp add: drive_journal_loop [of rehydrate kind x y, OF ready])
qed

text \<open>
  C37. Administrative operations finish, and then never run again. After any interrupted
  invocations, an invocation in which every step succeeds and every write
  is done runs exactly the steps that were not recorded, reports success and leaves all of
  them recorded. Every later invocation of the same operation reports success without
  running a step, since nothing starts a new journal.
\<close>

theorem operations_finish:
  assumes "\<And>j. decode (encode j) = Some j" and "list_all (cut_short decode kind) before"
    and "run_all (operation_run encode decode rehydrate step kind) before Absent = (log1, file1)"
    and "\<And>s w. fst (step s w) = Ok ()" and "\<And>x. rehydrate kind x = Ok (ready x)"
    and "length (steps kind) \<le> n"
  shows "\<exists>x' file2.
    drive_journal encode decode (keep_log rehydrate) (logged step) (replicate n (StepReturns Written))
      kind (x, []) file1 =
      (Some (Ok ()), (x', drop (length (recorded decode kind file1)) (steps kind)), file2) \<and>
    recorded decode kind file2 = steps kind \<and>
    (\<forall>y ends. drive_journal encode decode (keep_log rehydrate) (logged step) ends kind (y, []) file2 =
      (Some (Ok ()), (ready y, []), file2))"
proof -
  from operation_runs_resume [OF assms(1,2) recorded_Absent assms(3)]
  have "prefix (recorded decode kind file1) (steps kind)" by simp
  from operation_finishes [where kind = kind and rehydrate = rehydrate and step = step and x = x, OF assms(1) this assms(4-6)]
  obtain x' file2 where run: "drive_journal encode decode (keep_log rehydrate) (logged step)
        (replicate n (StepReturns Written)) kind (x, []) file1 =
        (Some (Ok ()), (x', drop (length (recorded decode kind file1)) (steps kind)), file2)"
      and all: "recorded decode kind file2 = steps kind"
    by blast
  have "drive_journal encode decode (keep_log rehydrate) (logged step) ends kind (y, []) file2 =
      (Some (Ok ()), (ready y, []), file2)" for y ends
    using journal_next_None [of "load_journal decode file2 kind"] all
    by (cases ends) (auto simp: drive_journal_loop [of rehydrate kind, OF assms(5)] load_journal_kind)
  with run all show ?thesis by blast
qed

text \<open>
  A write that tears the file loses the whole journal: what does not parse is read as a new
  journal, and the steps are run again from the first.
\<close>

lemma torn_journal_restarts:
  assumes "decode text = None"
  shows "load_journal decode (Contents text) kind = journal_new kind"
  using assms by simp

section \<open>A codec, and one backup\<close>

definition all_steps :: "operation_step list" where
  "all_steps =
     [Preflight, VerifyArtifacts, QuiesceWrites, SnapshotStores, CaptureCatalog, HashArtifacts,
      SignManifest, ResumeWrites, VerifyManifest, PrepareTarget, RestoreStores, ApplyCatalog,
      VerifyIntegrity, DrainServices, ApplyUpgrade, MigrateSchema, StartServices,
      CheckConfiguration, CheckDependencies, CheckStorage, CheckRuntime, CheckSecurity,
      CollectDiagnostics, RedactSecrets, PackageBundle, Health]"

definition letter :: "'a list \<Rightarrow> 'a \<Rightarrow> char" where
  "letter xs x = char_of (length (takeWhile (\<lambda>y. y \<noteq> x) xs))"

definition step_of :: "char \<Rightarrow> operation_step" where
  "step_of c = all_steps ! of_char c"

definition all_kinds :: "operation_kind list" where
  "all_kinds = [Upgrade, Backup, Restore, Doctor, SupportBundle]"

definition kind_of :: "char \<Rightarrow> operation_kind" where
  "kind_of c = all_kinds ! of_char c"

definition sample_encode :: "operation_journal \<Rightarrow> string" where
  "sample_encode j =
     letter all_kinds (journal_kind j) # map (letter all_steps) (completed j) @
     (case journal_failure j of
        None \<Rightarrow> []
      | Some e \<Rightarrow> CHR ''!'' # letter all_steps (failed_step e) # failed_reason e)"

fun sample_decode :: "string \<Rightarrow> operation_journal option" where
  "sample_decode [] = None"
| "sample_decode (k # rest) =
     Some \<lparr>journal_kind = kind_of k,
       completed = map step_of (takeWhile (\<lambda>c. c \<noteq> CHR ''!'') rest),
       journal_failure =
         (case dropWhile (\<lambda>c. c \<noteq> CHR ''!'') rest of
            _ # s # reason \<Rightarrow> Some \<lparr>failed_step = step_of s, failed_reason = reason\<rparr>
          | _ \<Rightarrow> None)\<rparr>"

lemma step_of_letter: "step_of (letter all_steps s) = s"
  by (cases s) (simp_all add: step_of_def letter_def all_steps_def)

lemma kind_of_letter: "kind_of (letter all_kinds k) = k"
  by (cases k) (simp_all add: kind_of_def letter_def all_kinds_def)

lemma letter_not_mark: "letter all_steps s \<noteq> CHR ''!''"
proof
  assume "letter all_steps s = CHR ''!''"
  then have "of_char (letter all_steps s) = (33 :: nat)" by simp
  then show False by (cases s) (simp_all add: letter_def all_steps_def)
qed

lemma sample_codec: "sample_decode (sample_encode j) = Some j"
proof -
  have "takeWhile (\<lambda>c. c \<noteq> CHR ''!'') (map (letter all_steps) xs @ ys) =
      map (letter all_steps) xs @ takeWhile (\<lambda>c. c \<noteq> CHR ''!'') ys"
    and "dropWhile (\<lambda>c. c \<noteq> CHR ''!'') (map (letter all_steps) xs @ ys) =
      dropWhile (\<lambda>c. c \<noteq> CHR ''!'') ys" for xs ys
    by (induction xs) (simp_all add: letter_not_mark)
  then show ?thesis
    by (cases j)
      (auto simp: sample_encode_def kind_of_letter step_of_letter comp_def split: option.split)
qed

text \<open>
  Invocations of a backup: the first is killed in its second step, the second fails to write
  the journal after the third, and the last is killed writing it, which leaves an empty file.
\<close>

definition sample_invocations :: "(nat \<times> write_end pass_end list) list" where
  "sample_invocations =
     [(0, [StepReturns Written, KilledInStep]),
      (0, [StepReturns Written, StepReturns (WriteFails ''disk full'' Kept)])]"

definition sample_torn :: "(nat \<times> write_end pass_end list) list" where
  "sample_torn = [(0, [StepReturns (WriteKilled (Torn (Contents [])))])]"

definition sample_step :: "operation_step \<Rightarrow> nat \<Rightarrow> (unit, string) result \<times> nat" where
  "sample_step s n = (Ok (), n + 1)"

definition sample_rehydrate :: "operation_kind \<Rightarrow> nat \<Rightarrow> (nat, string) result" where
  "sample_rehydrate kind n = Ok n"

lemma sample_writes:
  "list_all untorn sample_invocations" "list_all (cut_short sample_decode Backup) sample_invocations"
  "list_all (cut_short sample_decode Backup) [hd sample_invocations]"
  "list_all (cut_short sample_decode Backup) (sample_invocations @ sample_torn)"
  "torn_runs (sample_invocations @ sample_torn) = 1"
  by (simp_all add: untorn_def cut_short_def sample_invocations_def sample_torn_def torn_runs_def)

lemma sample_backup:
  "run_all (operation_run sample_encode sample_decode sample_rehydrate sample_step Backup)
     [hd sample_invocations] Absent =
   ([Preflight, QuiesceWrites],
    Contents (sample_encode \<lparr>journal_kind = Backup, completed = [Preflight], journal_failure = None\<rparr>))"
  by (simp add: sample_invocations_def operation_run_def drive_journal_loop sample_rehydrate_def
      logged_def sample_step_def journal_new_def journal_next_def journal_succeed_def require_next_def
      persist_journal_def)

theorem operations_resume_witness:
  "\<exists>log1 file1 log2 file2 log3 file3.
     run_all (operation_run sample_encode sample_decode sample_rehydrate sample_step Backup)
       [hd sample_invocations] Absent = (log1, file1) \<and>
     run_all (operation_run sample_encode sample_decode sample_rehydrate sample_step Backup)
       sample_invocations file1 = (log2, file2) \<and>
     run_all (operation_run sample_encode sample_decode sample_rehydrate sample_step Backup)
       (sample_invocations @ sample_torn) file1 = (log3, file3) \<and>
     recorded sample_decode Backup file1 = [Preflight] \<and> Preflight \<notin> set log2 \<and>
     length (recorded sample_decode Backup file1) + length log3
       \<le> length (recorded sample_decode Backup file3) + 3 + length (steps Backup)"
proof -
  let ?run = "operation_run sample_encode sample_decode sample_rehydrate sample_step Backup"
  obtain log2 file2 log3 file3 where runs: "run_all ?run sample_invocations (snd (run_all ?run [hd sample_invocations] Absent)) = (log2, file2)"
    "run_all ?run (sample_invocations @ sample_torn) (snd (run_all ?run [hd sample_invocations] Absent)) = (log3, file3)"
    by (metis surj_pair)
  note one = operations_resume [where rehydrate = sample_rehydrate and step = sample_step and kind = Backup,
      OF sample_codec sample_writes(3,2) surjective_pairing runs(1)]
  note two = operations_resume [where rehydrate = sample_rehydrate and step = sample_step and kind = Backup,
      OF sample_codec sample_writes(3,4) surjective_pairing runs(2)]
  have three: "length (sample_invocations @ sample_torn) = 3"
    by (simp add: sample_invocations_def sample_torn_def)
  from one two runs sample_writes(1,5) three show ?thesis
    unfolding sample_backup by (simp add: sample_codec)
qed

theorem operations_finish_witness:
  "\<exists>x' file2.
    drive_journal sample_encode sample_decode (keep_log sample_rehydrate) (logged sample_step)
      (replicate 8 (StepReturns Written)) Backup (0, []) (snd (run_all
        (operation_run sample_encode sample_decode sample_rehydrate sample_step Backup)
        [hd sample_invocations] Absent)) =
      (Some (Ok ()), (x', [QuiesceWrites, SnapshotStores, CaptureCatalog, HashArtifacts, SignManifest,
         ResumeWrites, VerifyIntegrity]), file2)"
  using operations_finish [where rehydrate = sample_rehydrate and step = sample_step and kind = Backup
      and ready = id and n = 8 and x = 0, OF sample_codec sample_writes(3) sample_backup]
  unfolding sample_backup by (auto simp: sample_codec sample_step_def sample_rehydrate_def)

end
