(* ===== verification/Bootstrap.thy ===== *)
theory Bootstrap
  imports Resumable
begin

text \<open>
  The bootstrap of a host: the stages and the progress of
  \<open>crates/aseman-domain/src/bootstrap.rs\<close>, and the driver of
  \<open>apps/asemanctl/src/cli/bootstrap.rs\<close> with the stages that only look (preflight, topology,
  artifacts). The host is the parameter \<open>host\<close>; the stages that generate keys and start
  services are the parameter \<open>act\<close>. The progress file is replaced with \<open>write_atomic\<close>.
\<close>

section \<open>Progress\<close>

datatype stage = Preflight | Topology | Artifacts | Identity | Schema | Services | Health

definition ALL_STAGES :: "stage list" where
  "ALL_STAGES = [Preflight, Topology, Artifacts, Identity, Schema, Services, Health]"

text \<open>The derived order is the order of the declaration.\<close>

instantiation stage :: linorder
begin

definition less_eq_stage :: "stage \<Rightarrow> stage \<Rightarrow> bool" where
  "less_eq_stage a b \<longleftrightarrow>
     length (takeWhile (\<lambda>s. s \<noteq> a) ALL_STAGES) \<le> length (takeWhile (\<lambda>s. s \<noteq> b) ALL_STAGES)"

definition less_stage :: "stage \<Rightarrow> stage \<Rightarrow> bool" where
  "less_stage a b \<longleftrightarrow>
     length (takeWhile (\<lambda>s. s \<noteq> a) ALL_STAGES) < length (takeWhile (\<lambda>s. s \<noteq> b) ALL_STAGES)"

instance
proof
  fix a b :: stage
  assume "a \<le> b" and "b \<le> a"
  then show "a = b" by (cases a; cases b) (simp_all add: less_eq_stage_def ALL_STAGES_def)
qed (auto simp: less_eq_stage_def less_stage_def)

end

fun stage_as_str :: "stage \<Rightarrow> string" where
  "stage_as_str Preflight = ''preflight''"
| "stage_as_str Topology = ''topology''"
| "stage_as_str Artifacts = ''artifacts''"
| "stage_as_str Identity = ''identity''"
| "stage_as_str Schema = ''schema''"
| "stage_as_str Services = ''services''"
| "stage_as_str Health = ''health''"

definition rollback_is_destructive :: "stage \<Rightarrow> bool" where
  "rollback_is_destructive s \<longleftrightarrow> s = Schema \<or> s = Services \<or> s = Health"

datatype stage_outcome = Done | StageFailed string

record progress =
  stages_done :: "stage list"
  stage_failed :: "(stage \<times> string) option"

definition progress_default :: progress where
  "progress_default = \<lparr>stages_done = [], stage_failed = None\<rparr>"

definition is_done :: "progress \<Rightarrow> stage \<Rightarrow> bool" where
  "is_done p s \<longleftrightarrow> s \<in> set (stages_done p)"

definition next_stage :: "progress \<Rightarrow> stage option" where
  "next_stage p = List.find (\<lambda>s. \<not> is_done p s) ALL_STAGES"

datatype bootstrap_error = AlreadyDone stage | StageOutOfOrder stage

definition record_outcome :: "progress \<Rightarrow> stage \<Rightarrow> stage_outcome \<Rightarrow> (progress, bootstrap_error) result"
  where
  "record_outcome p s outcome =
     (if is_done p s then Err (AlreadyDone s)
      else if next_stage p \<noteq> Some s then Err (StageOutOfOrder s)
      else case outcome of
        Done \<Rightarrow> Ok (p\<lparr>stages_done := stages_done p @ [s], stage_failed := None\<rparr>)
      | StageFailed reason \<Rightarrow> Ok (p\<lparr>stage_failed := Some (s, reason)\<rparr>))"

definition progress_complete :: "progress \<Rightarrow> bool" where
  "progress_complete p \<longleftrightarrow> next_stage p = None"

datatype rollback = Undo | RollForward

definition rollback_of :: "stage \<Rightarrow> rollback" where
  "rollback_of s = (if rollback_is_destructive s then RollForward else Undo)"

record preflight_finding =
  preflight_check :: string
  preflight_fatal :: bool
  preflight_detail :: string

definition preflight_passed :: "preflight_finding list \<Rightarrow> bool" where
  "preflight_passed findings \<longleftrightarrow> \<not> list_ex preflight_fatal findings"

section \<open>The stages that look\<close>

datatype backend = Nomad | Native

fun backend_service :: "backend \<Rightarrow> string" where
  "backend_service Nomad = ''nomad-backend''"
| "backend_service Native = ''native-backend''"

definition expected_services :: "backend \<Rightarrow> string list" where
  "expected_services b = [''postgres'', ''vmm'', backend_service b, ''node'', ''meter'']"

text \<open>The options the stages read, and what they ask of the host.\<close>

record options =
  node_image :: string
  vmm_image :: string
  meter_image :: string
  opt_backend :: backend
  backend_image :: string
  public_port :: u16
  health_port :: u16
  allow_unsigned_local :: bool

record host =
  host_os :: string
  cgroup_v2 :: bool
  kvm :: bool
  port_in_use :: "u16 \<Rightarrow> bool"
  compose_version :: "(unit, string) result"
  openssl_version :: "(unit, string) result"
  compose_is_file :: bool
  compose_text :: "(string, string) result"

definition port_finding :: "host \<Rightarrow> string \<Rightarrow> u16 \<Rightarrow> preflight_finding" where
  "port_finding host check port =
     (let busy = port_in_use host port in
      \<lparr>preflight_check = check, preflight_fatal = busy,
       preflight_detail =
         (if busy
          then ''127.0.0.1:'' @ show_nat (unat port) @
            '' is already in use; choose another with --'' @ check
          else show_nat (unat port) @ '' free'')\<rparr>)"

definition preflight_findings :: "options \<Rightarrow> host \<Rightarrow> preflight_finding list" where
  "preflight_findings opts host =
     [\<lparr>preflight_check = ''linux'', preflight_fatal = host_os host \<noteq> ''linux'',
        preflight_detail = host_os host\<rparr>,
      \<lparr>preflight_check = ''cgroup-v2'', preflight_fatal = \<not> cgroup_v2 host,
        preflight_detail = ''/sys/fs/cgroup/cgroup.controllers''\<rparr>,
      \<lparr>preflight_check = ''kvm'', preflight_fatal = False,
        preflight_detail =
          (if kvm host then ''available''
           else ''not available; container workloads remain supported'')\<rparr>,
      port_finding host ''public-port'' (public_port opts),
      port_finding host ''health-port'' (health_port opts)]"

definition preflight :: "options \<Rightarrow> host \<Rightarrow> (unit, string) result" where
  "preflight opts host =
     (if \<not> preflight_passed (preflight_findings opts host)
      then Err ''host preflight has fatal findings''
      else
        and_then (compose_version host) (\<lambda>_.
        and_then (openssl_version host) (\<lambda>_.
        if \<not> compose_is_file host then Err ''compose profile does not exist'' else Ok ())))"

fun omitted_service :: "string \<Rightarrow> string list \<Rightarrow> (unit, string) result" where
  "omitted_service profile [] = Ok ()"
| "omitted_service profile (service # rest) =
     (if \<not> sublist (''  '' @ service @ '':'') profile
      then Err (''compact profile omits '' @ service)
      else omitted_service profile rest)"

definition topology :: "options \<Rightarrow> host \<Rightarrow> (unit, string) result" where
  "topology opts host =
     and_then (compose_text host) (\<lambda>profile.
     and_then (omitted_service profile (expected_services (opt_backend opts))) (\<lambda>_.
     if \<not> sublist ''network_mode: service:vmm'' profile
     then Err ''compact profile does not keep A504 in the VMM network namespace''
     else Ok ()))"

fun rsplit_once :: "string \<Rightarrow> string \<Rightarrow> (string \<times> string) option" where
  "rsplit_once sep [] = (if sep = [] then Some ([], []) else None)"
| "rsplit_once sep (c # cs) =
     (case rsplit_once sep cs of
        Some (a, b) \<Rightarrow> Some (c # a, b)
      | None \<Rightarrow> if prefix sep (c # cs) then Some ([], drop (length sep) (c # cs)) else None)"

definition pinned :: "string \<Rightarrow> bool" where
  "pinned img \<longleftrightarrow>
     sublist ''@sha256:'' img \<and>
     is_some_and (\<lambda>(_, digest). length digest = 64 \<and> list_all is_ascii_hexdigit digest)
       (rsplit_once ''@sha256:'' img)"

fun check_images :: "bool \<Rightarrow> (string \<times> string) list \<Rightarrow> (unit, string) result" where
  "check_images allow [] = Ok ()"
| "check_images allow ((name, img) # rest) =
     (if \<not> pinned img \<and> \<not> allow
      then Err (name @ '' image '' @ img @ '' is not digest-pinned; use a signed release digest or --allow-unsigned-local for development'')
      else check_images allow rest)"

definition artifacts :: "options \<Rightarrow> (unit, string) result" where
  "artifacts opts =
     check_images (allow_unsigned_local opts)
       [(''node'', node_image opts), (''vmm'', vmm_image opts), (''meter'', meter_image opts),
        (backend_service (opt_backend opts), backend_image opts)]"

fun execute_stage ::
  "options \<Rightarrow> ('x \<Rightarrow> host) \<Rightarrow> (stage \<Rightarrow> 'x \<Rightarrow> (unit, string) result \<times> 'x) \<Rightarrow> stage \<Rightarrow> 'x
   \<Rightarrow> (unit, string) result \<times> 'x" where
  "execute_stage opts host act Preflight x = (preflight opts (host x), x)"
| "execute_stage opts host act Topology x = (topology opts (host x), x)"
| "execute_stage opts host act Artifacts x = (artifacts opts, x)"
| "execute_stage opts host act s x = act s x"

section \<open>The driver\<close>

fun read_progress :: "(string \<Rightarrow> progress option) \<Rightarrow> stored_file \<Rightarrow> (progress, string) result" where
  "read_progress decode (Contents bytes) = ok_or ''parse bootstrap progress'' (decode bytes)"
| "read_progress decode Absent = Ok progress_default"
| "read_progress decode (Unreadable e) = Err (''read bootstrap progress: '' @ e)"

definition write_progress ::
  "(progress \<Rightarrow> string) \<Rightarrow> atomic_end \<Rightarrow> progress \<Rightarrow> stored_file
   \<Rightarrow> (unit, string) result option \<times> stored_file" where
  "write_progress encode end p file = write_atomic end (encode p) file"

fun bootstrap_loop ::
  "(progress \<Rightarrow> string) \<Rightarrow> (stage \<Rightarrow> 'x \<Rightarrow> (unit, string) result \<times> 'x)
   \<Rightarrow> atomic_end pass_end list \<Rightarrow> progress \<Rightarrow> 'x \<Rightarrow> stored_file
   \<Rightarrow> (stage, bootstrap_error, 'x, stored_file) run" where
  "bootstrap_loop encode execute [] p x file =
     (case next_stage p of
        None \<Rightarrow> (Some (Ok ()), x, file)
      | Some _ \<Rightarrow> (None, x, file))"
| "bootstrap_loop encode execute (end # ends) p x file =
     (case next_stage p of
        None \<Rightarrow> (Some (Ok ()), x, file)
      | Some s \<Rightarrow>
          (case (end, execute s x) of
             (KilledInStep, (_, x)) \<Rightarrow> (None, x, file)
           | (StepReturns w, (Inr _, x)) \<Rightarrow>
               (case record_outcome p s Done of
                  Inl e \<Rightarrow> (Some (Err (JournalError e)), x, file)
                | Inr p \<Rightarrow>
                    (case write_progress encode w p file of
                       (None, file) \<Rightarrow> (None, x, file)
                     | (Some (Inl why), file) \<Rightarrow> (Some (Err (NotWritten why)), x, file)
                     | (Some (Inr _), file) \<Rightarrow> bootstrap_loop encode execute ends p x file))
           | (StepReturns w, (Inl error, x)) \<Rightarrow>
               (case record_outcome p s (StageFailed error) of
                  Inl e \<Rightarrow> (Some (Err (JournalError e)), x, file)
                | Inr p \<Rightarrow>
                    (case write_progress encode w p file of
                       (None, file) \<Rightarrow> (None, x, file)
                     | (Some (Inl why), file) \<Rightarrow> (Some (Err (NotWritten why)), x, file)
                     | (Some (Inr _), file) \<Rightarrow> (Some (Err (StepFailed s error)), x, file)))))"

text \<open>\<open>run_bootstrap\<close> once the options are parsed and the state directory exists.\<close>

definition run_bootstrap ::
  "(progress \<Rightarrow> string) \<Rightarrow> (string \<Rightarrow> progress option)
   \<Rightarrow> (stage \<Rightarrow> 'x \<Rightarrow> (unit, string) result \<times> 'x) \<Rightarrow> atomic_end pass_end list \<Rightarrow> 'x \<Rightarrow> stored_file
   \<Rightarrow> (stage, bootstrap_error, 'x, stored_file) run" where
  "run_bootstrap encode decode execute ends x file =
     (case read_progress decode file of
        Inl why \<Rightarrow> (Some (Err (NotReady why)), x, file)
      | Inr p \<Rightarrow> bootstrap_loop encode execute ends p x file)"

section \<open>The contract\<close>

lemma record_Done_Ok:
  "record_outcome p s Done = Ok q \<longleftrightarrow>
   next_stage p = Some s \<and> q = p\<lparr>stages_done := stages_done p @ [s], stage_failed := None\<rparr>"
  by (auto simp: record_outcome_def next_stage_def find_Some_iff)

lemma record_Failed_Ok:
  "record_outcome p s (StageFailed why) = Ok q \<longleftrightarrow>
   next_stage p = Some s \<and> q = p\<lparr>stage_failed := Some (s, why)\<rparr>"
  by (auto simp: record_outcome_def next_stage_def find_Some_iff)

lemma ALL_STAGES_distinct: "distinct ALL_STAGES"
  by (simp add: ALL_STAGES_def)

interpretation bootstrap: journal_driver "\<lambda>_. ALL_STAGES" stages_done next_stage
  "\<lambda>p s. record_outcome p s Done" "\<lambda>p s why. record_outcome p s (StageFailed why)"
  "write_progress encode" "bootstrap_loop encode"
  for encode
proof (unfold_locales, goal_cases)
  case (7 j step ends w f)
  then show ?case by (cases ends) simp_all
next
  case 10
  then show ?case by simp
next
  case 11
  then show ?case by simp
qed (auto simp: ALL_STAGES_distinct record_Done_Ok record_Failed_Ok next_stage_def is_done_def
  split: prod.split)

section \<open>Interrupted bootstraps\<close>

definition bootstrap_run ::
  "(progress \<Rightarrow> string) \<Rightarrow> (string \<Rightarrow> progress option)
   \<Rightarrow> (stage \<Rightarrow> 'x \<Rightarrow> (unit, string) result \<times> 'x) \<Rightarrow> 'x \<times> atomic_end pass_end list
   \<Rightarrow> stored_file \<Rightarrow> stage list \<times> stored_file" where
  "bootstrap_run encode decode execute i file =
     (case run_bootstrap encode decode (logged execute) (snd i) (fst i, []) file of
        (_, (_, log), file') \<Rightarrow> (log, file'))"

text \<open>What the file says is done: nothing when it cannot be read.\<close>

definition held :: "(string \<Rightarrow> progress option) \<Rightarrow> stored_file \<Rightarrow> progress" where
  "held decode file = (case read_progress decode file of Inl _ \<Rightarrow> progress_default | Inr p \<Rightarrow> p)"

lemma bootstrap_intact:
  assumes "\<And>p. decode (encode p) = Some p"
  shows "intact (\<lambda>_. ALL_STAGES) (held decode) (write_progress encode) ends"
  unfolding intact_def
proof (intro allI impI)
  fix e and p :: progress and f
  show "held decode (snd (write_progress encode e p f)) = held decode f \<and>
      fst (write_progress encode e p f) \<noteq> Some (Ok ()) \<or>
    held decode (snd (write_progress encode e p f)) = p"
    using write_atomic_old_or_new [of e "encode p" f] assms
    by (auto simp: write_progress_def held_def)
qed

lemma bootstrap_run_resumes:
  assumes "\<And>p. decode (encode p) = Some p"
    and pre: "prefix (stages_done (held decode f)) ALL_STAGES"
    and run: "bootstrap_run encode decode execute i f = (log, g)"
  shows "resumes (\<lambda>f. stages_done (held decode f)) ALL_STAGES log f g"
proof (cases "read_progress decode f")
  case (Inl why)
  with run pre show ?thesis by (auto simp: bootstrap_run_def run_bootstrap_def resumes_def)
next
  case (Inr p)
  then have p: "held decode f = p" by (simp add: held_def)
  obtain r x where "bootstrap_loop encode (logged execute) (snd i) (held decode f) (fst i, []) f =
      (r, (x, log), g)"
    using run Inr p by (auto simp: bootstrap_run_def run_bootstrap_def split: prod.splits)
  from bootstrap.loop_runs_rest [OF bootstrap_intact [OF assms(1)] pre this] show ?thesis
    by (auto simp: resumes_def ran_rest_def)
qed

lemma bootstrap_runs_resume:
  assumes "\<And>p. decode (encode p) = Some p"
    and "prefix (stages_done (held decode f)) ALL_STAGES"
    and "run_all (bootstrap_run encode decode execute) invocations f = (log, g)"
  shows "prefix (stages_done (held decode f)) (stages_done (held decode g)) \<and>
    prefix (stages_done (held decode g)) ALL_STAGES \<and>
    set (stages_done (held decode f)) \<inter> set log = {} \<and>
    set (stages_done (held decode g)) \<subseteq> set (stages_done (held decode f)) \<union> set log \<and>
    length (stages_done (held decode f)) + length log
      \<le> length (stages_done (held decode g)) + length invocations"
  by (rule run_all_resumes [where recorded = "\<lambda>f. stages_done (held decode f)",
        OF bootstrap_run_resumes [OF assms(1)] ALL_STAGES_distinct assms(2,3)])

text \<open>
  C38. A stage that has succeeded is never run again. Over any invocations of the bootstrap,
  killed or failing anywhere, the writes of the progress file included: the stages recorded
  as done are a prefix of the plan that only grows, no recorded stage is in what later
  invocations run, nothing is recorded that was not run, and an invocation runs at most one
  stage it does not get recorded. A stage whose rollback would destroy data comes only after
  every stage that may be undone.
\<close>

theorem bootstrap_resumes:
  assumes "\<And>p. decode (encode p) = Some p"
    and "run_all (bootstrap_run encode decode execute) before Absent = (log1, file1)"
    and "run_all (bootstrap_run encode decode execute) after file1 = (log2, file2)"
  shows "set (stages_done (held decode file1)) \<inter> set log2 = {} \<and>
    prefix (stages_done (held decode file1)) (stages_done (held decode file2)) \<and>
    prefix (stages_done (held decode file2)) ALL_STAGES \<and>
    set (stages_done (held decode file2)) \<subseteq> set log1 \<union> set log2 \<and>
    length (stages_done (held decode file1)) + length log2
      \<le> length (stages_done (held decode file2)) + length after \<and>
    (\<forall>s t. rollback_of s = Undo \<longrightarrow> rollback_of t = RollForward \<longrightarrow> s < t)"
proof -
  have none: "stages_done (held decode Absent) = []"
    by (simp add: held_def progress_default_def)
  then have "prefix (stages_done (held decode Absent)) ALL_STAGES" by simp
  note first = bootstrap_runs_resume [OF assms(1) this assms(2)]
  then have "prefix (stages_done (held decode file1)) ALL_STAGES" by simp
  note second = bootstrap_runs_resume [OF assms(1) this assms(3)]
  have "rollback_of s = Undo \<longrightarrow> rollback_of t = RollForward \<longrightarrow> s < t" for s t
    by (cases s; cases t)
      (simp_all add: rollback_of_def rollback_is_destructive_def less_stage_def ALL_STAGES_def)
  with first second none show ?thesis by auto
qed

section \<open>A codec, and one bootstrap\<close>

definition stage_letter :: "stage \<Rightarrow> char" where
  "stage_letter s = char_of (length (takeWhile (\<lambda>t. t \<noteq> s) ALL_STAGES))"

definition stage_of :: "char \<Rightarrow> stage" where
  "stage_of c = ALL_STAGES ! of_char c"

definition progress_text :: "progress \<Rightarrow> string" where
  "progress_text p =
     map stage_letter (stages_done p) @
     (case stage_failed p of None \<Rightarrow> [] | Some (s, why) \<Rightarrow> CHR ''!'' # stage_letter s # why)"

definition text_progress :: "string \<Rightarrow> progress option" where
  "text_progress t =
     Some \<lparr>stages_done = map stage_of (takeWhile (\<lambda>c. c \<noteq> CHR ''!'') t),
       stage_failed =
         (case dropWhile (\<lambda>c. c \<noteq> CHR ''!'') t of
            _ # s # why \<Rightarrow> Some (stage_of s, why)
          | _ \<Rightarrow> None)\<rparr>"

lemma stage_of_letter: "stage_of (stage_letter s) = s"
  by (cases s) (simp_all add: stage_of_def stage_letter_def ALL_STAGES_def)

lemma stage_letter_not_mark: "stage_letter s \<noteq> CHR ''!''"
proof
  assume "stage_letter s = CHR ''!''"
  then have "of_char (stage_letter s) = (33 :: nat)" by simp
  then show False by (cases s) (simp_all add: stage_letter_def ALL_STAGES_def)
qed

lemma progress_codec: "text_progress (progress_text p) = Some p"
proof -
  have "takeWhile (\<lambda>c. c \<noteq> CHR ''!'') (map stage_letter xs @ ys) =
      map stage_letter xs @ takeWhile (\<lambda>c. c \<noteq> CHR ''!'') ys"
    and "dropWhile (\<lambda>c. c \<noteq> CHR ''!'') (map stage_letter xs @ ys) =
      dropWhile (\<lambda>c. c \<noteq> CHR ''!'') ys" for xs ys
    by (induction xs) (simp_all add: stage_letter_not_mark)
  then show ?thesis
    by (cases p)
      (auto simp: progress_text_def text_progress_def stage_of_letter comp_def split: option.split)
qed

definition sample_stage :: "stage \<Rightarrow> nat \<Rightarrow> (unit, string) result \<times> nat" where
  "sample_stage s n = (if s = Topology then Err ''no such file'' else Ok (), n + 1)"

lemma sample_bootstrap:
  "run_all (bootstrap_run progress_text text_progress sample_stage)
     [(0, [StepReturns Synced, StepReturns Synced])] Absent =
   ([Preflight, Topology],
    Contents (progress_text \<lparr>stages_done = [Preflight],
      stage_failed = Some (Topology, ''no such file'')\<rparr>))"
  by (simp add: bootstrap_run_def run_bootstrap_def logged_def sample_stage_def progress_default_def
      next_stage_def is_done_def ALL_STAGES_def record_outcome_def write_progress_def write_atomic_def)

theorem bootstrap_resumes_witness:
  "Preflight \<notin> set (fst (run_all (bootstrap_run progress_text text_progress sample_stage)
      [(0, [KilledInStep]), (5, [StepReturns (SyncFails ''io'')])]
      (snd (run_all (bootstrap_run progress_text text_progress sample_stage)
        [(0, [StepReturns Synced, StepReturns Synced])] Absent))))"
  using bootstrap_resumes [where execute = sample_stage
      and after = "[(0, [KilledInStep]), (5, [StepReturns (SyncFails ''io'')])]",
      OF progress_codec sample_bootstrap surjective_pairing]
  unfolding sample_bootstrap by (simp add: held_def progress_codec del: run_all.simps)

end
