(* ===== verification/Governance.thy ===== *)
theory Governance
  imports Key_Directory "HOL-Library.AList" "HOL-Library.Product_Lexorder"
begin

text \<open>
  Validator governance of the consensus engine
  (\<open>modules/consensus/hashgraph/src/governance\<close>): the staking ledger, the commit and reveal
  rounds of the weighted election, and the packet handlers over both. SHA-256 is the
  parameter \<open>sha\<close>. Hash maps are association lists with distinct keys; where the code
  iterates over one, its order is the list's.
\<close>

section \<open>The staking ledger\<close>

datatype stake_action = Bond | Unbond | Slash

record validator_stake =
  stake_node_id :: string
  stake_owner_id :: string
  bonded_stake :: i64
  pending_unbond :: i64
  unbond_unlock_at :: i64
  stake_nonce :: u64
  last_updated_at :: i64

record stake_request =
  req_node_id :: string
  req_owner_id :: string
  req_action :: stake_action
  req_amount :: i64
  req_nonce :: u64
  req_lock_seconds :: i64

definition MIN_VALIDATOR_STAKE :: i64 where
  "MIN_VALIDATOR_STAKE = I64 1000"

definition MAX_VALIDATOR_STAKE :: i64 where
  "MAX_VALIDATOR_STAKE = I64 1000000000000"

definition UNBONDING_SECONDS :: i64 where
  "UNBONDING_SECONDS = I64 (24 * 60 * 60)"

record staking_state =
  node_states :: "(string \<times> validator_stake) list"
  node_owners :: "(string \<times> string) list"
  node_stakes :: "(string \<times> i64) list"
  total_bonded_stake :: i64
  min_validator_stake :: i64
  max_validator_stake :: i64
  unbonding_seconds :: i64

definition staking_new :: staking_state where
  "staking_new =
     \<lparr>node_states = [], node_owners = [], node_stakes = [], total_bonded_stake = I64 0,
      min_validator_stake = MIN_VALIDATOR_STAKE, max_validator_stake = MAX_VALIDATOR_STAKE,
      unbonding_seconds = UNBONDING_SECONDS\<rparr>"

definition apply_bond :: "validator_stake \<Rightarrow> i64 \<Rightarrow> i64 \<Rightarrow> i64 \<Rightarrow> i64 \<Rightarrow> validator_stake" where
  "apply_bond state amount lock_seconds now max_stake =
     (if amount \<le> I64 0 then state
      else
        let new_bonded = add_i64 (bonded_stake state) amount;
            new_bonded = (if max_stake < new_bonded then max_stake else new_bonded);
            state = state\<lparr>bonded_stake := new_bonded\<rparr>;
            lock_until = add_i64 now lock_seconds
        in if I64 0 < lock_seconds \<and> unbond_unlock_at state < lock_until
           then state\<lparr>unbond_unlock_at := lock_until\<rparr> else state)"

definition apply_unbond :: "validator_stake \<Rightarrow> i64 \<Rightarrow> i64 \<Rightarrow> i64 \<Rightarrow> validator_stake" where
  "apply_unbond state amount now unbonding =
     (if amount \<le> I64 0 \<or> bonded_stake state \<le> I64 0 \<or> now < unbond_unlock_at state then state
      else
        let amount = min amount (bonded_stake state)
        in state\<lparr>bonded_stake := sub_i64 (bonded_stake state) amount,
             pending_unbond := add_i64 (pending_unbond state) amount,
             unbond_unlock_at := add_i64 now unbonding\<rparr>)"

definition apply_slash :: "validator_stake \<Rightarrow> i64 \<Rightarrow> i64 \<Rightarrow> i64 \<Rightarrow> validator_stake" where
  "apply_slash state amount now unbonding =
     (if amount \<le> I64 0 then state
      else
        let slash_bonded = min amount (bonded_stake state);
            state = state\<lparr>bonded_stake := sub_i64 (bonded_stake state) slash_bonded\<rparr>;
            remaining = sub_i64 amount slash_bonded;
            state = (if I64 0 < remaining
              then state\<lparr>pending_unbond :=
                sub_i64 (pending_unbond state) (min remaining (pending_unbond state))\<rparr>
              else state)
        in state\<lparr>unbond_unlock_at := add_i64 now unbonding\<rparr>)"

definition settle_one :: "i64 \<Rightarrow> validator_stake \<Rightarrow> validator_stake" where
  "settle_one now state =
     (if I64 0 < pending_unbond state \<and> unbond_unlock_at state \<le> now
      then state\<lparr>pending_unbond := I64 0\<rparr> else state)"

definition settle_mature_unbonds :: "i64 \<Rightarrow> staking_state \<Rightarrow> staking_state" where
  "settle_mature_unbonds now s =
     s\<lparr>node_states := map (\<lambda>(k, state). (k, settle_one now state)) (node_states s)\<rparr>"

definition sum_i64 :: "i64 list \<Rightarrow> i64" where
  "sum_i64 xs = foldl add_i64 (I64 0) xs"

definition stake_entry :: "staking_state \<Rightarrow> stake_request \<Rightarrow> validator_stake" where
  "stake_entry s request =
     (case map_of (node_states s) (req_node_id request) of
        Some state \<Rightarrow> state
      | None \<Rightarrow>
          \<lparr>stake_node_id = req_node_id request, stake_owner_id = req_owner_id request,
           bonded_stake = I64 0, pending_unbond = I64 0, unbond_unlock_at = I64 0,
           stake_nonce = 0, last_updated_at = I64 0\<rparr>)"

definition act :: "staking_state \<Rightarrow> stake_request \<Rightarrow> i64 \<Rightarrow> validator_stake \<Rightarrow> validator_stake" where
  "act s request now state =
     (case req_action request of
        Bond \<Rightarrow> apply_bond state (req_amount request) (req_lock_seconds request) now
          (max_validator_stake s)
      | Unbond \<Rightarrow> apply_unbond state (req_amount request) now (unbonding_seconds s)
      | Slash \<Rightarrow> apply_slash state (req_amount request) now (unbonding_seconds s))"

definition stake_apply :: "staking_state \<Rightarrow> stake_request \<Rightarrow> i64 \<Rightarrow> bool \<times> staking_state" where
  "stake_apply s request now =
     (if req_node_id request = [] \<or> req_owner_id request = [] \<or> req_amount request \<le> I64 0
      then (True, s)
      else
        let s = settle_mature_unbonds now s;
            node = req_node_id request;
            state = stake_entry s request;
            s = s\<lparr>node_states := AList.update node state (node_states s)\<rparr>
        in if stake_owner_id state \<noteq> [] \<and> stake_owner_id state \<noteq> req_owner_id request then (True, s)
           else if 0 < req_nonce request \<and> req_nonce request \<le> stake_nonce state then (True, s)
           else
             let state = (if 0 < req_nonce request
                   then state\<lparr>stake_nonce := req_nonce request\<rparr> else state);
                 state = state\<lparr>stake_owner_id := req_owner_id request\<rparr>;
                 state = (act s request now state)\<lparr>last_updated_at := now\<rparr>;
                 states = AList.update node state (node_states s)
             in (True, s\<lparr>node_states := states,
                  total_bonded_stake := sum_i64 (map (bonded_stake \<circ> snd) states),
                  node_owners := AList.update node (req_owner_id request) (node_owners s),
                  node_stakes := AList.update node (bonded_stake state) (node_stakes s)\<rparr>))"

definition next_nonce :: "staking_state \<Rightarrow> string \<Rightarrow> u64" where
  "next_nonce s node =
     (case map_of (node_states s) node of Some state \<Rightarrow> stake_nonce state + 1 | None \<Rightarrow> 1)"

section \<open>The election\<close>

record election_round =
  round_id :: string
  round_phase :: string
  commits :: "(string \<times> string) list"
  reveals :: "(string \<times> string) list"
  commit_participants :: "(string \<times> bool) list"

record elected_validators =
  elected_round :: string
  validators :: "string list"
  total_bonded :: i64
  selected_at :: i64

record election_state =
  election_node :: string
  max_validator_count :: nat
  current_round :: "election_round option"
  last_election_hour :: string
  validator_history :: "(string \<times> elected_validators) list"

definition election_new :: "string \<Rightarrow> election_state" where
  "election_new node =
     \<lparr>election_node = node, max_validator_count = 50, current_round = None,
      last_election_hour = [], validator_history = []\<rparr>"

definition set_max_validator_count :: "i64 \<Rightarrow> election_state \<Rightarrow> election_state" where
  "set_max_validator_count value e = e\<lparr>max_validator_count := nat (int_of (max value (I64 0)))\<rparr>"

text \<open>\<open>max_by_key\<close> keeps the last of the greatest.\<close>

definition last_elected :: "election_state \<Rightarrow> elected_validators option" where
  "last_elected e =
     foldl (\<lambda>best v. if is_some_and (\<lambda>b. selected_at v < selected_at b) best then best else Some v)
       None (map snd (validator_history e))"

text \<open>The time is given as its hour key, its minute and its second.\<close>

definition may_start :: "string \<Rightarrow> nat \<Rightarrow> nat \<Rightarrow> election_state \<Rightarrow> string option \<times> election_state" where
  "may_start hour_key minute second e =
     (if last_election_hour e = hour_key then (None, e)
      else if minute \<noteq> 0 \<or> 2 < second then (None, e)
      else (Some hour_key, e\<lparr>last_election_hour := hour_key\<rparr>))"

definition election_commit :: "(string \<Rightarrow> string) \<Rightarrow> election_state \<Rightarrow> string \<Rightarrow> string \<Rightarrow> string" where
  "election_commit sha e round seed =
     hex (sha (round @ ''::'' @ election_node e @ ''::'' @ seed))"

definition start_round ::
  "(string \<Rightarrow> string) \<Rightarrow> string \<Rightarrow> string \<Rightarrow> election_state \<Rightarrow> string option \<times> election_state" where
  "start_round sha round my_seed e =
     (if round = [] then (None, e)
      else
        let commit = election_commit sha e round my_seed
        in (Some commit, e\<lparr>current_round := Some
              \<lparr>round_id = round, round_phase = ''commit'',
               commits = [(election_node e, commit)], reveals = [(election_node e, my_seed)],
               commit_participants = [(election_node e, True)]\<rparr>\<rparr>))"

definition record_commit :: "string \<Rightarrow> string \<Rightarrow> string \<Rightarrow> election_state \<Rightarrow> election_state" where
  "record_commit round node commit e =
     (case current_round e of
        None \<Rightarrow> e
      | Some r \<Rightarrow>
          if round \<noteq> round_id r \<or> node = [] \<or> commit = [] then e
          else e\<lparr>current_round := Some (r\<lparr>commits := AList.update node commit (commits r),
                 commit_participants := AList.update node True (commit_participants r)\<rparr>)\<rparr>)"

definition start_reveal :: "string \<Rightarrow> election_state \<Rightarrow> string option \<times> election_state" where
  "start_reveal round e =
     (case current_round e of
        None \<Rightarrow> (None, e)
      | Some r \<Rightarrow>
          if round \<noteq> round_id r then (None, e)
          else
            (case map_of (reveals r) (election_node e) of
               Some seed \<Rightarrow> if seed \<noteq> [] then Some seed else None
             | None \<Rightarrow> None,
             e\<lparr>current_round := Some (r\<lparr>round_phase := ''reveal''\<rparr>)\<rparr>))"

definition record_reveal ::
  "(string \<Rightarrow> string) \<Rightarrow> string \<Rightarrow> string \<Rightarrow> string \<Rightarrow> election_state \<Rightarrow> election_state" where
  "record_reveal sha round node seed e =
     (case current_round e of
        None \<Rightarrow> e
      | Some r \<Rightarrow>
          (case map_of (commits r) node of
             None \<Rightarrow> e
           | Some expected \<Rightarrow>
               if expected = [] then e
               else if election_commit sha e round seed \<noteq> expected then e
               else if round \<noteq> round_id r then e
               else e\<lparr>current_round := Some (r\<lparr>reveals := AList.update node seed (reveals r)\<rparr>)\<rparr>))"

definition election_seed :: "election_round \<Rightarrow> string" where
  "election_seed r =
     round_id r @ ''::'' @ join ''|'' (sort (map (\<lambda>(n, s). n @ ''='' @ s) (reveals r)))"

definition election_score :: "(string \<Rightarrow> string) \<Rightarrow> string \<Rightarrow> string \<Rightarrow> i64 \<Rightarrow> u64" where
  "election_score sha seed node bonded =
     (let raw_score = of_nat (be_value (take 8 (sha (seed @ ''::'' @ node)))) :: u64;
          weight = of_int (int_of bonded) :: u64
      in raw_score div max weight 1)"

fun candidates ::
  "(string \<Rightarrow> string) \<Rightarrow> string \<Rightarrow> (string \<times> i64) list \<Rightarrow> string list \<Rightarrow> (string \<times> i64 \<times> u64) list" where
  "candidates sha seed stakes [] = []"
| "candidates sha seed stakes (node # peers) =
     (case map_of stakes node of
        None \<Rightarrow> candidates sha seed stakes peers
      | Some bonded \<Rightarrow>
          if bonded < MIN_VALIDATOR_STAKE then candidates sha seed stakes peers
          else (node, bonded, election_score sha seed node bonded)
            # candidates sha seed stakes peers)"

definition elect ::
  "(string \<Rightarrow> string) \<Rightarrow> nat \<Rightarrow> string \<Rightarrow> (string \<times> i64) list \<Rightarrow> string list \<Rightarrow> string list" where
  "elect sha cap seed stakes peers =
     (let cs = sort_key (\<lambda>(_, bonded, score). (score, - int_of bonded))
            (candidates sha seed stakes peers);
          target = min (max (length cs div 3) 1) cap;
          target = min target (length cs)
      in map fst (take target cs))"

definition finalize_election ::
  "(string \<Rightarrow> string) \<Rightarrow> string \<Rightarrow> (string \<times> i64) list \<Rightarrow> string list \<Rightarrow> i64 \<Rightarrow> election_state
   \<Rightarrow> elected_validators option \<times> election_state" where
  "finalize_election sha round stakes peers now e =
     (case current_round e of
        None \<Rightarrow> (None, e)
      | Some r \<Rightarrow>
          if round \<noteq> round_id r then (None, e)
          else
            let elected =
                  \<lparr>elected_round = round,
                   validators = elect sha (max_validator_count e) (election_seed r) stakes peers,
                   total_bonded = sum_i64 (map snd stakes), selected_at = now\<rparr>
            in (Some elected,
                e\<lparr>current_round := Some (r\<lparr>round_phase := ''finalized''\<rparr>),
                  validator_history := AList.update round elected (validator_history e)\<rparr>))"

section \<open>The handlers\<close>

record stake_packet =
  packet_node_id :: string
  packet_owner_id :: string
  packet_action :: string
  packet_amount :: i64
  packet_nonce :: u64
  packet_lock_seconds :: i64

record governance =
  gov_node :: string
  gov_voter :: string
  staking :: staking_state
  election :: election_state
  election_commit_secs :: i64
  election_reveal_secs :: i64

definition governance_new :: "string \<Rightarrow> string \<Rightarrow> governance" where
  "governance_new node voter =
     \<lparr>gov_node = node, gov_voter = voter, staking = staking_new, election = election_new node,
      election_commit_secs = I64 120, election_reveal_secs = I64 120\<rparr>"

text \<open>\<open>parsed\<close> is the value as \<open>str::parse::<i64>\<close> read it.\<close>

definition governance_set ::
  "string \<Rightarrow> string \<Rightarrow> i64 option \<Rightarrow> governance \<Rightarrow> (governance, port_error) result" where
  "governance_set key value parsed g =
     (case parsed of
        None \<Rightarrow> Err (Failed (''invalid integer value for '' @ key @ '': '' @ value))
      | Some v \<Rightarrow>
          if key = ''staking.min_validator_stake''
          then Ok (g\<lparr>staking := (staking g)\<lparr>min_validator_stake := v\<rparr>\<rparr>)
          else if key = ''staking.max_validator_stake''
          then Ok (g\<lparr>staking := (staking g)\<lparr>max_validator_stake := v\<rparr>\<rparr>)
          else if key = ''staking.unbonding_seconds''
          then Ok (g\<lparr>staking := (staking g)\<lparr>unbonding_seconds := v\<rparr>\<rparr>)
          else if key = ''election.max_validator_count''
          then Ok (g\<lparr>election := set_max_validator_count v (election g)\<rparr>)
          else if key = ''election.commit_seconds''
          then Ok (g\<lparr>election_commit_secs := max v (I64 0)\<rparr>)
          else if key = ''election.reveal_seconds''
          then Ok (g\<lparr>election_reveal_secs := max v (I64 0)\<rparr>)
          else Err (Unsupported ''consensus governance property''))"

definition stake_action_of :: "string \<Rightarrow> stake_action" where
  "stake_action_of action =
     (if action = [] then Bond
      else if action = ''unbond'' then Unbond
      else if action = ''slash'' then Slash
      else Bond)"

definition handle_stake :: "stake_packet \<Rightarrow> i64 \<Rightarrow> governance \<Rightarrow> bool \<times> governance" where
  "handle_stake packet now g =
     (let request =
            \<lparr>req_node_id = packet_node_id packet, req_owner_id = packet_owner_id packet,
             req_action = stake_action_of (packet_action packet), req_amount = packet_amount packet,
             req_nonce = packet_nonce packet, req_lock_seconds = packet_lock_seconds packet\<rparr>;
          (handled, s) = stake_apply (staking g) request now
      in (handled, g\<lparr>staking := s\<rparr>))"

text \<open>
  An election packet is its metadata: the string values by key, other values absent. A
  handler gives the packets it emits through the submit hook. \<open>seed\<close> is the value of
  \<open>unique_seed\<close>.
\<close>

type_synonym meta = "(string \<times> string) list"

definition meta_str :: "meta \<Rightarrow> string \<Rightarrow> string" where
  "meta_str m key = (case map_of m key of Some v \<Rightarrow> v | None \<Rightarrow> [])"

definition handle_election ::
  "(string \<Rightarrow> string) \<Rightarrow> meta \<Rightarrow> string \<Rightarrow> i64 \<Rightarrow> governance \<Rightarrow> (bool \<times> meta list) \<times> governance" where
  "handle_election sha m seed now g =
     (let phase = meta_str m ''phase''; round = meta_str m ''roundId''; node = meta_str m ''nodeId'' in
      if phase = ''start-round'' then
        (case start_round sha round seed (election g) of
           (Some commit, e) \<Rightarrow>
             ((True, [[(''phase'', ''commit''), (''roundId'', round), (''nodeId'', gov_node g),
                (''commit'', commit)]]), g\<lparr>election := e\<rparr>)
         | (None, e) \<Rightarrow> ((True, []), g\<lparr>election := e\<rparr>))
      else if phase = ''commit'' then
        ((True, []), g\<lparr>election := record_commit round node (meta_str m ''commit'') (election g)\<rparr>)
      else if phase = ''start-reveal'' then
        (case start_reveal round (election g) of
           (Some my_seed, e) \<Rightarrow>
             ((True, [[(''phase'', ''reveal''), (''roundId'', round), (''nodeId'', gov_node g),
                (''seed'', my_seed)]]), g\<lparr>election := e\<rparr>)
         | (None, e) \<Rightarrow> ((True, []), g\<lparr>election := e\<rparr>))
      else if phase = ''reveal'' then
        ((True, []), g\<lparr>election := record_reveal sha round node (meta_str m ''seed'') (election g)\<rparr>)
      else if phase = ''finalize'' then
        (let stakes = node_stakes (staking g)
         in ((True, []),
             g\<lparr>election := snd (finalize_election sha round stakes (map fst stakes) now (election g))\<rparr>))
      else ((False, []), g))"

text \<open>The packets a scheduled election emits at once, and the two it schedules.\<close>

definition start_scheduled_election ::
  "(string \<Rightarrow> string) \<Rightarrow> string \<Rightarrow> nat \<Rightarrow> nat \<Rightarrow> string \<Rightarrow> string \<Rightarrow> governance
   \<Rightarrow> (string \<times> meta list \<times> meta list) option \<times> governance" where
  "start_scheduled_election sha hour_key minute second commit_seed my_seed g =
     (case may_start hour_key minute second (election g) of
        (None, e) \<Rightarrow> (None, g\<lparr>election := e\<rparr>)
      | (Some round, e) \<Rightarrow>
          (case start_round sha round my_seed e of
             (commit, e) \<Rightarrow>
               (Some (round,
                  [(''phase'', ''start-round''), (''roundId'', round), (''voter'', gov_voter g),
                   (''commitSeed'', commit_seed)]
                  # (case commit of
                       Some c \<Rightarrow> [[(''phase'', ''commit''), (''roundId'', round),
                         (''nodeId'', gov_node g), (''commit'', c)]]
                     | None \<Rightarrow> []),
                  [[(''phase'', ''start-reveal''), (''roundId'', round)],
                   [(''phase'', ''finalize''), (''roundId'', round)]]),
                g\<lparr>election := e\<rparr>)))"

section \<open>Traces\<close>

text \<open>What happens to a node's governance: packets of the chain, settings, and the hourly election.\<close>

datatype governance_event =
    StakePacket stake_packet i64
  | ElectionPacket meta string i64
  | Configured string string "i64 option"
  | HourPasses string nat nat string string

fun governance_step :: "(string \<Rightarrow> string) \<Rightarrow> governance_event \<Rightarrow> governance \<Rightarrow> governance" where
  "governance_step sha (StakePacket packet now) g = snd (handle_stake packet now g)"
| "governance_step sha (ElectionPacket m seed now) g = snd (handle_election sha m seed now g)"
| "governance_step sha (Configured key value parsed) g =
     (case governance_set key value parsed g of Inr g' \<Rightarrow> g' | Inl e \<Rightarrow> g)"
| "governance_step sha (HourPasses hour_key minute second commit_seed my_seed) g =
     snd (start_scheduled_election sha hour_key minute second commit_seed my_seed g)"

definition governance_run :: "(string \<Rightarrow> string) \<Rightarrow> governance_event list \<Rightarrow> governance \<Rightarrow> governance" where
  "governance_run sha trace g = foldl (\<lambda>g ev. governance_step sha ev g) g trace"

lemma governance_run_simps [simp]:
  "governance_run sha [] g = g"
  "governance_run sha (ev # trace) g = governance_run sha trace (governance_step sha ev g)"
  "governance_run sha (before @ after) g = governance_run sha after (governance_run sha before g)"
  by (simp_all add: governance_run_def)

lemma governance_run_keeps:
  assumes "\<And>ev g. ev \<in> set trace \<Longrightarrow> P g \<Longrightarrow> P (governance_step sha ev g)" and "P g"
  shows "P (governance_run sha trace g)"
  using assms by (induction trace arbitrary: g) auto

section \<open>Stakes\<close>

text \<open>The published stakes and the total are those of the ledger.\<close>

definition ledger_agrees :: "staking_state \<Rightarrow> bool" where
  "ledger_agrees s \<longleftrightarrow>
     distinct (map fst (node_states s)) \<and>
     node_stakes s = map (\<lambda>(n, state). (n, bonded_stake state)) (node_states s) \<and>
     total_bonded_stake s = sum_i64 (map snd (node_stakes s))"

text \<open>No stake, bonded or pending, is negative or above the bound.\<close>

definition stake_ok :: "int \<Rightarrow> validator_stake \<Rightarrow> bool" where
  "stake_ok bound state \<longleftrightarrow>
     int_of (bonded_stake state) \<in> {0..bound} \<and> int_of (pending_unbond state) \<in> {0..bound}"

definition stakes_within :: "int \<Rightarrow> staking_state \<Rightarrow> bool" where
  "stakes_within bound s \<longleftrightarrow>
     int_of (max_validator_stake s) \<in> {0..bound} \<and> list_all (\<lambda>(n, state). stake_ok bound state) (node_states s)"

text \<open>A request that can no longer change a stake: it is of another owner, or its nonce was used.\<close>

definition spent :: "stake_request \<Rightarrow> staking_state \<Rightarrow> bool" where
  "spent r s \<longleftrightarrow>
     (\<exists>state. map_of (node_states s) (req_node_id r) = Some state \<and>
        (stake_owner_id state \<noteq> [] \<and> stake_owner_id state \<noteq> req_owner_id r \<or>
         0 < req_nonce r \<and> req_nonce r \<le> stake_nonce state))"

lemma int_of_add_in: "in_i64 (int_of x + int_of y) \<Longrightarrow> int_of (add_i64 x y) = int_of x + int_of y"
  by (simp add: add_i64_def int_of_I64_in del: int_of_I64)

lemma int_of_sub_in: "in_i64 (int_of x - int_of y) \<Longrightarrow> int_of (sub_i64 x y) = int_of x - int_of y"
  by (simp add: sub_i64_def int_of_I64_in del: int_of_I64)

lemma int_of_min: "int_of (min x y) = min (int_of x) (int_of y)"
  by (simp add: min_def i64_le_iff)

lemma int_of_MAX: "int_of MAX_VALIDATOR_STAKE = 1000000000000"
  by (simp add: MAX_VALIDATOR_STAKE_def)

lemmas stake_arith = i64_simps int_of_min stake_ok_def in_i64_def

lemma apply_bond_ok:
  assumes "stake_ok bound state" and "int_of cap \<in> {0..bound}"
    and "int_of amount + bound < 9223372036854775808"
  shows "stake_ok bound (apply_bond state amount lock now cap)"
proof (cases "amount \<le> I64 0")
  case True
  with assms show ?thesis by (simp add: apply_bond_def)
next
  case False
  with assms have "int_of (add_i64 (bonded_stake state) amount) = int_of (bonded_stake state) + int_of amount"
    by (intro int_of_add_in) (simp add: stake_arith)
  with assms False show ?thesis
    by (simp add: apply_bond_def stake_arith Let_def)
qed

lemma apply_unbond_ok:
  assumes "stake_ok bound state"
    and "unbond_unlock_at state \<le> now \<Longrightarrow> pending_unbond state = I64 0"
  shows "stake_ok bound (apply_unbond state amount now unbonding)"
proof (cases "amount \<le> I64 0 \<or> bonded_stake state \<le> I64 0 \<or> now < unbond_unlock_at state")
  case True
  with assms show ?thesis by (auto simp: apply_unbond_def)
next
  case False
  let ?a = "min amount (bonded_stake state)"
  from False assms(1) have a: "0 < int_of ?a" "int_of ?a \<le> int_of (bonded_stake state)"
    by (auto simp: stake_arith)
  with assms have "int_of (sub_i64 (bonded_stake state) ?a) = int_of (bonded_stake state) - int_of ?a"
    using int_of_bounds [of "bonded_stake state"] by (intro int_of_sub_in) (auto simp: stake_arith)
  moreover have "int_of (add_i64 (pending_unbond state) ?a) = int_of ?a"
    using False assms(2) a by (subst int_of_add_in) auto
  ultimately show ?thesis using False assms a
    by (simp add: apply_unbond_def stake_ok_def Let_def)
qed

lemma apply_slash_ok:
  assumes "stake_ok bound state"
  shows "stake_ok bound (apply_slash state amount now unbonding)"
proof (cases "amount \<le> I64 0")
  case True
  with assms show ?thesis by (simp add: apply_slash_def)
next
  case False
  let ?a = "min amount (bonded_stake state)" let ?r = "sub_i64 amount ?a"
  let ?p = "min ?r (pending_unbond state)"
  have "int_of (sub_i64 (bonded_stake state) ?a) = int_of (bonded_stake state) - int_of ?a"
    using assms False int_of_bounds [of "bonded_stake state"]
    by (intro int_of_sub_in) (auto simp: stake_arith)
  moreover have "int_of (sub_i64 (pending_unbond state) ?p) = int_of (pending_unbond state) - int_of ?p"
    if "I64 0 < ?r"
    using assms that int_of_bounds [of "pending_unbond state"]
    by (intro int_of_sub_in) (auto simp: stake_arith)
  ultimately show ?thesis using False assms
    by (auto simp: apply_slash_def stake_arith Let_def)
qed

lemma settled_pending: "unbond_unlock_at (settle_one now st) \<le> now \<Longrightarrow> stake_ok s st \<Longrightarrow>
    pending_unbond (settle_one now st) = I64 0"
  by (auto simp: settle_one_def stake_ok_def i64_simps split: if_splits)

lemma settle_one_simps [simp]:
  "bonded_stake (settle_one now st) = bonded_stake st"
  "stake_owner_id (settle_one now st) = stake_owner_id st"
  "stake_nonce (settle_one now st) = stake_nonce st"
  by (simp_all add: settle_one_def)

lemma settle_one_ok: "stake_ok bound st \<Longrightarrow> stake_ok bound (settle_one now st)"
  by (auto simp: settle_one_def stake_ok_def)

lemma update_same: "map_of al k = Some v \<Longrightarrow> AList.update k v al = al"
  by (induction al) (auto split: if_splits)

lemma map_update:
  "map (\<lambda>(n, x). (n, f x)) (AList.update k v al) = AList.update k (f v) (map (\<lambda>(n, x). (n, f x)) al)"
  by (induction al) auto

lemma list_all_update:
  "list_all (\<lambda>(n, x). P x) al \<Longrightarrow> P v \<Longrightarrow> list_all (\<lambda>(n, x). P x) (AList.update k v al)"
  by (induction al) auto

lemma map_of_map_val: "map_of (map (\<lambda>(n, x). (n, f x)) al) k = map_option f (map_of al k)"
  by (induction al) auto

text \<open>
  A well-formed request either changes nothing but mature unbonds, or replaces its node's
  entry by the entry after the action.
\<close>

definition acted :: "staking_state \<Rightarrow> stake_request \<Rightarrow> i64 \<Rightarrow> validator_stake \<Rightarrow> validator_stake" where
  "acted s r now state =
     (act s r now ((if 0 < req_nonce r then state\<lparr>stake_nonce := req_nonce r\<rparr> else state)
       \<lparr>stake_owner_id := req_owner_id r\<rparr>))\<lparr>last_updated_at := now\<rparr>"

lemma settle_simps [simp]:
  "node_states (settle_mature_unbonds now s) =
     map (\<lambda>(k, state). (k, settle_one now state)) (node_states s)"
  "node_stakes (settle_mature_unbonds now s) = node_stakes s"
  "node_owners (settle_mature_unbonds now s) = node_owners s"
  "total_bonded_stake (settle_mature_unbonds now s) = total_bonded_stake s"
  "max_validator_stake (settle_mature_unbonds now s) = max_validator_stake s"
  "unbonding_seconds (settle_mature_unbonds now s) = unbonding_seconds s"
  by (simp_all add: settle_mature_unbonds_def)

lemma act_simps [simp]:
  "act (settle_mature_unbonds now s) r t state = act s r t state"
  "act (s\<lparr>node_states := x\<rparr>) r t state = act s r t state"
  "stake_nonce (act s r t state) = stake_nonce state"
  "stake_owner_id (act s r t state) = stake_owner_id state"
  by (auto simp: act_def apply_bond_def apply_unbond_def apply_slash_def Let_def
      split: stake_action.split)

lemma acted_simps:
  "stake_nonce (acted s r now state) = (if 0 < req_nonce r then req_nonce r else stake_nonce state)"
  "stake_owner_id (acted s r now state) = req_owner_id r"
  by (simp_all add: acted_def)

lemma stake_apply_cases:
  obtains (same) "snd (stake_apply s r now) = s"
      "req_node_id r = [] \<or> req_owner_id r = [] \<or> req_amount r \<le> I64 0"
  | (refused) "snd (stake_apply s r now) = settle_mature_unbonds now s" "spent r s"
  | (accepted) state where "state = stake_entry (settle_mature_unbonds now s) r"
      "req_node_id r \<noteq> []" "req_owner_id r \<noteq> []" "\<not> spent r s"
      "node_states (snd (stake_apply s r now)) =
         AList.update (req_node_id r) (acted s r now state)
           (map (\<lambda>(k, st). (k, settle_one now st)) (node_states s))"
      "node_stakes (snd (stake_apply s r now)) =
         AList.update (req_node_id r) (bonded_stake (acted s r now state)) (node_stakes s)"
      "total_bonded_stake (snd (stake_apply s r now)) =
         sum_i64 (map (bonded_stake \<circ> snd) (node_states (snd (stake_apply s r now))))"
      "max_validator_stake (snd (stake_apply s r now)) = max_validator_stake s"
proof -
  let ?s = "settle_mature_unbonds now s" let ?n = "req_node_id r" let ?st = "stake_entry ?s r"
  let ?bad = "?n = [] \<or> req_owner_id r = [] \<or> req_amount r \<le> I64 0"
  let ?refuse = "stake_owner_id ?st \<noteq> [] \<and> stake_owner_id ?st \<noteq> req_owner_id r \<or>
    0 < req_nonce r \<and> req_nonce r \<le> stake_nonce ?st"
  have found: "map_of (node_states ?s) ?n = Some ?st" if "?refuse"
    using that by (auto simp: stake_entry_def split: option.splits)
  show thesis
  proof (cases "?bad")
    case True
    then show thesis by (intro same) (auto simp: stake_apply_def)
  next
    case False
    have run: "stake_apply s r now =
      (if ?refuse then (True, ?s\<lparr>node_states := AList.update ?n ?st (node_states ?s)\<rparr>)
       else (let states = AList.update ?n (acted s r now ?st) (AList.update ?n ?st (node_states ?s))
        in (True, ?s\<lparr>node_states := states,
             total_bonded_stake := sum_i64 (map (bonded_stake \<circ> snd) states),
             node_owners := AList.update ?n (req_owner_id r) (node_owners ?s),
             node_stakes := AList.update ?n (bonded_stake (acted s r now ?st)) (node_stakes ?s)\<rparr>)))"
      using False by (simp add: stake_apply_def Let_def acted_def)
    show thesis
    proof (cases ?refuse)
      case True
      note f = found [OF True]
      from f obtain st0 where st0: "map_of (node_states s) ?n = Some st0" "?st = settle_one now st0"
        by (auto simp: map_of_map_val)
      then have "spent r s" unfolding spent_def using True by auto
      with run True update_same [OF f] show thesis
        by (intro refused) (simp_all add: settle_mature_unbonds_def)
    next
      case ok: False
      show thesis
      proof (rule accepted [OF refl])
        show "\<not> spent r s" using ok by (auto simp: spent_def stake_entry_def map_of_map_val)
      qed (use False run ok in \<open>simp_all add: Let_def\<close>)
    qed
  qed
qed

lemma settle_agrees: "ledger_agrees s \<Longrightarrow> ledger_agrees (settle_mature_unbonds now s)"
  by (simp add: ledger_agrees_def comp_def split_def)

lemma stake_apply_agrees:
  assumes "ledger_agrees s"
  shows "ledger_agrees (snd (stake_apply s r now))"
proof (cases rule: stake_apply_cases [of s r now])
  case same
  with assms show ?thesis by simp
next
  case refused
  with settle_agrees [OF assms] show ?thesis by simp
next
  case (accepted state)
  let ?s' = "snd (stake_apply s r now)"
  have "distinct (map fst (node_states ?s'))"
    using assms unfolding accepted(5)
    by (intro distinct_update) (simp add: ledger_agrees_def comp_def case_prod_beta)
  moreover have stakes: "node_stakes ?s' = map (\<lambda>(n, st). (n, bonded_stake st)) (node_states ?s')"
    using assms unfolding accepted(5,6) map_update by (simp add: ledger_agrees_def comp_def split_def)
  moreover have "total_bonded_stake ?s' = sum_i64 (map snd (node_stakes ?s'))"
    using accepted(7) by (simp add: stakes comp_def case_prod_beta)
  ultimately show ?thesis by (simp add: ledger_agrees_def)
qed

lemma settle_within: "stakes_within bound s \<Longrightarrow> stakes_within bound (settle_mature_unbonds now s)"
  by (auto simp: stakes_within_def list_all_iff intro: settle_one_ok)

lemma stake_entry_ok:
  assumes "stakes_within bound s"
  shows "stake_ok bound (stake_entry (settle_mature_unbonds now s) r)"
    and "unbond_unlock_at (stake_entry (settle_mature_unbonds now s) r) \<le> now \<Longrightarrow>
      pending_unbond (stake_entry (settle_mature_unbonds now s) r) = I64 0"
proof -
  have ok: "stake_ok bound st" if "map_of (node_states s) n = Some st" for n st
    using map_of_SomeD [OF that] assms by (auto simp: stakes_within_def list_all_iff)
  show "stake_ok bound (stake_entry (settle_mature_unbonds now s) r)"
    using ok assms
    by (auto simp: stake_entry_def map_of_map_val stakes_within_def split: option.split intro: settle_one_ok)
      (simp add: stake_ok_def)
  show "unbond_unlock_at (stake_entry (settle_mature_unbonds now s) r) \<le> now \<Longrightarrow>
      pending_unbond (stake_entry (settle_mature_unbonds now s) r) = I64 0"
    by (auto simp: stake_entry_def map_of_map_val split: option.splits dest!: ok intro: settled_pending)
qed

lemma acted_ok:
  assumes "stake_ok bound state" and "int_of (max_validator_stake s) \<in> {0..bound}"
    and "int_of (req_amount r) + bound < 9223372036854775808"
    and "unbond_unlock_at state \<le> now \<Longrightarrow> pending_unbond state = I64 0"
  shows "stake_ok bound (acted s r now state)"
proof -
  let ?st = "(if 0 < req_nonce r then state\<lparr>stake_nonce := req_nonce r\<rparr> else state)
    \<lparr>stake_owner_id := req_owner_id r\<rparr>"
  have st: "stake_ok bound ?st" using assms(1) by (simp add: stake_ok_def)
  have "stake_ok bound (act s r now ?st)"
  proof (cases "req_action r")
    case Bond
    then show ?thesis using apply_bond_ok [OF st assms(2,3)] by (simp add: act_def)
  next
    case Unbond
    have "unbond_unlock_at ?st \<le> now \<Longrightarrow> pending_unbond ?st = I64 0" using assms(4) by (simp split: if_splits)
    from apply_unbond_ok [OF st this] Unbond show ?thesis by (simp add: act_def)
  next
    case Slash
    then show ?thesis using apply_slash_ok [OF st] by (simp add: act_def)
  qed
  then show ?thesis by (simp add: acted_def stake_ok_def)
qed

lemma stake_apply_within:
  assumes ok: "stakes_within bound s" and "int_of (req_amount r) + bound < 9223372036854775808"
  shows "stakes_within bound (snd (stake_apply s r now))"
proof (cases rule: stake_apply_cases [of s r now])
  case same
  with ok show ?thesis by simp
next
  case refused
  with settle_within [OF ok] show ?thesis by simp
next
  case (accepted state)
  have cap: "int_of (max_validator_stake s) \<in> {0..bound}" using ok by (simp add: stakes_within_def)
  have "stake_ok bound (acted s r now state)"
    using acted_ok [OF _ cap assms(2), of state now] stake_entry_ok [OF ok, of now r] accepted(1) by simp
  moreover have "list_all (\<lambda>(n, st). stake_ok bound st) (map (\<lambda>(k, st). (k, settle_one now st)) (node_states s))"
    using settle_within [OF ok, of now] by (simp add: stakes_within_def)
  ultimately show ?thesis
    using cap accepted(8) by (simp add: stakes_within_def accepted(5) list_all_update)
qed

lemma spent_changes_nothing:
  assumes "spent r s"
  shows "node_stakes (snd (stake_apply s r now)) = node_stakes s"
proof (cases rule: stake_apply_cases [of s r now])
  case (accepted state)
  with assms show ?thesis by simp
qed simp_all

lemma spent_stays:
  assumes "spent r s"
  shows "spent r (snd (stake_apply s q now))"
proof (cases rule: stake_apply_cases [of s q now])
  case same
  with assms show ?thesis by simp
next
  case refused
  with assms show ?thesis by (auto simp: spent_def map_of_map_val)
next
  case (accepted state)
  from assms obtain st where st: "map_of (node_states s) (req_node_id r) = Some st"
    "stake_owner_id st \<noteq> [] \<and> stake_owner_id st \<noteq> req_owner_id r \<or>
     0 < req_nonce r \<and> req_nonce r \<le> stake_nonce st"
    unfolding spent_def by blast
  show ?thesis
  proof (cases "req_node_id q = req_node_id r")
    case False
    with st accepted(5) show ?thesis by (auto simp: spent_def update_conv' map_of_map_val)
  next
    case True
    then have state: "state = settle_one now st"
      using accepted(1) st(1) by (simp add: stake_entry_def map_of_map_val)
    have "stake_owner_id st = [] \<or> stake_owner_id st = req_owner_id q"
      and "req_nonce q = 0 \<or> stake_nonce st < req_nonce q"
      using accepted(4) st(1) True by (auto simp: spent_def word_gt_0 not_le)
    with st(2) accepted(3,5) True state show ?thesis
      by (auto simp: spent_def update_conv' acted_simps)
  qed
qed

lemma applied_is_spent:
  assumes "0 < req_nonce r" and "req_node_id r \<noteq> []" and "req_owner_id r \<noteq> []"
    and "I64 0 < req_amount r"
  shows "spent r (snd (stake_apply s r now))"
proof (cases rule: stake_apply_cases [of s r now])
  case same
  with assms show ?thesis by auto
next
  case refused
  then show ?thesis by (auto simp: spent_def map_of_map_val)
next
  case (accepted state)
  with assms(1) show ?thesis by (auto simp: spent_def update_conv' acted_simps)
qed

text \<open>The request a stake packet carries, and what an event does to the ledger.\<close>

definition packet_request :: "stake_packet \<Rightarrow> stake_request" where
  "packet_request p =
     \<lparr>req_node_id = packet_node_id p, req_owner_id = packet_owner_id p,
      req_action = stake_action_of (packet_action p), req_amount = packet_amount p,
      req_nonce = packet_nonce p, req_lock_seconds = packet_lock_seconds p\<rparr>"

lemma handle_stake_eq:
  "snd (handle_stake p now g) = g\<lparr>staking := snd (stake_apply (staking g) (packet_request p) now)\<rparr>"
  by (simp add: handle_stake_def packet_request_def split_def Let_def)

lemma governance_step_staking:
  "staking (governance_step sha (ElectionPacket m seed now) g) = staking g"
  "staking (governance_step sha (HourPasses hour_key minute second cs ms) g) = staking g"
  "node_states (staking (governance_step sha (Configured key value parsed) g)) = node_states (staking g)"
  "node_stakes (staking (governance_step sha (Configured key value parsed) g)) = node_stakes (staking g)"
  "total_bonded_stake (staking (governance_step sha (Configured key value parsed) g)) = total_bonded_stake (staking g)"
  by (auto simp: handle_election_def start_scheduled_election_def governance_set_def Let_def
      split: option.split prod.split)

lemma step_agrees:
  assumes "ledger_agrees (staking g)"
  shows "ledger_agrees (staking (governance_step sha ev g))"
proof (cases ev)
  case (StakePacket p now)
  with assms show ?thesis by (simp add: handle_stake_eq stake_apply_agrees)
qed (use assms in \<open>simp_all add: governance_step_staking ledger_agrees_def del: governance_step.simps(2-)\<close>)

lemma step_spent:
  assumes "spent r (staking g)"
  shows "spent r (staking (governance_step sha ev g))"
proof (cases ev)
  case (StakePacket p now)
  with assms show ?thesis by (simp add: handle_stake_eq spent_stays)
qed (use assms in \<open>simp_all add: governance_step_staking spent_def del: governance_step.simps(2-)\<close>)

lemma run_spent: "spent r (staking g) \<Longrightarrow> spent r (staking (governance_run sha trace g))"
  by (induction trace arbitrary: g) (simp_all add: step_spent del: governance_step.simps)

text \<open>An event that keeps to a bound: its cap is within it, its amount leaves room above it.\<close>

fun keeps_to :: "int \<Rightarrow> governance_event \<Rightarrow> bool" where
  "keeps_to bound (StakePacket p now) \<longleftrightarrow> int_of (packet_amount p) + bound < 9223372036854775808"
| "keeps_to bound (Configured key value parsed) \<longleftrightarrow>
     key = ''staking.max_validator_stake'' \<longrightarrow> (\<forall>cap. parsed = Some cap \<longrightarrow> int_of cap \<in> {0..bound})"
| "keeps_to bound ev \<longleftrightarrow> True"

lemma step_within:
  assumes "stakes_within bound (staking g)" and "keeps_to bound ev"
  shows "stakes_within bound (staking (governance_step sha ev g))"
proof (cases ev)
  case (Configured key v parsed)
  with assms show ?thesis by (auto simp: governance_set_def stakes_within_def split: option.split)
next
  case (StakePacket p now)
  with assms show ?thesis by (simp add: handle_stake_eq stake_apply_within packet_request_def)
qed (use assms in \<open>simp_all add: governance_step_staking(1,2) del: governance_step.simps(2-)\<close>)

lemma run_within:
  "stakes_within bound (staking g) \<Longrightarrow> list_all (keeps_to bound) trace \<Longrightarrow>
    stakes_within bound (staking (governance_run sha trace g))"
  by (induction trace arbitrary: g) (simp_all add: step_within del: governance_step.simps)

lemma packet_counted:
  assumes "0 < req_nonce r" and "spent r (staking (governance_step sha (StakePacket p now) g)) \<or>
    req_node_id r = [] \<or> req_owner_id r = [] \<or> req_amount r \<le> I64 0"
  shows "node_stakes (snd (stake_apply (staking (governance_run sha after
    (governance_step sha (StakePacket p now) g))) r later)) =
    node_stakes (staking (governance_run sha after (governance_step sha (StakePacket p now) g)))"
  using assms(2)
proof
  assume "spent r (staking (governance_step sha (StakePacket p now) g))"
  then show ?thesis by (intro spent_changes_nothing run_spent)
qed (auto simp: stake_apply_def)

text \<open>
  C39. The staking ledger is consistent and requests count once. Whatever packets and settings a
  node is given: the published stakes and the total are those of the ledger, and a stake packet
  that carried a nonce, delivered again at any later time, changes no stake. Bonded and pending
  stakes stay between zero and a bound as long as every cap in force, the initial one included,
  is between zero and that bound and every amount leaves room for it in an \<open>i64\<close>; a larger
  amount can wrap (\<open>bond_overflow\<close>), and a cap set lower leaves the stakes above it as they are.
\<close>

theorem stakes_sound:
  assumes "g = governance_run sha trace (governance_new me voter)"
  shows "ledger_agrees (staking g) \<and>
    (\<forall>p now later. StakePacket p now \<in> set trace \<and> 0 < packet_nonce p \<longrightarrow>
       node_stakes (staking (snd (handle_stake p later g))) = node_stakes (staking g)) \<and>
    (\<forall>bound. int_of MAX_VALIDATOR_STAKE \<le> bound \<and> list_all (keeps_to bound) trace \<longrightarrow>
       stakes_within bound (staking g))"
proof (intro conjI allI impI; (elim conjE)?)
  show "ledger_agrees (staking g)" unfolding assms
    by (rule governance_run_keeps [where P = "\<lambda>g. ledger_agrees (staking g)"])
      (simp_all only: step_agrees, simp add: ledger_agrees_def governance_new_def staking_new_def sum_i64_def)
next
  fix p now later assume "StakePacket p now \<in> set trace" and nonce: "0 < packet_nonce p"
  then obtain before after where "trace = before @ StakePacket p now # after" by (meson split_list)
  moreover have "spent (packet_request p) (staking (governance_step sha (StakePacket p now) g)) \<or>
      packet_node_id p = [] \<or> packet_owner_id p = [] \<or> packet_amount p \<le> I64 0" for g
    using applied_is_spent [where r = "packet_request p" and s = "staking g" and now = now] nonce
    by (simp add: handle_stake_eq packet_request_def) (metis not_less)
  ultimately show "node_stakes (staking (snd (handle_stake p later g))) = node_stakes (staking g)"
    using packet_counted [of "packet_request p" sha p now _ after later] nonce
    by (simp add: assms handle_stake_eq packet_request_def)
next
  fix bound assume "int_of MAX_VALIDATOR_STAKE \<le> bound" and "list_all (keeps_to bound) trace"
  moreover from this(1) have "stakes_within bound (staking (governance_new me voter))"
    by (simp add: stakes_within_def governance_new_def staking_new_def int_of_MAX)
  ultimately show "stakes_within bound (staking g)" unfolding assms by (intro run_within)
qed

definition sample_bond :: stake_packet where
  "sample_bond = \<lparr>packet_node_id = ''a'', packet_owner_id = ''o'', packet_action = ''bond'',
     packet_amount = I64 5000, packet_nonce = 1, packet_lock_seconds = I64 0\<rparr>"

definition sample_unbond :: stake_packet where
  "sample_unbond = \<lparr>packet_node_id = ''a'', packet_owner_id = ''o'', packet_action = ''unbond'',
     packet_amount = I64 2000, packet_nonce = 2, packet_lock_seconds = I64 0\<rparr>"

definition sample_stakes :: "governance_event list" where
  "sample_stakes =
     [StakePacket sample_bond (I64 10), Configured ''staking.max_validator_stake'' ''9000'' (Some (I64 9000)),
      StakePacket sample_unbond (I64 90000)]"

theorem stakes_sound_witness:
  "\<exists>g. g = governance_run id sample_stakes (governance_new ''n'' ''v'') \<and>
     node_stakes (staking g) = [(''a'', I64 3000)] \<and>
     node_stakes (staking (snd (handle_stake sample_bond (I64 90001) g))) = [(''a'', I64 3000)] \<and>
     stakes_within 1000000000000 (staking g)"
proof -
  define g where "g = governance_run id sample_stakes (governance_new ''n'' ''v'')"
  have stakes: "node_stakes (staking g) = [(''a'', I64 3000)]"
    by (simp add: g_def sample_stakes_def handle_stake_eq governance_set_def governance_new_def staking_new_def
        packet_request_def sample_bond_def sample_unbond_def stake_action_of_def stake_apply_def act_def
        apply_bond_def apply_unbond_def stake_entry_def settle_mature_unbonds_def settle_one_def Let_def
        int_of_min i64_simps sub_i64_def add_i64_def MAX_VALIDATOR_STAKE_def min_def word_le_nat_alt)
  note sound = stakes_sound [OF g_def]
  have "StakePacket sample_bond (I64 10) \<in> set sample_stakes \<and> 0 < packet_nonce sample_bond"
    by (simp add: sample_stakes_def sample_bond_def)
  with sound stakes have "node_stakes (staking (snd (handle_stake sample_bond (I64 90001) g))) = [(''a'', I64 3000)]"
    by metis
  moreover have "list_all (keeps_to 1000000000000) sample_stakes"
    by (simp add: sample_stakes_def sample_bond_def sample_unbond_def)
  with sound have "stakes_within 1000000000000 (staking g)" by (simp add: int_of_MAX)
  ultimately show ?thesis using stakes unfolding g_def by blast
qed

text \<open>
  A bond whose sum with the stake passes the largest \<open>i64\<close> wraps below the cap: the stake
  becomes negative.
\<close>

lemma bond_overflow:
  assumes "bonded_stake state = I64 1000"
  shows "int_of (bonded_stake (apply_bond state i64_MAX (I64 0) now MAX_VALIDATOR_STAKE)) =
    - 9223372036854774809"
  using assms by (simp add: apply_bond_def Let_def i64_simps int_of_MAX add_i64_def i64_MAX_def)

section \<open>Elections\<close>

text \<open>The text a node's commit to a seed hashes.\<close>

definition commit_text :: "string \<Rightarrow> string \<Rightarrow> string \<Rightarrow> string" where
  "commit_text round node seed = round @ ''::'' @ node @ ''::'' @ seed"

lemma election_commit_eq: "election_commit sha e round seed = hex (sha (commit_text round (election_node e) seed))"
  by (simp add: election_commit_def commit_text_def)

lemma commit_text_inject:
  assumes "CHR '':'' \<notin> set n" and "CHR '':'' \<notin> set m" and "commit_text round n s = commit_text round m t"
  shows "n = m"
  using append_sep_inject [OF assms(1,2)] assms(3) by (simp add: commit_text_def)

text \<open>The election packets of a trace, and a commit of one that its named node made as \<open>start_round\<close> does.\<close>

definition packets :: "governance_event list \<Rightarrow> meta set" where
  "packets trace = {m. \<exists>seed now. ElectionPacket m seed now \<in> set trace}"

definition own_commit :: "(string \<Rightarrow> string) \<Rightarrow> meta \<Rightarrow> string \<Rightarrow> bool" where
  "own_commit sha m seed \<longleftrightarrow>
     meta_str m ''phase'' = ''commit'' \<and> CHR '':'' \<notin> set (meta_str m ''nodeId'') \<and>
     meta_str m ''commit'' = hex (sha (commit_text (meta_str m ''roundId'') (meta_str m ''nodeId'') seed))"

text \<open>
  A commit and a reveal among the packets whose texts differ and hash alike: the commit of
  another node, and the revealed seed under the name of the node that checks it.
\<close>

definition reveal_collision :: "(string \<Rightarrow> string) \<Rightarrow> string \<Rightarrow> meta set \<Rightarrow> bool" where
  "reveal_collision sha me ms \<longleftrightarrow>
     (\<exists>m \<in> ms. \<exists>m' \<in> ms. \<exists>seed.
        own_commit sha m seed \<and> meta_str m' ''phase'' = ''reveal'' \<and>
        commit_text (meta_str m ''roundId'') (meta_str m ''nodeId'') seed
          \<noteq> commit_text (meta_str m' ''roundId'') me (meta_str m' ''seed'') \<and>
        sha (commit_text (meta_str m ''roundId'') (meta_str m ''nodeId'') seed)
          = sha (commit_text (meta_str m' ''roundId'') me (meta_str m' ''seed'')))"

definition only_own :: "(string \<Rightarrow> string) \<Rightarrow> meta set \<Rightarrow> string \<Rightarrow> election_state \<Rightarrow> bool" where
  "only_own sha ms me e \<longleftrightarrow>
     election_node e = me \<and>
     (\<forall>r. current_round e = Some r \<longrightarrow>
        (\<exists>seed. reveals r = [(me, seed)]) \<and>
        (\<forall>n c. map_of (commits r) n = Some c \<longrightarrow> n \<noteq> me \<longrightarrow>
           (\<exists>m \<in> ms. \<exists>seed. own_commit sha m seed \<and> meta_str m ''roundId'' = round_id r \<and>
              meta_str m ''nodeId'' = n \<and> meta_str m ''commit'' = c)))"

lemma foreign_reveal_collides:
  assumes "only_own sha ms me e" and "CHR '':'' \<notin> set me" and "current_round e = Some r"
    and "map_of (commits r) node = Some c" and "node \<noteq> me"
    and "m' \<in> ms" and "meta_str m' ''phase'' = ''reveal''" and "meta_str m' ''roundId'' = round_id r"
    and "election_commit sha e (round_id r) (meta_str m' ''seed'') = c"
  shows "reveal_collision sha me ms"
proof -
  obtain m seed where m: "m \<in> ms" "own_commit sha m seed" "meta_str m ''roundId'' = round_id r"
    "meta_str m ''nodeId'' = node" "meta_str m ''commit'' = c" and me: "election_node e = me"
    using assms(1,3-5) unfolding only_own_def by blast
  have "commit_text (round_id r) node seed \<noteq> commit_text (round_id r) me (meta_str m' ''seed'')"
    using commit_text_inject [OF _ assms(2)] m(2,4) assms(5) unfolding own_commit_def by blast
  moreover have "sha (commit_text (round_id r) node seed) = sha (commit_text (round_id r) me (meta_str m' ''seed''))"
    using m(2-5) me assms(9) by (simp add: own_commit_def election_commit_eq hex_inject)
  ultimately show ?thesis unfolding reveal_collision_def using m assms(6-8) by fastforce
qed

lemma record_reveal_own:
  assumes "only_own sha ms me e" and "CHR '':'' \<notin> set me" and "\<not> reveal_collision sha me ms"
    and "m \<in> ms" and "meta_str m ''phase'' = ''reveal''"
  shows "only_own sha ms me (record_reveal sha (meta_str m ''roundId'') node (meta_str m ''seed'') e)"
proof (cases "record_reveal sha (meta_str m ''roundId'') node (meta_str m ''seed'') e = e")
  case False
  then obtain r c where r: "current_round e = Some r" "map_of (commits r) node = Some c"
    "meta_str m ''roundId'' = round_id r" "election_commit sha e (round_id r) (meta_str m ''seed'') = c"
    by (auto simp: record_reveal_def split: option.splits if_splits)
  then have "node = me" using foreign_reveal_collides [OF assms(1,2) r(1,2) _ assms(4,5) r(3,4)] assms(3) by blast
  with r assms(1) show ?thesis by (auto simp: record_reveal_def only_own_def)
qed (use assms(1) in simp)

lemma start_round_own: "only_own sha ms me e \<Longrightarrow> only_own sha ms me (snd (start_round sha round seed e))"
  by (auto simp: start_round_def only_own_def Let_def)

lemma handle_election_own:
  assumes "only_own sha ms me (election g)" and "CHR '':'' \<notin> set me" and "\<not> reveal_collision sha me ms"
    and "m \<in> ms" and "meta_str m ''phase'' = ''commit'' \<Longrightarrow> \<exists>seed. own_commit sha m seed"
  shows "only_own sha ms me (election (snd (handle_election sha m seed now g)))"
proof -
  let ?round = "meta_str m ''roundId''" and ?node = "meta_str m ''nodeId''"
  have "only_own sha ms me (record_commit ?round ?node (meta_str m ''commit'') (election g))"
    if "meta_str m ''phase'' = ''commit''"
    using assms(1,4) assms(5) [OF that]
    by (auto simp: record_commit_def only_own_def update_conv' split: option.split)
  moreover have "only_own sha ms me (snd (start_reveal ?round (election g)))"
    using assms(1) by (auto simp: start_reveal_def only_own_def split: option.split)
  moreover have "only_own sha ms me (snd (finalize_election sha ?round stakes peers now (election g)))"
    for stakes peers
    using assms(1) by (auto simp: finalize_election_def only_own_def Let_def split: option.split)
  moreover note start_round_own [OF assms(1), of ?round seed]
  moreover have "election (snd (handle_election sha m seed now g)) \<in>
    {election g, snd (start_round sha ?round seed (election g)), snd (start_reveal ?round (election g)),
     snd (finalize_election sha ?round (node_stakes (staking g)) (map fst (node_stakes (staking g))) now
       (election g))} \<or>
    meta_str m ''phase'' = ''commit'' \<and> election (snd (handle_election sha m seed now g)) =
      record_commit ?round ?node (meta_str m ''commit'') (election g) \<or>
    meta_str m ''phase'' = ''reveal'' \<and> election (snd (handle_election sha m seed now g)) =
      record_reveal sha ?round ?node (meta_str m ''seed'') (election g)"
    by (simp add: handle_election_def Let_def split: prod.split option.split)
  ultimately show ?thesis using assms(1) record_reveal_own [OF assms(1-4), of ?node] by auto
qed

lemma governance_step_own:
  assumes "only_own sha ms me (election g)" and "CHR '':'' \<notin> set me" and "\<not> reveal_collision sha me ms"
    and "packets [ev] \<subseteq> ms"
    and "\<And>m. m \<in> ms \<Longrightarrow> meta_str m ''phase'' = ''commit'' \<Longrightarrow> \<exists>seed. own_commit sha m seed"
  shows "only_own sha ms me (election (governance_step sha ev g))"
proof (cases ev)
  case (StakePacket p now)
  with assms(1) show ?thesis by (simp add: handle_stake_eq)
next
  case (ElectionPacket m seed now)
  then have "m \<in> ms" using assms(4) by (auto simp: packets_def)
  with handle_election_own [OF assms(1-3)] assms(5) ElectionPacket show ?thesis by simp
next
  case (Configured key v parsed)
  with assms(1) show ?thesis
    by (auto simp: governance_set_def only_own_def set_max_validator_count_def split: option.split)
next
  case (HourPasses hour_key minute second commit_seed my_seed)
  have "only_own sha ms me (snd (may_start hour_key minute second (election g)))"
    using assms(1) by (simp add: may_start_def only_own_def)
  then have "only_own sha ms me e' \<and> only_own sha ms me (snd (start_round sha round my_seed e'))"
    if "may_start hour_key minute second (election g) = (x, e')" for x e' round
    using that start_round_own [of sha ms me e' round my_seed] by simp
  with HourPasses show ?thesis
    by (simp add: start_scheduled_election_def split: prod.split option.split) (metis snd_conv)
qed

text \<open>
  C40. A node draws its election from its own seed alone. \<open>election_commit\<close> hashes the name of the
  node that runs it, also when it checks the reveal of a different node. So where every commit
  packet was made by the node it names, as \<open>start_round\<close> makes it, and names hold no colon, then
  after any packets, settings and hours a node's round holds its own reveal only and its
  election is seeded by it, unless a commit and a reveal it was sent hash different texts
  alike. A commit made under the name of the node that checks it, as the unit test of
  \<open>election.rs\<close> makes one, is outside this.
\<close>

theorem reveals_never_shared:
  assumes "CHR '':'' \<notin> set me"
    and "\<forall>m \<in> packets trace. meta_str m ''phase'' = ''commit'' \<longrightarrow> (\<exists>seed. own_commit sha m seed)"
    and "current_round (election (governance_run sha trace (governance_new me voter))) = Some r"
  shows "(\<exists>seed. reveals r = [(me, seed)] \<and> election_seed r = round_id r @ ''::'' @ me @ ''='' @ seed) \<or>
    reveal_collision sha me (packets trace)"
proof (cases "reveal_collision sha me (packets trace)")
  case False
  have "only_own sha (packets trace) me (election (governance_run sha trace (governance_new me voter)))"
  proof (rule governance_run_keeps [where P = "\<lambda>g. only_own sha (packets trace) me (election g)"])
    fix ev and g :: governance assume "ev \<in> set trace" "only_own sha (packets trace) me (election g)"
    then show "only_own sha (packets trace) me (election (governance_step sha ev g))"
      using assms(1,2) False by (intro governance_step_own) (auto simp: packets_def)
  qed (simp add: only_own_def governance_new_def election_new_def)
  with assms(3) show ?thesis by (auto simp: only_own_def election_seed_def)
qed simp

definition sample_round :: "governance_event list" where
  "sample_round =
     [HourPasses ''2026-01-01T00'' 0 0 ''c'' ''s-a'',
      ElectionPacket [(''phase'', ''commit''), (''roundId'', ''2026-01-01T00''), (''nodeId'', ''b''),
        (''commit'', hex ''2026-01-01T00::b::s-b'')] ''x'' (I64 1),
      ElectionPacket [(''phase'', ''start-reveal''), (''roundId'', ''2026-01-01T00'')] ''y'' (I64 2),
      ElectionPacket [(''phase'', ''reveal''), (''roundId'', ''2026-01-01T00''), (''nodeId'', ''b''),
        (''seed'', ''s-b'')] ''z'' (I64 3)]"

lemma hex_Nil: "hex [] = []"
  by (simp add: hex_def)

lemma sample_round_runs:
  "\<exists>r. current_round (election (governance_run id sample_round (governance_new ''a'' ''v''))) = Some r \<and>
     map_of (commits r) ''b'' = Some (hex ''2026-01-01T00::b::s-b'')"
  by (simp add: sample_round_def handle_election_def start_scheduled_election_def may_start_def meta_str_def
      start_round_def governance_new_def election_new_def record_commit_def start_reveal_def record_reveal_def
      election_commit_def hex_inject hex_inject [of _ "[]", simplified hex_Nil] Let_def)

theorem reveals_never_shared_witness:
  "\<exists>r seed. current_round (election (governance_run id sample_round (governance_new ''a'' ''v''))) = Some r \<and>
     map_of (commits r) ''b'' \<noteq> None \<and> reveals r = [(''a'', seed)]"
proof -
  obtain r where r: "current_round (election (governance_run id sample_round (governance_new ''a'' ''v''))) = Some r"
    "map_of (commits r) ''b'' \<noteq> None"
    using sample_round_runs by blast
  have "\<forall>m \<in> packets sample_round. meta_str m ''phase'' = ''commit'' \<longrightarrow> (\<exists>seed. own_commit id m seed)"
    by (auto simp: packets_def sample_round_def own_commit_def commit_text_def meta_str_def)
  from reveals_never_shared [OF _ this r(1)] r show ?thesis by (auto simp: reveal_collision_def)
qed

end
