(* ===== verification/Consensus.thy ===== *)
theory Consensus
  imports Governance Policy Contracts
begin

text \<open>
  Ordering and finalizing financial records: the rules of
  \<open>crates/aseman-domain/src/consensus.rs\<close>, the provider over the hashgraph engine
  (\<open>modules/consensus/hashgraph/src/provider.rs\<close>) and the use cases of
  \<open>crates/aseman-application/src/consensus.rs\<close>. The blocks the engine commits, the hash, the
  JSON texts and the engine's queue are parameters. A poisoned lock is not modelled: no code
  that holds the lock panics.
\<close>

section \<open>The rules\<close>

datatype epoch = Epoch (epoch_get: u64)

definition GENESIS :: epoch where
  "GENESIS = Epoch 0"

instantiation epoch :: linorder
begin

definition less_eq_epoch :: "epoch \<Rightarrow> epoch \<Rightarrow> bool" where
  "less_eq_epoch a b \<longleftrightarrow> epoch_get a \<le> epoch_get b"

definition less_epoch :: "epoch \<Rightarrow> epoch \<Rightarrow> bool" where
  "less_epoch a b \<longleftrightarrow> epoch_get a < epoch_get b"

instance
  by standard (auto simp: less_eq_epoch_def less_epoch_def epoch.expand)

end

datatype consensus_error =
    EpochOverflow
  | StaleCheckpoint
  | RecordsInFlight u64
  | InvalidDigest
  | EpochWentBackwards
  | OutOfOrder

fun epoch_next :: "epoch \<Rightarrow> (epoch, consensus_error) result" where
  "epoch_next (Epoch e) = ok_or EpochOverflow (map_option Epoch (checked_add e 1))"

record finalized =
  fin_key :: string
  fin_epoch :: epoch
  fin_position :: u64
  fin_digest :: string

record order_checkpoint =
  ckpt_epoch :: epoch
  ckpt_record_count :: u64
  ckpt_digest :: string
  ckpt_taken_at :: i64

definition may_switch :: "order_checkpoint \<Rightarrow> epoch \<Rightarrow> u64 \<Rightarrow> (unit, consensus_error) result" where
  "may_switch ckpt outgoing pending =
     (if ckpt_epoch ckpt \<noteq> outgoing then Err StaleCheckpoint
      else if 0 < pending then Err (RecordsInFlight pending)
      else if \<not> sha256_digest (ckpt_digest ckpt) then Err InvalidDigest
      else Ok ())"

fun accept_finalized :: "finalized option \<Rightarrow> finalized \<Rightarrow> (unit, consensus_error) result" where
  "accept_finalized None received = Ok ()"
| "accept_finalized (Some prev) received =
     (if fin_epoch received < fin_epoch prev then Err EpochWentBackwards
      else if fin_epoch received = fin_epoch prev \<and> fin_position received \<le> fin_position prev
      then Err OutOfOrder
      else Ok ())"

definition agrees :: "finalized \<Rightarrow> string \<Rightarrow> bool" where
  "agrees f local_digest \<longleftrightarrow> fin_digest f = local_digest"

definition order_key :: "finalized \<Rightarrow> epoch \<times> u64" where
  "order_key f = (fin_epoch f, fin_position f)"

definition accepts :: "finalized option \<Rightarrow> finalized \<Rightarrow> bool" where
  "accepts prev received = is_ok (accept_finalized prev received)"

lemma accepts_Some: "accepts (Some prev) f \<longleftrightarrow> order_key prev < order_key f"
  by (auto simp: accepts_def order_key_def less_prod_def' less_epoch_def not_le epoch.expand)

interpretation epochs: checked_counter epoch_get epoch_next EpochOverflow
proof
  fix c d
  show "epoch_next c = Ok d \<Longrightarrow> uint (epoch_get d) = uint (epoch_get c) + 1"
    by (cases c) (auto simp: result_simps checked_add_Some_iff)
next
  fix c
  assume "uint (epoch_get c) + 1 < 2 ^ 64"
  then show "\<exists>d. epoch_next c = Ok d"
    by (cases c) (auto simp: result_simps checked_add_def)
next
  fix c e
  show "epoch_next c = Err e \<Longrightarrow> e = EpochOverflow"
    by (cases c) (auto simp: result_simps)
qed (simp add: epoch.expand)

interpretation order: monotone_log order_key accepts
  by unfold_locales (simp add: accepts_Some)

section \<open>The provider\<close>

record ordered_record =
  rec_key :: string
  rec_digest :: string

record provider_state =
  pending_records :: "(string \<times> string) list"
  finalized_records :: "finalized list"
  adopted :: "order_checkpoint option"

definition provider_default :: provider_state where
  "provider_default = \<lparr>pending_records = [], finalized_records = [], adopted = None\<rparr>"

definition provider_epoch :: "provider_state \<Rightarrow> epoch" where
  "provider_epoch s =
     (case finalized_records s of [] \<Rightarrow> GENESIS | _ \<Rightarrow> Max (set (map fin_epoch (finalized_records s))))"

definition record_bytes :: "finalized \<Rightarrow> string" where
  "record_bytes f =
     fin_key f @ [char_of (0 :: nat)] @ be_bytes 8 (unat (epoch_get (fin_epoch f))) @
     be_bytes 8 (unat (fin_position f)) @ fin_digest f @ [char_of (10 :: nat)]"

definition order_bytes :: "provider_state \<Rightarrow> string" where
  "order_bytes s =
     (case adopted s of None \<Rightarrow> [] | Some c \<Rightarrow> ckpt_digest c) @
     concat (map record_bytes (finalized_records s))"

definition provider_checkpoint :: "(string \<Rightarrow> string) \<Rightarrow> provider_state \<Rightarrow> i64 \<Rightarrow> order_checkpoint" where
  "provider_checkpoint sha s at =
     \<lparr>ckpt_epoch = provider_epoch s,
      ckpt_record_count =
        saturating_add (case adopted s of None \<Rightarrow> 0 | Some c \<Rightarrow> ckpt_record_count c)
          (of_nat (length (finalized_records s))),
      ckpt_digest = ''sha256:'' @ hex (sha (order_bytes s)), ckpt_taken_at = at\<rparr>"

text \<open>\<open>classify\<close> splits a transaction at its first \<open>::\<close>.\<close>

fun split_frame :: "string \<Rightarrow> (string \<times> string) option" where
  "split_frame (a # b # rest) =
     (if a = CHR '':'' \<and> b = CHR '':'' then Some ([], rest)
      else map_option (\<lambda>(typ, payload). (a # typ, payload)) (split_frame (b # rest)))"
| "split_frame _ = None"

definition classify :: "string \<Rightarrow> string \<times> string" where
  "classify bytes = (case split_frame bytes of Some p \<Rightarrow> p | None \<Rightarrow> ([], bytes))"

record chain_codec =
  parse_stake :: "string \<Rightarrow> (stake_packet, string) result"
  parse_election :: "string \<Rightarrow> (meta, string) result"
  parse_record :: "string \<Rightarrow> (ordered_record, string) result"

record block =
  block_index :: i64
  block_transactions :: "string list"
  block_internal :: "string list"
  block_timestamp :: i64

record commit_response =
  state_hash :: string
  receipts :: "(string \<times> bool) list"

text \<open>What the handler works on: the provider's state, the governance and the forwarded transactions.\<close>

type_synonym commit_state = "provider_state \<times> governance \<times> string list"

definition commit_record ::
  "epoch \<Rightarrow> nat \<Rightarrow> ordered_record \<Rightarrow> provider_state \<Rightarrow> (unit, string) result \<times> provider_state" where
  "commit_record epoch position r s =
     (let unpend = s\<lparr>pending_records := AList.delete (rec_key r) (pending_records s)\<rparr> in
      case List.find (\<lambda>f. fin_key f = rec_key r) (finalized_records s) of
        Some existing \<Rightarrow>
          if fin_digest existing \<noteq> rec_digest r
          then (Err ''idempotency key finalized with another digest'', s)
          else (Ok (), unpend)
      | None \<Rightarrow>
          if position < 2 ^ 64
          then (Ok (), unpend\<lparr>finalized_records := finalized_records s @
                 [\<lparr>fin_key = rec_key r, fin_epoch = epoch, fin_position = of_nat position,
                   fin_digest = rec_digest r\<rparr>]\<rparr>)
          else (Err ''position overflow'', unpend))"

text \<open>
  One committed transaction. \<open>env\<close> gives the seed and the clock a governance handler reads at
  a position.
\<close>

definition commit_transaction ::
  "(string \<Rightarrow> string) \<Rightarrow> chain_codec \<Rightarrow> (nat \<Rightarrow> string \<times> i64) \<Rightarrow> epoch \<Rightarrow> nat \<Rightarrow> string \<Rightarrow> commit_state
   \<Rightarrow> (unit, string) result \<times> commit_state" where
  "commit_transaction sha codec env epoch position bytes st =
     (case (st, classify bytes) of
        ((s, g, forwarded), (typ, payload)) \<Rightarrow>
          if typ = ''stake'' then
            (case parse_stake codec payload of
               Inl e \<Rightarrow> (Err (''invalid stake packet: '' @ e), st)
             | Inr packet \<Rightarrow>
                 (Ok (), s, snd (handle_stake packet (snd (env position)) g), forwarded))
          else if typ = ''election'' then
            (case parse_election codec payload of
               Inl e \<Rightarrow> (Err (''invalid election packet: '' @ e), st)
             | Inr m \<Rightarrow>
                 (Ok (), s, snd (handle_election sha m (fst (env position)) (snd (env position)) g), forwarded))
          else if typ = ''base'' \<or> typ = ''message'' \<or> typ = ''response'' then
            (Ok (), s, g, forwarded @ [bytes])
          else
            (case parse_record codec bytes of
               Inl e \<Rightarrow> (Err (''invalid finance consensus record: '' @ e), st)
             | Inr r \<Rightarrow>
                 (case commit_record epoch position r s of (res, s) \<Rightarrow> (res, s, g, forwarded))))"

fun commit_loop ::
  "(string \<Rightarrow> string) \<Rightarrow> chain_codec \<Rightarrow> (nat \<Rightarrow> string \<times> i64) \<Rightarrow> epoch \<Rightarrow> nat \<Rightarrow> string list \<Rightarrow> commit_state
   \<Rightarrow> (unit, string) result \<times> commit_state" where
  "commit_loop sha codec env epoch position [] st = (Ok (), st)"
| "commit_loop sha codec env epoch position (bytes # rest) st =
     (case commit_transaction sha codec env epoch position bytes st of
        (Inl e, st) \<Rightarrow> (Err e, st)
      | (Inr _, st) \<Rightarrow> commit_loop sha codec env epoch (Suc position) rest st)"

definition block_epoch :: "block \<Rightarrow> (epoch, string) result" where
  "block_epoch b =
     and_then (ok_or ''Hashgraph committed a negative block index'' (u64_of_i64 (block_index b)))
       (\<lambda>i. ok_or ''Hashgraph block index exhausted the epoch range''
          (map_option Epoch (checked_add i 1)))"

text \<open>The transactions handed to the chain module are the third component of the result.\<close>

definition commit_handler ::
  "(string \<Rightarrow> string) \<Rightarrow> chain_codec \<Rightarrow> (nat \<Rightarrow> string \<times> i64) \<Rightarrow> block \<Rightarrow> provider_state \<times> governance
   \<Rightarrow> (commit_response \<times> string list, string) result \<times> provider_state \<times> governance" where
  "commit_handler sha codec env b sg =
     (case block_epoch b of
        Inl e \<Rightarrow> (Err e, sg)
      | Inr epoch \<Rightarrow>
          (case commit_loop sha codec env epoch 0 (block_transactions b) (fst sg, snd sg, []) of
             (Inl e, s, g, _) \<Rightarrow> (Err e, s, g)
           | (Inr _, s, g, forwarded) \<Rightarrow>
               (Ok (\<lparr>state_hash = ckpt_digest (provider_checkpoint sha s (block_timestamp b)),
                   receipts = map (\<lambda>t. (t, True)) (block_internal b)\<rparr>, forwarded), s, g)))"

definition restore_handler ::
  "(string \<Rightarrow> string) \<Rightarrow> (string \<Rightarrow> (provider_state, string) result) \<Rightarrow> string \<Rightarrow> provider_state
   \<Rightarrow> (string, string) result \<times> provider_state" where
  "restore_handler sha decode snapshot s =
     (case decode snapshot of
        Inl e \<Rightarrow> (Err e, s)
      | Inr restored \<Rightarrow> (Ok (ckpt_digest (provider_checkpoint sha restored (I64 0))), restored))"

text \<open>
  \<open>submit\<close> releases the lock before it hands the record to the engine's queue; \<open>queued\<close> is the
  queue's answer and \<open>meanwhile\<close> what else happens to the state until a failure takes the lock
  again.
\<close>

definition provider_submit ::
  "(unit, string) result \<Rightarrow> (provider_state \<Rightarrow> provider_state) \<Rightarrow> string \<Rightarrow> string \<Rightarrow> provider_state
   \<Rightarrow> (unit, port_error) result \<times> provider_state" where
  "provider_submit queued meanwhile key digest s =
     (if key = [] \<or> \<not> sha256_digest digest then (Err (Denied ''invalid consensus record''), s)
      else
        (case List.find (\<lambda>f. fin_key f = key) (finalized_records s) of
           Some existing \<Rightarrow> (if fin_digest existing = digest then Ok () else Err Conflict, s)
         | None \<Rightarrow>
             (case map_of (pending_records s) key of
                Some existing \<Rightarrow> (if existing = digest then Ok () else Err Conflict, s)
              | None \<Rightarrow>
                  (let s = meanwhile (s\<lparr>pending_records := AList.update key digest (pending_records s)\<rparr>) in
                   case queued of
                     Inl e \<Rightarrow>
                       (Err (Failed e), s\<lparr>pending_records := AList.delete key (pending_records s)\<rparr>)
                   | Inr _ \<Rightarrow> (Ok (), s)))))"

definition finalized_after :: "epoch \<Rightarrow> nat \<Rightarrow> provider_state \<Rightarrow> finalized list" where
  "finalized_after epoch limit s =
     take (max limit 1) (filter (\<lambda>f. epoch < fin_epoch f) (finalized_records s))"

definition provider_pending :: "provider_state \<Rightarrow> u64" where
  "provider_pending s = of_nat (length (pending_records s))"

definition provider_adopt :: "order_checkpoint \<Rightarrow> provider_state \<Rightarrow> (unit, port_error) result \<times> provider_state" where
  "provider_adopt ckpt s =
     (if adopted s \<noteq> None \<or> finalized_records s \<noteq> [] \<or> pending_records s \<noteq> [] then (Err Conflict, s)
      else if \<not> sha256_digest (ckpt_digest ckpt) then (Err (Denied ''invalid consensus checkpoint''), s)
      else (Ok (), s\<lparr>adopted := Some ckpt\<rparr>))"

section \<open>The use cases\<close>

definition journal_idempotency_key :: "string \<Rightarrow> string" where
  "journal_idempotency_key journal_id = ''journal:'' @ journal_id"

definition journal_digest :: "(string \<Rightarrow> string) \<Rightarrow> string \<Rightarrow> string" where
  "journal_digest sha journal_id = ''sha256:'' @ hex (sha (journal_idempotency_key journal_id))"

definition submit_finance_record ::
  "(string \<Rightarrow> string) \<Rightarrow> (unit, string) result \<Rightarrow> (provider_state \<Rightarrow> provider_state) \<Rightarrow> string \<Rightarrow> provider_state
   \<Rightarrow> (unit, application_error) result \<times> provider_state" where
  "submit_finance_record sha queued meanwhile journal_id s =
     (case provider_submit queued meanwhile (journal_idempotency_key journal_id)
         (journal_digest sha journal_id) s of
        (r, s) \<Rightarrow> (map_err ApplicationPort r, s))"

record handover_readiness =
  ready_pending :: u64
  ready_checkpoint :: order_checkpoint

definition check_handover_readiness :: "(string \<Rightarrow> string) \<Rightarrow> i64 \<Rightarrow> provider_state \<Rightarrow> handover_readiness" where
  "check_handover_readiness sha at s =
     \<lparr>ready_pending = provider_pending s, ready_checkpoint = provider_checkpoint sha s at\<rparr>"

definition readiness_may_switch ::
  "handover_readiness \<Rightarrow> epoch \<Rightarrow> (unit, consensus_error) result" where
  "readiness_may_switch ready outgoing =
     may_switch (ready_checkpoint ready) outgoing (ready_pending ready)"

definition adopt_consensus_checkpoint ::
  "order_checkpoint \<Rightarrow> provider_state \<Rightarrow> (unit, application_error) result \<times> provider_state" where
  "adopt_consensus_checkpoint ckpt s =
     (case provider_adopt ckpt s of
        (Inl Conflict, s) \<Rightarrow>
          (Err (ApplicationDenied ''the consensus provider already has history; it cannot adopt a checkpoint''), s)
      | (r, s) \<Rightarrow> (map_err ApplicationPort r, s))"

section \<open>The order extends\<close>

definition order_ok :: "provider_state \<Rightarrow> bool" where
  "order_ok s \<longleftrightarrow>
     sorted_wrt (<) (map order_key (finalized_records s)) \<and>
     distinct (map fin_key (finalized_records s)) \<and>
     fin_key ` set (finalized_records s) \<inter> fst ` set (pending_records s) = {}"

definition below :: "epoch \<Rightarrow> nat \<Rightarrow> provider_state \<Rightarrow> bool" where
  "below e p s \<longleftrightarrow>
     (\<forall>f \<in> set (finalized_records s). fin_epoch f < e \<or> fin_epoch f = e \<and> unat (fin_position f) < p)"

definition extended :: "provider_state \<Rightarrow> provider_state \<Rightarrow> bool" where
  "extended s t \<longleftrightarrow> order_ok t \<and> prefix (finalized_records s) (finalized_records t)"

lemma below_key:
  assumes "below e p s" and "f \<in> set (finalized_records s)" and "p < 2 ^ 64"
  shows "order_key f < (e, of_nat p)"
proof -
  have "unat (of_nat p :: u64) = p" using assms(3) by (simp add: unat_of_nat take_bit_eq_mod)
  with assms(1,2) show ?thesis
    by (auto simp: below_def order_key_def less_prod_def' word_less_nat_alt)
qed

lemma delete_member: "(a, b) \<in> set (AList.delete k al) \<Longrightarrow> (a, b) \<in> set al \<and> a \<noteq> k"
  by (induction al) (auto split: if_splits)

lemma order_ok_unpend:
  assumes "order_ok s"
  shows "order_ok (s\<lparr>pending_records := AList.delete k (pending_records s)\<rparr>)"
proof -
  have "fst ` set (AList.delete k (pending_records s)) \<subseteq> fst ` set (pending_records s)"
    using delete_member by fastforce
  with assms show ?thesis by (auto simp: order_ok_def)
qed

lemma order_ok_push:
  assumes "order_ok s" and "\<And>f. f \<in> set (finalized_records s) \<Longrightarrow> order_key f < order_key new"
    and "fin_key new \<notin> fin_key ` set (finalized_records s)"
    and "fin_key new \<notin> fst ` set (pending_records s)"
  shows "order_ok (s\<lparr>finalized_records := finalized_records s @ [new]\<rparr>)"
  using assms by (auto simp: order_ok_def sorted_wrt_append)

lemma commit_record_extends:
  assumes ok: "order_ok s" and below: "below e p s" and run: "commit_record e p r s = (res, t)"
  shows "extended s t \<and> below e (Suc p) t"
proof -
  let ?u = "s\<lparr>pending_records := AList.delete (rec_key r) (pending_records s)\<rparr>"
  have up: "below e (Suc p) s" using below by (auto simp: below_def)
  note unpend = order_ok_unpend [OF ok, of "rec_key r"]
  show ?thesis
  proof (cases "t = s \<or> t = ?u")
    case True
    with ok up unpend show ?thesis by (auto simp: extended_def below_def)
  next
    case False
    let ?new = "\<lparr>fin_key = rec_key r, fin_epoch = e, fin_position = of_nat p, fin_digest = rec_digest r\<rparr>"
    from False run have p: "p < 2 ^ 64"
      and t: "t = ?u\<lparr>finalized_records := finalized_records ?u @ [?new]\<rparr>"
      and "List.find (\<lambda>f. fin_key f = rec_key r) (finalized_records s) = None"
      by (auto simp: commit_record_def Let_def split: option.splits if_splits)
    then have new: "rec_key r \<notin> fin_key ` set (finalized_records s)" by (auto simp: find_None_iff)
    have "order_ok t" unfolding t
      using below_key [OF below _ p] new
      by (intro order_ok_push [OF unpend]) (auto simp: order_key_def dest: delete_member)
    moreover have "unat (of_nat p :: u64) = p" using p by (simp add: unat_of_nat take_bit_eq_mod)
    ultimately show ?thesis using up by (auto simp: t extended_def below_def)
  qed
qed

lemma commit_transaction_extends:
  assumes "order_ok s" and "below e p s"
    and "commit_transaction sha codec env e p bytes (s, g, fw) = (res, t, h, fx)"
  shows "extended s t \<and> below e (Suc p) t"
proof -
  have "t = s \<or> (\<exists>r res'. commit_record e p r s = (res', t))"
    using assms(3)
    by (auto simp: commit_transaction_def split: prod.splits sum.splits if_splits)
  moreover have "below e (Suc p) s" using assms(2) by (auto simp: below_def)
  ultimately show ?thesis
    using commit_record_extends [OF assms(1,2)] assms(1) by (auto simp: extended_def)
qed

lemma commit_loop_extends:
  assumes "order_ok s" and "below e p s"
    and "commit_loop sha codec env e p txs (s, g, fw) = (res, t, h, fx)"
  shows "extended s t \<and> (\<exists>q. below e q t)"
  using assms
proof (induction txs arbitrary: p s g fw)
  case Nil
  then show ?case by (auto simp: extended_def)
next
  case (Cons b txs)
  obtain r1 s1 g1 f1 where one: "commit_transaction sha codec env e p b (s, g, fw) = (r1, s1, g1, f1)"
    by (metis prod_cases3 surj_pair)
  note step = commit_transaction_extends [OF Cons.prems(1,2) one]
  show ?case
  proof (cases r1)
    case (Inl x)
    with one step Cons.prems(3) show ?thesis by auto
  next
    case (Inr u)
    with one Cons.prems(3) have "commit_loop sha codec env e (Suc p) txs (s1, g1, f1) = (res, t, h, fx)"
      by simp
    from Cons.IH [OF _ _ this] step show ?thesis
      by (auto simp: extended_def intro: prefix_order.trans)
  qed
qed

text \<open>Events of a provider: submissions, committed blocks and adoptions.\<close>

datatype provider_event =
    Submits "(unit, string) result" string string
  | Commits "nat \<Rightarrow> string \<times> i64" block
  | Adopts order_checkpoint

fun provider_step ::
  "(string \<Rightarrow> string) \<Rightarrow> chain_codec \<Rightarrow> provider_state \<times> governance \<Rightarrow> provider_event \<Rightarrow> provider_state \<times> governance"
  where
  "provider_step sha codec (s, g) (Submits queued key digest) =
     (snd (provider_submit queued id key digest s), g)"
| "provider_step sha codec (s, g) (Commits env b) = snd (commit_handler sha codec env b (s, g))"
| "provider_step sha codec (s, g) (Adopts ckpt) = (snd (provider_adopt ckpt s), g)"

definition provider_run ::
  "(string \<Rightarrow> string) \<Rightarrow> chain_codec \<Rightarrow> provider_event list \<Rightarrow> provider_state \<times> governance
   \<Rightarrow> provider_state \<times> governance" where
  "provider_run sha codec events sg = foldl (provider_step sha codec) sg events"

fun event_index :: "provider_event \<Rightarrow> int list" where
  "event_index (Commits env b) = [int_of (block_index b)]"
| "event_index _ = []"

definition indices :: "provider_event list \<Rightarrow> int list" where
  "indices events = concat (map event_index events)"

lemma indices_Cons: "indices (ev # events) = event_index ev @ indices events"
  by (simp add: indices_def)

definition epochs_upto :: "int \<Rightarrow> provider_state \<Rightarrow> bool" where
  "epochs_upto n s \<longleftrightarrow> (\<forall>f \<in> set (finalized_records s). uint (epoch_get (fin_epoch f)) \<le> n)"

lemma block_epoch_Ok:
  assumes "block_epoch b = Ok e"
  shows "uint (epoch_get e) = int_of (block_index b) + 1"
proof -
  from assms obtain i where "u64_of_i64 (block_index b) = Some i" and "checked_add i 1 = Some (epoch_get e)"
    by (cases e) (auto simp: block_epoch_def result_simps)
  then show ?thesis using int_of_bounds [of "block_index b"]
    by (auto simp: checked_add_Some_iff u64_of_i64_def uint_word_of_int_eq take_bit_eq_mod split: if_splits)
qed

lemma commit_handler_extends:
  assumes "order_ok s" and "epochs_upto n s" and "n \<le> int_of (block_index b)"
  shows "extended s (fst (snd (commit_handler sha codec env b (s, g)))) \<and>
    epochs_upto (int_of (block_index b) + 1) (fst (snd (commit_handler sha codec env b (s, g))))"
proof (cases "block_epoch b")
  case (Inl e)
  with assms show ?thesis by (auto simp: commit_handler_def extended_def epochs_upto_def)
next
  case (Inr e)
  note e = block_epoch_Ok [OF Inr]
  obtain res t h fx where
    run: "commit_loop sha codec env e 0 (block_transactions b) (s, g, []) = (res, t, h, fx)"
    by (metis prod_cases3 surj_pair)
  have "below e 0 s"
    using assms(2,3) e by (auto simp: below_def epochs_upto_def less_epoch_def word_less_def)
  from commit_loop_extends [OF assms(1) this run] obtain q where
    t: "extended s t" "below e q t" by blast
  then have "epochs_upto (int_of (block_index b) + 1) t"
    using e by (auto simp: below_def epochs_upto_def less_epoch_def word_less_def)
  with t(1) run Inr show ?thesis by (cases res) (simp_all add: commit_handler_def)
qed

lemma submit_extends:
  assumes ok: "order_ok s"
  shows "extended s (snd (provider_submit queued id key digest s))"
proof -
  let ?p = "s\<lparr>pending_records := AList.update key digest (pending_records s)\<rparr>"
  let ?t = "snd (provider_submit queued id key digest s)"
  have pend: "order_ok ?p" if "List.find (\<lambda>f. fin_key f = key) (finalized_records s) = None"
  proof -
    have "fst ` set (AList.update key digest (pending_records s)) = insert key (fst ` set (pending_records s))"
      by (simp add: dom_update)
    with ok that show ?thesis by (auto simp: order_ok_def find_None_iff)
  qed
  have "?t = s \<or> List.find (\<lambda>f. fin_key f = key) (finalized_records s) = None \<and>
      (?t = ?p \<or> ?t = ?p\<lparr>pending_records := AList.delete key (pending_records ?p)\<rparr>)"
    by (auto simp: provider_submit_def Let_def split: option.split sum.split)
  with ok pend order_ok_unpend [OF pend, of key] show ?thesis by (auto simp: extended_def)
qed

lemma adopt_extends: "order_ok s \<Longrightarrow> extended s (snd (provider_adopt ckpt s))"
  by (auto simp: provider_adopt_def extended_def order_ok_def)

lemma provider_step_extends:
  assumes "order_ok s" and "epochs_upto n s"
    and "\<And>i. i \<in> set (event_index ev) \<Longrightarrow> n \<le> i"
  shows "extended s (fst (provider_step sha codec (s, g) ev)) \<and>
    epochs_upto (if event_index ev = [] then n else hd (event_index ev) + 1)
      (fst (provider_step sha codec (s, g) ev))"
proof (cases ev)
  case (Submits queued key digest)
  have "finalized_records (snd (provider_submit queued id key digest s)) = finalized_records s"
    by (auto simp: provider_submit_def Let_def split: option.split sum.split)
  with Submits assms submit_extends [OF assms(1)] show ?thesis by (simp add: epochs_upto_def)
next
  case (Commits env b)
  with assms commit_handler_extends [OF assms(1,2), of b] show ?thesis by simp
next
  case (Adopts ckpt)
  with assms adopt_extends [OF assms(1)] show ?thesis by (auto simp: epochs_upto_def provider_adopt_def)
qed

lemma provider_run_extends:
  assumes "order_ok s" and "epochs_upto n s" and "sorted_wrt (<) (indices events)"
    and "\<And>i. i \<in> set (indices events) \<Longrightarrow> n \<le> i"
  shows "extended s (fst (provider_run sha codec events (s, g))) \<and>
    epochs_upto (if indices events = [] then n else last (indices events) + 1)
      (fst (provider_run sha codec events (s, g)))"
  using assms
proof (induction events arbitrary: s g n)
  case Nil
  then show ?case by (simp add: provider_run_def extended_def indices_def)
next
  case (Cons ev events)
  obtain s1 g1 where one: "provider_step sha codec (s, g) ev = (s1, g1)" by fastforce
  let ?n = "if event_index ev = [] then n else hd (event_index ev) + 1"
  have step: "extended s s1" "epochs_upto ?n s1"
    using provider_step_extends [OF Cons.prems(1,2), of ev sha codec g] Cons.prems(4) one
    by (auto simp: indices_def)
  note idx = indices_Cons
  have "?n \<le> i" if i: "i \<in> set (indices events)" for i
  proof (cases ev)
    case (Commits env b)
    have "\<forall>x \<in> set (event_index ev). x < i"
      using Cons.prems(3) i by (simp add: idx sorted_wrt_append)
    with Commits show ?thesis by simp
  qed (use Cons.prems(4) [of i] i in \<open>simp_all add: indices_def\<close>)
  moreover have "sorted_wrt (<) (indices events)"
    using Cons.prems(3) by (simp add: idx sorted_wrt_append)
  ultimately have rest: "extended s1 (fst (provider_run sha codec events (s1, g1)))"
    "epochs_upto (if indices events = [] then ?n else last (indices events) + 1)
      (fst (provider_run sha codec events (s1, g1)))"
    using Cons.IH [of s1 ?n g1] step by (simp_all add: extended_def)
  have "(if indices events = [] then ?n else last (indices events) + 1) =
      (if indices (ev # events) = [] then n else last (indices (ev # events)) + 1)"
    by (cases ev) (simp_all add: idx)
  moreover have "prefix (finalized_records s) (finalized_records (fst (provider_run sha codec events (s1, g1))))"
    using step(1) rest(1) prefix_order.trans unfolding extended_def by blast
  ultimately show ?case using rest one by (simp add: provider_run_def extended_def)
qed

lemma offer_all_of_sorted:
  "sorted_wrt (<) (map order_key fs) \<Longrightarrow> is_none_or (\<lambda>p. \<forall>f \<in> set fs. order_key p < order_key f) prev \<Longrightarrow>
   offer_all accepts prev fs = fs"
proof (induction fs arbitrary: prev)
  case (Cons f fs)
  have "accepts prev f"
  proof (cases prev)
    case None
    then show ?thesis by (simp add: accepts_def)
  next
    case (Some p)
    with Cons.prems(2) show ?thesis by (simp add: accepts_Some)
  qed
  with Cons show ?case by simp
qed simp

text \<open>
  C20. The finalized order only ever extends. Over any submissions, adoptions and committed
  blocks, the blocks' indices increasing: what was finalized stays as it was and is
  continued; no idempotency key is finalized twice or both finalized and pending; a node
  that takes the records one by one under the rule of the domain accepts every one of them,
  in that order. Whatever records a node is offered, those it accepts are in strictly
  increasing order of epoch and position.
\<close>

theorem finalized_order_extends:
  assumes "sorted_wrt (<) (indices (before @ after))"
    and "\<And>i. i \<in> set (indices (before @ after)) \<Longrightarrow> 0 \<le> i"
    and "provider_run sha codec before (provider_default, g) = (s, h)"
    and "provider_run sha codec after (s, h) = (t, k)"
  shows "prefix (finalized_records s) (finalized_records t) \<and>
    distinct (map fin_key (finalized_records t)) \<and>
    fin_key ` set (finalized_records t) \<inter> fst ` set (pending_records t) = {} \<and>
    offer_all accepts None (finalized_records t) = finalized_records t \<and>
    sorted_wrt (<) (map order_key (offer_all accepts None received))"
proof -
  have new: "order_ok provider_default" "epochs_upto 0 provider_default"
    by (simp_all add: order_ok_def epochs_upto_def provider_default_def)
  have idx: "indices (before @ after) = indices before @ indices after" by (simp add: indices_def)
  let ?n = "if indices before = [] then 0 else last (indices before) + 1"
  have s: "order_ok s" "epochs_upto ?n s"
    using provider_run_extends [OF new, of before sha codec g] assms(1-3)
    by (auto simp: idx sorted_wrt_append extended_def)
  have "?n \<le> i" if "i \<in> set (indices after)" for i
    using that assms(1,2) last_in_set [of "indices before"] by (fastforce simp: idx sorted_wrt_append)
  then have "extended s t"
    using provider_run_extends [OF s, of after sha codec h] assms(1,4)
    by (auto simp: idx sorted_wrt_append)
  then show ?thesis
    using order.offer_all_sorted [of None received] offer_all_of_sorted [of "finalized_records t" None]
    by (auto simp: extended_def order_ok_def)
qed

section \<open>Replicas agree\<close>

text \<open>
  Blocks committed one after the other, each with the seeds and clocks the replica reads. A
  block whose commit fails leaves what was applied before the failure.
\<close>

fun commit_blocks ::
  "(string \<Rightarrow> string) \<Rightarrow> chain_codec \<Rightarrow> (block \<times> (nat \<Rightarrow> string \<times> i64)) list \<Rightarrow> provider_state \<times> governance
   \<Rightarrow> (commit_response \<times> string list, string) result list \<times> provider_state \<times> governance" where
  "commit_blocks sha codec [] sg = ([], sg)"
| "commit_blocks sha codec ((b, env) # rest) sg =
     (case commit_handler sha codec env b sg of (r, sg) \<Rightarrow>
      case commit_blocks sha codec rest sg of (rs, sg) \<Rightarrow> (r # rs, sg))"

definition same_order :: "provider_state \<Rightarrow> provider_state \<Rightarrow> bool" where
  "same_order s t \<longleftrightarrow> finalized_records s = finalized_records t \<and> adopted s = adopted t"

lemma same_order_digest: "same_order s t \<Longrightarrow>
    ckpt_digest (provider_checkpoint sha s at) = ckpt_digest (provider_checkpoint sha t at)"
  by (simp add: same_order_def provider_checkpoint_def order_bytes_def)

lemma commit_record_same:
  "same_order s t \<Longrightarrow> fst (commit_record e p r s) = fst (commit_record e p r t) \<and>
    same_order (snd (commit_record e p r s)) (snd (commit_record e p r t))"
  by (auto simp: same_order_def commit_record_def Let_def split: option.split)

definition same_result ::
  "(unit, string) result \<times> commit_state \<Rightarrow> (unit, string) result \<times> commit_state \<Rightarrow> bool" where
  "same_result x y \<longleftrightarrow>
     fst x = fst y \<and> same_order (fst (snd x)) (fst (snd y)) \<and> snd (snd (snd x)) = snd (snd (snd y))"

lemma commit_transaction_same:
  assumes "same_order s t"
  shows "same_result (commit_transaction sha codec env e p bytes (s, g, fw))
    (commit_transaction sha codec env' e p bytes (t, h, fw))"
  using assms commit_record_same [OF assms, of e p]
  by (auto simp: commit_transaction_def same_result_def split: prod.split sum.split)
    (auto simp: prod_eq_iff)

lemma commit_loop_same:
  assumes "same_order s t"
  shows "same_result (commit_loop sha codec env e p txs (s, g, fw))
    (commit_loop sha codec env' e p txs (t, h, fw))"
  using assms
proof (induction txs arbitrary: p s t g h fw)
  case Nil
  then show ?case by (simp add: same_result_def)
next
  case (Cons b txs)
  obtain r1 s1 g1 f1 where one: "commit_transaction sha codec env e p b (s, g, fw) = (r1, s1, g1, f1)"
    by (metis prod_cases3 surj_pair)
  obtain r2 t1 h1 f2 where two: "commit_transaction sha codec env' e p b (t, h, fw) = (r2, t1, h1, f2)"
    by (metis prod_cases3 surj_pair)
  from commit_transaction_same [OF Cons.prems, of sha codec env e p b g fw env' h]
  have "r1 = r2" "same_order s1 t1" "f1 = f2" by (simp_all add: one two same_result_def)
  with Cons.IH [of s1 t1 "Suc p" g1 f1 h1] one two show ?case
    by (cases r2) (simp_all add: same_result_def)
qed

lemma commit_handler_same:
  assumes "same_order s t"
  shows "fst (commit_handler sha codec env b (s, g)) = fst (commit_handler sha codec env' b (t, h)) \<and>
    same_order (fst (snd (commit_handler sha codec env b (s, g))))
      (fst (snd (commit_handler sha codec env' b (t, h))))"
proof (cases "block_epoch b")
  case (Inl x)
  with assms show ?thesis by (simp add: commit_handler_def)
next
  case (Inr e)
  obtain r1 s1 g1 f1 where one: "commit_loop sha codec env e 0 (block_transactions b) (s, g, []) = (r1, s1, g1, f1)"
    by (metis prod_cases3 surj_pair)
  obtain r2 t1 h1 f2 where two: "commit_loop sha codec env' e 0 (block_transactions b) (t, h, []) = (r2, t1, h1, f2)"
    by (metis prod_cases3 surj_pair)
  from commit_loop_same [OF assms, of sha codec env e 0 "block_transactions b" g "[]" env' h]
  have "r1 = r2" "same_order s1 t1" "f1 = f2" by (simp_all add: one two same_result_def)
  with Inr one two show ?thesis
    by (cases r2) (simp_all add: commit_handler_def same_order_digest [of s1 t1])
qed

text \<open>
  C10. Replicas that commit the same blocks agree. Two providers that start from the same
  finalized order and checkpoint and are given the same blocks answer each block alike, the
  state hash they return to the engine, the forwarded transactions and every error
  included, and hold the same finalized order, whatever each has pending, whatever the state
  of its governance and whatever seeds and clocks it reads.
\<close>

theorem replicas_agree:
  assumes "same_order s t" and "map fst blocks = map fst blocks'"
  shows "fst (commit_blocks sha codec blocks (s, g)) = fst (commit_blocks sha codec blocks' (t, h)) \<and>
    same_order (fst (snd (commit_blocks sha codec blocks (s, g))))
      (fst (snd (commit_blocks sha codec blocks' (t, h))))"
  using assms
proof (induction blocks arbitrary: blocks' s t g h)
  case Nil
  then show ?case by simp
next
  case (Cons p rest)
  obtain b env where p: "p = (b, env)" by fastforce
  with Cons.prems(2) obtain env' rest' where blocks': "blocks' = (b, env') # rest'"
    and rest': "map fst rest = map fst rest'"
    by (cases blocks') auto
  obtain r1 s1 g1 where one: "commit_handler sha codec env b (s, g) = (r1, s1, g1)"
    by (metis prod_cases3)
  obtain r2 t1 h1 where two: "commit_handler sha codec env' b (t, h) = (r2, t1, h1)"
    by (metis prod_cases3)
  from commit_handler_same [OF Cons.prems(1), of sha codec env b g env' h]
  have "r1 = r2" "same_order s1 t1" by (simp_all add: one two)
  with Cons.IH [OF \<open>same_order s1 t1\<close> rest', of g1 h1] show ?case
    by (simp add: p blocks' one two split_def)
qed

section \<open>A handover\<close>

text \<open>
  A provider that adopted a checkpoint counts its records, but not its epochs: it reports
  the epoch before any was finalized, and numbers its first block's epoch 1. A node that has
  accepted a record of the checkpoint's epoch refuses every record of an earlier one.
\<close>

lemma adopted_epoch_restarts:
  assumes "provider_adopt ckpt provider_default = (Ok (), s)"
  shows "provider_epoch s = GENESIS"
    and "block_index b = I64 0 \<Longrightarrow> block_epoch b = Ok (Epoch 1)"
    and "Epoch 1 < fin_epoch prev \<Longrightarrow> fin_epoch f = Epoch 1 \<Longrightarrow>
      accept_finalized (Some prev) f = Err EpochWentBackwards"
  using assms
  by (auto simp: provider_adopt_def provider_default_def provider_epoch_def block_epoch_def
      u64_of_i64_def checked_add_def split: if_splits)

text \<open>
  The stake handler reads the local clock, not the block's: replicas that handle the same
  unbond at different times can hold different stakes.
\<close>

lemma stakes_depend_on_local_clock:
  "node_stakes (staking (snd (handle_stake sample_unbond (I64 99)
      (snd (handle_stake (sample_bond\<lparr>packet_lock_seconds := I64 100\<rparr>) (I64 0) (governance_new ''a'' ''v'')))))) \<noteq>
   node_stakes (staking (snd (handle_stake sample_unbond (I64 100)
      (snd (handle_stake (sample_bond\<lparr>packet_lock_seconds := I64 100\<rparr>) (I64 0) (governance_new ''a'' ''v''))))))"
  by (simp add: handle_stake_eq packet_request_def stake_action_of_def governance_new_def stake_apply_def Let_def settle_mature_unbonds_def stake_entry_def act_def
      apply_bond_def apply_unbond_def settle_one_def staking_new_def sample_bond_def sample_unbond_def
      add_i64_def sub_i64_def i64_simps min_def MAX_VALIDATOR_STAKE_def word_le_def)

section \<open>Witnesses\<close>

definition sample_codec_record :: "string \<Rightarrow> (ordered_record, string) result" where
  "sample_codec_record bytes = Ok \<lparr>rec_key = bytes, rec_digest = ''d''\<rparr>"

definition sample_chain_codec :: chain_codec where
  "sample_chain_codec =
     \<lparr>parse_stake = (\<lambda>_. Err ''not a packet''), parse_election = (\<lambda>_. Err ''not a packet''),
      parse_record = sample_codec_record\<rparr>"

definition sample_block :: "int \<Rightarrow> string \<Rightarrow> block" where
  "sample_block i tx =
     \<lparr>block_index = I64 i, block_transactions = [tx, ''message::hello'', tx], block_internal = [],
      block_timestamp = I64 0\<rparr>"

theorem replicas_agree_witness:
  "same_order provider_default (provider_default\<lparr>pending_records := [(''k'', ''d'')]\<rparr>) \<and>
   fst (commit_blocks id sample_chain_codec [(sample_block 0 ''k'', \<lambda>_. (''s'', I64 1))]
     (provider_default, governance_new ''a'' ''a'')) =
   fst (commit_blocks id sample_chain_codec [(sample_block 0 ''k'', \<lambda>_. (''t'', I64 9))]
     (provider_default\<lparr>pending_records := [(''k'', ''d'')]\<rparr>, governance_new ''b'' ''b''))"
  using replicas_agree [of provider_default "provider_default\<lparr>pending_records := [(''k'', ''d'')]\<rparr>"
      "[(sample_block 0 ''k'', \<lambda>_. (''s'', I64 1))]" "[(sample_block 0 ''k'', \<lambda>_. (''t'', I64 9))]"]
  by (simp add: same_order_def)

theorem finalized_order_extends_witness:
  "prefix
     (finalized_records (fst (provider_run id sample_chain_codec
        [Submits (Ok ()) ''k'' ''d'', Commits (\<lambda>_. (''s'', I64 1)) (sample_block 0 ''k'')]
        (provider_default, governance_new ''a'' ''a''))))
     (finalized_records (fst (provider_run id sample_chain_codec
        [Commits (\<lambda>_. (''s'', I64 1)) (sample_block 4 ''l'')]
        (provider_run id sample_chain_codec
          [Submits (Ok ()) ''k'' ''d'', Commits (\<lambda>_. (''s'', I64 1)) (sample_block 0 ''k'')]
          (provider_default, governance_new ''a'' ''a'')))))"
proof -
  let ?before = "[Submits (Ok ()) ''k'' ''d'', Commits (\<lambda>_. (''s'', I64 1)) (sample_block 0 ''k'')]"
  let ?after = "[Commits (\<lambda>_. (''s'', I64 1)) (sample_block 4 ''l'')]"
  have "indices (?before @ ?after) = [0, 4]" by (simp add: indices_def sample_block_def)
  then have "sorted_wrt (<) (indices (?before @ ?after))"
    and "\<And>i. i \<in> set (indices (?before @ ?after)) \<Longrightarrow> 0 \<le> i"
    by auto
  from finalized_order_extends [OF this surjective_pairing surjective_pairing,
      where received = "[]" and sha = id and codec = sample_chain_codec and g = "governance_new ''a'' ''a''"]
  show ?thesis by simp
qed

end
