(* ===== verification/Federation.thy ===== *)
theory Federation
  imports Policy Contracts
begin

text \<open>
  Federation between node clusters: the envelope and descriptor rules of
  \<open>crates/aseman-domain/src/federation.rs\<close>, the directory and the envelope guard on storage
  (\<open>crates/aseman-capsule/src/federation.rs\<close>) and the use cases that send and serve a request
  (\<open>crates/aseman-application/src/federation.rs\<close>). The transport, the action a request asks
  for, the hash and the JSON texts are parameters.
\<close>

section \<open>Descriptors and envelopes\<close>

record node_descriptor =
  nd_node_id :: uuid
  nd_key_epoch :: u32
  nd_keys :: "string list"
  nd_federation_endpoint :: string
  nd_client_endpoint :: string
  nd_contracts :: "string list"
  nd_runtimes :: "string list"
  nd_sequence :: u64
  nd_expires_at_millis :: i64
  nd_revoked_epochs :: "u32 list"

record workload_descriptor =
  wd_workload_id :: uuid
  wd_home_node :: uuid
  wd_home_endpoint :: string
  wd_public_key :: string
  wd_revision :: u64
  wd_expires_at_millis :: i64

record envelope =
  ev_request_id :: uuid
  ev_source_node :: uuid
  ev_destination_node :: uuid
  ev_subject :: string
  ev_target :: string
  ev_action :: string
  ev_payload_digest :: string
  ev_issued_at_millis :: i64
  ev_expires_at_millis :: i64
  ev_nonce :: string
  ev_hop_limit :: u8
  ev_version :: string

datatype federation_reply = ReplyExecuted string | ReplyReplayed string | ReplyRefused string

datatype federation_error =
    UnknownVersion
  | WrongDestination
  | SelfAddressed
  | Expired
  | LifetimeTooLong
  | HopLimitTooHigh
  | HopLimitReached
  | InvalidNonce
  | Replayed
  | InvalidDigest
  | Incomplete

definition MAX_HOP_LIMIT :: u8 where
  "MAX_HOP_LIMIT = 4"

definition MAX_LIFETIME_MILLIS :: i64 where
  "MAX_LIFETIME_MILLIS = I64 60000"

definition accept_envelope :: "envelope \<Rightarrow> uuid \<Rightarrow> i64 \<Rightarrow> bool \<Rightarrow> (unit, federation_error) result" where
  "accept_envelope e destination now seen =
     (if ev_version e \<noteq> ''1'' then Err UnknownVersion
      else if ev_destination_node e \<noteq> destination then Err WrongDestination
      else if ev_source_node e = ev_destination_node e then Err SelfAddressed
      else if ev_expires_at_millis e \<le> ev_issued_at_millis e then Err Expired
      else if MAX_LIFETIME_MILLIS < sub_i64 (ev_expires_at_millis e) (ev_issued_at_millis e)
      then Err LifetimeTooLong
      else if ev_expires_at_millis e \<le> now then Err Expired
      else if MAX_HOP_LIMIT < ev_hop_limit e then Err HopLimitTooHigh
      else if ev_nonce e = [] \<or> 128 < length (ev_nonce e) then Err InvalidNonce
      else if seen then Err Replayed
      else if \<not> sha256_digest (ev_payload_digest e) then Err InvalidDigest
      else if ev_action e = [] \<or> ev_subject e = [] \<or> ev_target e = [] then Err Incomplete
      else Ok ())"

definition forward_envelope :: "envelope \<Rightarrow> (envelope, federation_error) result" where
  "forward_envelope e =
     (if ev_hop_limit e = 0 then Err HopLimitReached
      else Ok (e\<lparr>ev_hop_limit := ev_hop_limit e - 1\<rparr>))"

definition accepts_node_descriptor :: "node_descriptor option \<Rightarrow> node_descriptor \<Rightarrow> bool" where
  "accepts_node_descriptor cached received \<longleftrightarrow>
     nd_key_epoch received \<notin> set (nd_revoked_epochs received) \<and>
     is_none_or (\<lambda>cached. nd_sequence cached < nd_sequence received) cached"

definition accepts_workload_descriptor :: "workload_descriptor option \<Rightarrow> workload_descriptor \<Rightarrow> bool" where
  "accepts_workload_descriptor cached received \<longleftrightarrow>
     is_none_or (\<lambda>cached. wd_revision cached < wd_revision received) cached"

definition descriptor_is_fresh :: "i64 \<Rightarrow> i64 \<Rightarrow> bool" where
  "descriptor_is_fresh expires now \<longleftrightarrow> now < expires"

interpretation node_log: monotone_log nd_sequence accepts_node_descriptor
  by unfold_locales (simp add: accepts_node_descriptor_def)

interpretation workload_log: monotone_log wd_revision accepts_workload_descriptor
  by unfold_locales (simp add: accepts_workload_descriptor_def)

section \<open>The directory and the guard on storage\<close>

record descriptor_row =
  dr_sequence :: i64
  dr_expires_at_millis :: i64
  dr_text :: string

record federation_db =
  node_rows :: "string \<rightharpoonup> descriptor_row"
  workload_rows :: "string \<rightharpoonup> descriptor_row"
  nonce_rows :: "string \<rightharpoonup> i64"
  answer_rows :: "string \<rightharpoonup> string \<times> i64"

text \<open>The texts of identifiers and descriptors.\<close>

record fed_codec =
  fc_uuid_text :: "uuid \<Rightarrow> string"
  fc_parse_uuid :: "string \<Rightarrow> uuid option"
  fc_node_text :: "node_descriptor \<Rightarrow> string"
  fc_parse_node :: "string \<Rightarrow> (node_descriptor, string) result"
  fc_workload_text :: "workload_descriptor \<Rightarrow> string"
  fc_parse_workload :: "string \<Rightarrow> (workload_descriptor, string) result"

definition signed_fed :: "u64 \<Rightarrow> (i64, storage_error) result" where
  "signed_fed value = ok_or (StorageInvalid TRY_FROM_INT_ERROR) (i64_of_u64 value)"

definition envelope_nonce_key :: "fed_codec \<Rightarrow> envelope \<Rightarrow> string" where
  "envelope_nonce_key c e = fc_uuid_text c (ev_source_node e) @ ''::'' @ ev_nonce e"

definition fresh_row :: "(string \<Rightarrow> ('a, string) result) \<Rightarrow> i64 \<Rightarrow> descriptor_row option
    \<Rightarrow> ('a option, port_error) result" where
  "fresh_row parse now row =
     (case row of
        None \<Rightarrow> Ok None
      | Some r \<Rightarrow>
          if now < dr_expires_at_millis r
          then and_then (map_err Failed (parse (dr_text r))) (\<lambda>d. Ok (Some d))
          else Ok None)"

definition directory_node ::
  "fed_codec \<Rightarrow> trx_end \<Rightarrow> uuid \<Rightarrow> i64 \<Rightarrow> federation_db \<Rightarrow> (node_descriptor option, port_error) result" where
  "directory_node c end node now db =
     and_then (map_err port (fst (auto_run end ReadOnly (\<lambda>db. Ok (node_rows db (fc_uuid_text c node), db)) db)))
       (fresh_row (fc_parse_node c) now)"

definition own_node ::
  "fed_codec \<Rightarrow> trx_end \<Rightarrow> uuid \<Rightarrow> federation_db \<Rightarrow> (node_descriptor, port_error) result" where
  "own_node c end me db = and_then (directory_node c end me i64_MIN db) (ok_or NotFound)"

definition record_node_op ::
  "fed_codec \<Rightarrow> node_descriptor \<Rightarrow> federation_db
   \<Rightarrow> ((unit, port_error) result \<times> federation_db, storage_error) result" where
  "record_node_op c d db =
     and_then (signed_fed (nd_sequence d)) (\<lambda>sequence.
       let key = fc_uuid_text c (nd_node_id d);
           row = \<lparr>dr_sequence = sequence, dr_expires_at_millis = nd_expires_at_millis d, dr_text = fc_node_text c d\<rparr>
       in case node_rows db key of
            Some current \<Rightarrow>
              if sequence \<le> dr_sequence current then Ok (Err Conflict, db)
              else Ok (Ok (), db\<lparr>node_rows := (node_rows db)(key \<mapsto> row)\<rparr>)
          | None \<Rightarrow> Ok (Ok (), db\<lparr>node_rows := (node_rows db)(key \<mapsto> row)\<rparr>))"

definition record_node ::
  "fed_codec \<Rightarrow> federation_db environment \<Rightarrow> node_descriptor \<Rightarrow> federation_db
   \<Rightarrow> (unit, port_error) result \<times> federation_db" where
  "record_node c env d db =
     (if nd_key_epoch d \<in> set (nd_revoked_epochs d)
      then (Err (Denied ''the descriptor revokes its own key epoch''), db)
      else decide env (record_node_op c d) db)"

definition directory_workload ::
  "fed_codec \<Rightarrow> trx_end \<Rightarrow> uuid \<Rightarrow> i64 \<Rightarrow> federation_db \<Rightarrow> (workload_descriptor option, port_error) result" where
  "directory_workload c end workload now db =
     and_then
       (map_err port (fst (auto_run end ReadOnly (\<lambda>db. Ok (workload_rows db (fc_uuid_text c workload), db)) db)))
       (fresh_row (fc_parse_workload c) now)"

definition record_workload_op ::
  "fed_codec \<Rightarrow> workload_descriptor \<Rightarrow> federation_db
   \<Rightarrow> ((unit, port_error) result \<times> federation_db, storage_error) result" where
  "record_workload_op c d db =
     and_then (signed_fed (wd_revision d)) (\<lambda>revision.
       let key = fc_uuid_text c (wd_workload_id d);
           row = \<lparr>dr_sequence = revision, dr_expires_at_millis = wd_expires_at_millis d, dr_text = fc_workload_text c d\<rparr>
       in case workload_rows db key of
            Some current \<Rightarrow>
              if revision \<le> dr_sequence current then Ok (Err Conflict, db)
              else Ok (Ok (), db\<lparr>workload_rows := (workload_rows db)(key \<mapsto> row)\<rparr>)
          | None \<Rightarrow> Ok (Ok (), db\<lparr>workload_rows := (workload_rows db)(key \<mapsto> row)\<rparr>))"

definition record_workload ::
  "fed_codec \<Rightarrow> federation_db environment \<Rightarrow> workload_descriptor \<Rightarrow> federation_db
   \<Rightarrow> (unit, port_error) result \<times> federation_db" where
  "record_workload c env d db = decide env (record_workload_op c d) db"

definition remember_op ::
  "fed_codec \<Rightarrow> envelope \<Rightarrow> federation_db \<Rightarrow> ((bool, port_error) result \<times> federation_db, storage_error) result" where
  "remember_op c e db =
     (let key = envelope_nonce_key c e in
      if nonce_rows db key \<noteq> None then Ok (Ok False, db)
      else Ok (Ok True, db\<lparr>nonce_rows := (nonce_rows db)(key \<mapsto> ev_expires_at_millis e)\<rparr>))"

definition remember_nonce ::
  "fed_codec \<Rightarrow> federation_db environment \<Rightarrow> envelope \<Rightarrow> federation_db
   \<Rightarrow> (bool, port_error) result \<times> federation_db" where
  "remember_nonce c env e db = decide env (remember_op c e) db"

definition forget_op ::
  "fed_codec \<Rightarrow> envelope \<Rightarrow> federation_db \<Rightarrow> ((unit, port_error) result \<times> federation_db, storage_error) result" where
  "forget_op c e db = Ok (Ok (), db\<lparr>nonce_rows := (nonce_rows db)(envelope_nonce_key c e := None)\<rparr>)"

definition forget_nonce ::
  "fed_codec \<Rightarrow> federation_db environment \<Rightarrow> envelope \<Rightarrow> federation_db
   \<Rightarrow> (unit, port_error) result \<times> federation_db" where
  "forget_nonce c env e db = decide env (forget_op c e) db"

definition recorded_answer ::
  "fed_codec \<Rightarrow> trx_end \<Rightarrow> uuid \<Rightarrow> federation_db \<Rightarrow> (string option, port_error) result" where
  "recorded_answer c end request db =
     and_then (map_err port (fst (auto_run end ReadOnly (\<lambda>db. Ok (answer_rows db (fc_uuid_text c request), db)) db)))
       (\<lambda>row. Ok (map_option fst row))"

definition answer_op ::
  "fed_codec \<Rightarrow> uuid \<Rightarrow> string \<Rightarrow> i64 \<Rightarrow> federation_db
   \<Rightarrow> ((unit, port_error) result \<times> federation_db, storage_error) result" where
  "answer_op c request answer expires db =
     (let key = fc_uuid_text c request in
      if answer_rows db key = None
      then Ok (Ok (), db\<lparr>answer_rows := (answer_rows db)(key \<mapsto> (answer, expires))\<rparr>)
      else Ok (Ok (), db))"

definition record_answer ::
  "fed_codec \<Rightarrow> federation_db environment \<Rightarrow> uuid \<Rightarrow> string \<Rightarrow> i64 \<Rightarrow> federation_db
   \<Rightarrow> (unit, port_error) result \<times> federation_db" where
  "record_answer c env request answer expires db = decide env (answer_op c request answer expires) db"

text \<open>The number of rows removed, which \<open>purge_expired\<close> returns, is left out.\<close>

definition purge_op ::
  "i64 \<Rightarrow> federation_db \<Rightarrow> ((unit, port_error) result \<times> federation_db, storage_error) result" where
  "purge_op now db =
     Ok (Ok (), db\<lparr>nonce_rows := (\<lambda>k. case nonce_rows db k of
             Some x \<Rightarrow> if x < now then None else Some x | None \<Rightarrow> None),
         answer_rows := (\<lambda>k. case answer_rows db k of
             Some (a, x) \<Rightarrow> if x < now then None else Some (a, x) | None \<Rightarrow> None)\<rparr>)"

definition fed_purge_expired ::
  "federation_db environment \<Rightarrow> i64 \<Rightarrow> federation_db \<Rightarrow> (unit, port_error) result \<times> federation_db" where
  "fed_purge_expired env now db = decide env (purge_op now) db"

section \<open>Serving and sending\<close>

text \<open>The ports a destination works with, over the state \<open>'s\<close> of the store behind them.\<close>

record 's fed_ports =
  fp_node :: "uuid \<Rightarrow> i64 \<Rightarrow> 's \<Rightarrow> (node_descriptor option, port_error) result"
  fp_recorded_answer :: "uuid \<Rightarrow> 's \<Rightarrow> (string option, port_error) result"
  fp_remember_nonce :: "envelope \<Rightarrow> 's \<Rightarrow> (bool, port_error) result \<times> 's"
  fp_forget_nonce :: "envelope \<Rightarrow> 's \<Rightarrow> (unit, port_error) result \<times> 's"
  fp_record_answer :: "uuid \<Rightarrow> string \<Rightarrow> i64 \<Rightarrow> 's \<Rightarrow> (unit, port_error) result \<times> 's"

datatype refusal =
    RefusedEnvelope federation_error
  | UnknownPeer
  | RefusedDenied decision_reason
  | UnknownSubject
  | UnknownTarget

datatype served = ServedExecuted string | ServedReplayed string | ServedRefused refusal

definition subject_of :: "(string \<Rightarrow> uuid option) \<Rightarrow> string \<Rightarrow> subject option" where
  "subject_of parse t =
     (case split_once CHR '':'' t of
        None \<Rightarrow> None
      | Some (kind, i) \<Rightarrow>
          (case (if kind = ''workload'' then Some Workload
                 else if kind = ''creature'' then Some Creature else None) of
             None \<Rightarrow> None
           | Some k \<Rightarrow> map_option (\<lambda>u. \<lparr>subject_kind = k, subject_uuid = u\<rparr>) (parse i)))"

definition federated_policy_request :: "subject \<Rightarrow> string \<Rightarrow> string \<times> string \<Rightarrow> i64 \<Rightarrow> policy_request" where
  "federated_policy_request s action target now =
     \<lparr>policy_subject = Some s, policy_action = action,
      policy_resource = \<lparr>resource_kind = fst target, resource_id = snd target\<rparr>,
      policy_facts = {}, policy_grants = [], policy_at_millis = now\<rparr>"

text \<open>What follows the envelope's own checks: the peer, the subject, the target and the policy.\<close>

definition authorize_federated ::
  "(string \<Rightarrow> uuid option) \<Rightarrow> 's fed_ports \<Rightarrow> (policy_request \<Rightarrow> (policy_decision, port_error) result)
   \<Rightarrow> i64 \<Rightarrow> envelope \<Rightarrow> 's \<Rightarrow> (refusal option, port_error) result" where
  "authorize_federated parse ports policy now e s =
     and_then (fp_node ports (ev_source_node e) now s) (\<lambda>peer.
       case peer of
         None \<Rightarrow> Ok (Some UnknownPeer)
       | Some _ \<Rightarrow>
           (case subject_of parse (ev_subject e) of
              None \<Rightarrow> Ok (Some UnknownSubject)
            | Some subject \<Rightarrow>
                (case split_once CHR '':'' (ev_target e) of
                   None \<Rightarrow> Ok (Some UnknownTarget)
                 | Some target \<Rightarrow>
                     and_then (policy (federated_policy_request subject (ev_action e) target now))
                       (\<lambda>decision.
                          Ok (if decision_allowed decision then None
                              else Some (RefusedDenied (decision_reason decision)))))))"

definition serve ::
  "(string \<Rightarrow> uuid option) \<Rightarrow> 's fed_ports \<Rightarrow> (policy_request \<Rightarrow> (policy_decision, port_error) result)
   \<Rightarrow> i64 \<Rightarrow> uuid \<Rightarrow> (envelope \<Rightarrow> 'w \<Rightarrow> (string, port_error) result \<times> 'w) \<Rightarrow> envelope \<Rightarrow> 's \<Rightarrow> 'w
   \<Rightarrow> (served, port_error) result \<times> 's \<times> 'w" where
  "serve parse ports policy now me execute e s w =
     (case fp_recorded_answer ports (ev_request_id e) s of
        Inl x \<Rightarrow> (Err x, s, w)
      | Inr (Some answer) \<Rightarrow> (Ok (ServedReplayed answer), s, w)
      | Inr None \<Rightarrow>
          (case fp_remember_nonce ports e s of
             (Inl x, s) \<Rightarrow> (Err x, s, w)
           | (Inr fresh, s) \<Rightarrow>
               (case accept_envelope e me now (\<not> fresh) of
                  Inl error \<Rightarrow> (Ok (ServedRefused (RefusedEnvelope error)), s, w)
                | Inr _ \<Rightarrow>
                    (case authorize_federated parse ports policy now e s of
                       Inl x \<Rightarrow> (Err x, s, w)
                     | Inr (Some refusal) \<Rightarrow> (Ok (ServedRefused refusal), s, w)
                     | Inr None \<Rightarrow>
                         (case execute e w of
                            (Inl error, w) \<Rightarrow>
                              (case fp_forget_nonce ports e s of
                                 (Inl x, s) \<Rightarrow> (Err x, s, w)
                               | (Inr _, s) \<Rightarrow> (Err error, s, w))
                          | (Inr answer, w) \<Rightarrow>
                              (case fp_record_answer ports (ev_request_id e) answer
                                  (ev_expires_at_millis e) s of
                                 (Inl x, s) \<Rightarrow> (Err x, s, w)
                               | (Inr _, s) \<Rightarrow> (Ok (ServedExecuted answer), s, w)))))))"

record federated_action =
  fa_request_id :: uuid
  fa_subject :: subject
  fa_destination_node :: uuid
  fa_target :: resource_ref
  fa_action :: string
  fa_payload :: string
  fa_facts :: "condition set"

text \<open>\<open>send\<close>, up to the envelope it gives the transport with the destination's descriptor.\<close>

definition send_envelope ::
  "(uuid \<Rightarrow> string) \<Rightarrow> (string \<Rightarrow> string) \<Rightarrow> (uuid \<Rightarrow> i64 \<Rightarrow> (node_descriptor option, port_error) result)
   \<Rightarrow> (policy_request \<Rightarrow> (policy_decision, port_error) result) \<Rightarrow> i64 \<Rightarrow> uuid \<Rightarrow> federated_action
   \<Rightarrow> (node_descriptor \<times> envelope, port_error) result" where
  "send_envelope text sha node policy now me a =
     (if subject_kind (fa_subject a) \<noteq> Workload \<and> subject_kind (fa_subject a) \<noteq> Creature
      then Err (Denied ''invalid federated subject'')
      else if fa_destination_node a = me then Err (Denied ''federation destination is this node'')
      else
        and_then (node (fa_destination_node a) now) (\<lambda>found.
        and_then (ok_or NotFound found) (\<lambda>destination.
        and_then (policy
            \<lparr>policy_subject = Some (fa_subject a), policy_action = fa_action a,
             policy_resource = fa_target a, policy_facts = fa_facts a, policy_grants = [],
             policy_at_millis = now\<rparr>) (\<lambda>decision.
        if \<not> decision_allowed decision then Err (Denied ''source policy denied federation'')
        else Ok (destination,
          \<lparr>ev_request_id = fa_request_id a, ev_source_node = me,
           ev_destination_node = fa_destination_node a,
           ev_subject = subject_text text (fa_subject a),
           ev_target = resource_kind (fa_target a) @ '':'' @ resource_id (fa_target a),
           ev_action = fa_action a, ev_payload_digest = ''sha256:'' @ hex (sha (fa_payload a)),
           ev_issued_at_millis = now,
           ev_expires_at_millis = saturating_add_i64 now MAX_LIFETIME_MILLIS,
           ev_nonce = text (fa_request_id a), ev_hop_limit = 0, ev_version = ''1''\<rparr>)))))"

definition send_federated ::
  "(uuid \<Rightarrow> string) \<Rightarrow> (string \<Rightarrow> string) \<Rightarrow> (uuid \<Rightarrow> i64 \<Rightarrow> (node_descriptor option, port_error) result)
   \<Rightarrow> (policy_request \<Rightarrow> (policy_decision, port_error) result)
   \<Rightarrow> (node_descriptor \<Rightarrow> envelope \<Rightarrow> string \<Rightarrow> (federation_reply, port_error) result)
   \<Rightarrow> i64 \<Rightarrow> uuid \<Rightarrow> federated_action \<Rightarrow> (federation_reply, port_error) result" where
  "send_federated text sha node policy transport now me a =
     and_then (send_envelope text sha node policy now me a)
       (\<lambda>(destination, e). transport destination e (fa_payload a))"

text \<open>The ports on storage: how the reads end, and what each of the three writes meets.\<close>

definition storage_ports ::
  "fed_codec \<Rightarrow> (nat \<Rightarrow> trx_end) \<Rightarrow> (nat \<Rightarrow> federation_db environment) \<Rightarrow> federation_db fed_ports" where
  "storage_ports c ends envs =
     \<lparr>fp_node = directory_node c (ends 0), fp_recorded_answer = recorded_answer c (ends 1),
      fp_remember_nonce = remember_nonce c (envs 0), fp_forget_nonce = forget_nonce c (envs 1),
      fp_record_answer = record_answer c (envs 2)\<rparr>"

section \<open>What a guard promises\<close>

text \<open>
  Events at a destination: a request served, or a purge, each at a time and with what its
  writes meet. \<open>counted\<close> instruments the action so that the world also holds what was
  executed, and when.
\<close>

datatype 'e fed_event = Serves 'e i64 envelope | Purges 'e i64

fun event_time :: "'e fed_event \<Rightarrow> i64" where
  "event_time (Serves env now e) = now"
| "event_time (Purges env now) = now"

definition counted ::
  "i64 \<Rightarrow> (envelope \<Rightarrow> 'w \<Rightarrow> (string, port_error) result \<times> 'w) \<Rightarrow> envelope \<Rightarrow> 'w \<times> (envelope \<times> i64) list
   \<Rightarrow> (string, port_error) result \<times> 'w \<times> (envelope \<times> i64) list" where
  "counted now execute e w =
     (case execute e (fst w) of
        (Inr answer, x) \<Rightarrow> (Ok answer, x, snd w @ [(e, now)])
      | (Inl error, x) \<Rightarrow> (Err error, x, snd w))"

fun fed_step ::
  "(string \<Rightarrow> uuid option) \<Rightarrow> ('e \<Rightarrow> 's fed_ports) \<Rightarrow> ('e \<Rightarrow> i64 \<Rightarrow> 's \<Rightarrow> (unit, port_error) result \<times> 's)
   \<Rightarrow> (policy_request \<Rightarrow> (policy_decision, port_error) result) \<Rightarrow> uuid
   \<Rightarrow> (envelope \<Rightarrow> 'w \<Rightarrow> (string, port_error) result \<times> 'w)
   \<Rightarrow> 's \<times> 'w \<times> (envelope \<times> i64) list \<Rightarrow> 'e fed_event \<Rightarrow> 's \<times> 'w \<times> (envelope \<times> i64) list" where
  "fed_step parse ports purge policy me execute (s, w) (Serves env now e) =
     snd (serve parse (ports env) policy now me (counted now execute) e s w)"
| "fed_step parse ports purge policy me execute (s, w) (Purges env now) =
     (snd (purge env now s), w)"

definition fed_run where
  "fed_run parse ports purge policy me execute events sw =
     foldl (fed_step parse ports purge policy me execute) sw events"

definition authorized_at ::
  "(string \<Rightarrow> uuid option) \<Rightarrow> (policy_request \<Rightarrow> (policy_decision, port_error) result) \<Rightarrow> uuid
   \<Rightarrow> envelope \<times> i64 \<Rightarrow> bool" where
  "authorized_at parse policy me p \<longleftrightarrow>
     accept_envelope (fst p) me (snd p) False = Ok () \<and>
     (\<exists>sub target d. subject_of parse (ev_subject (fst p)) = Some sub \<and>
        split_once CHR '':'' (ev_target (fst p)) = Some target \<and>
        policy (federated_policy_request sub (ev_action (fst p)) target (snd p)) = Ok d \<and>
        decision_allowed d)"

text \<open>An envelope that cannot be executed again: its nonce is remembered, or it has expired.\<close>

definition known :: "('s \<Rightarrow> 'k \<Rightarrow> i64 option) \<Rightarrow> (envelope \<Rightarrow> 'k) \<Rightarrow> i64 \<Rightarrow> 's \<Rightarrow> envelope \<Rightarrow> bool" where
  "known remembered nonce_ref now s e \<longleftrightarrow>
     remembered s (nonce_ref e) = Some (ev_expires_at_millis e) \<or> ev_expires_at_millis e < now"

lemma accept_envelope_times:
  "accept_envelope e me now seen = Ok u \<Longrightarrow> now < ev_expires_at_millis e \<and> \<not> seen"
  by (auto simp: accept_envelope_def split: if_splits)

lemma accept_seen: "accept_envelope e me now True \<noteq> Ok u"
  using accept_envelope_times by blast

locale envelope_guard =
  fixes ports :: "'e \<Rightarrow> 's fed_ports"
    and purge :: "'e \<Rightarrow> i64 \<Rightarrow> 's \<Rightarrow> (unit, port_error) result \<times> 's"
    and nonce_ref :: "envelope \<Rightarrow> 'k"
    and remembered :: "'s \<Rightarrow> 'k \<Rightarrow> i64 option"
  assumes remember_law: "fp_remember_nonce (ports env) e s = (r, t) \<Longrightarrow>
      remembered t = remembered s \<and> r \<noteq> Ok True \<or>
      remembered s (nonce_ref e) = None \<and>
        remembered t = (remembered s)(nonce_ref e \<mapsto> ev_expires_at_millis e)"
    and forget_law: "remembered (snd (fp_forget_nonce (ports env) e s)) = remembered s \<or>
      remembered (snd (fp_forget_nonce (ports env) e s)) = (remembered s)(nonce_ref e := None)"
    and answer_law: "remembered (snd (fp_record_answer (ports env) i a x s)) = remembered s"
    and purge_law: "remembered (snd (purge env now s)) k = remembered s k \<or>
      (\<exists>x. remembered s k = Some x \<and> x < now \<and> remembered (snd (purge env now s)) k = None)"
begin

lemma remember_keeps:
  assumes "fp_remember_nonce (ports env) e s = (r, t)" and "known remembered nonce_ref now s f"
  shows "known remembered nonce_ref now t f"
  using remember_law [OF assms(1)] assms(2) by (auto simp: known_def)

lemma fresh_unknown:
  assumes "fp_remember_nonce (ports env) e s = (Ok True, t)"
    and "accept_envelope e me now seen = Ok u"
  shows "\<not> known remembered nonce_ref now s e" and "known remembered nonce_ref now t e"
    and "remembered t = (remembered s)(nonce_ref e \<mapsto> ev_expires_at_millis e)"
    and "remembered s (nonce_ref e) = None"
  using remember_law [OF assms(1)] accept_envelope_times [OF assms(2)] by (auto simp: known_def)

lemma forget_keeps:
  assumes "remembered t = (remembered s)(nonce_ref e \<mapsto> x)" and "remembered s (nonce_ref e) = None"
    and "fp_forget_nonce (ports env) e t = (r, u)" and "known remembered nonce_ref now s f"
  shows "known remembered nonce_ref now u f"
  using forget_law [of env e t] assms by (auto simp: known_def)

lemma answer_keeps:
  assumes "fp_record_answer (ports env) i a x t = (r, u)"
  shows "known remembered nonce_ref now u f = known remembered nonce_ref now t f"
  using answer_law [of env i a x t] assms by (simp add: known_def)

text \<open>
  A served request is executed and added to the log, or not; either way every envelope that
  was known stays known.
\<close>

lemma serve_effect:
  assumes run: "serve parse (ports env) policy now me (counted now execute) e s (x, log) = (r, t, y, log')"
  shows "(\<forall>f. known remembered nonce_ref now s f \<longrightarrow> known remembered nonce_ref now t f) \<and>
    (log' = log \<or> log' = log @ [(e, now)] \<and> known remembered nonce_ref now t e \<and>
      \<not> known remembered nonce_ref now s e \<and> authorized_at parse policy me (e, now))"
proof (cases "fp_recorded_answer (ports env) (ev_request_id e) s = Ok None")
  case False
  with run show ?thesis by (auto simp: serve_def split: sum.splits option.splits)
next
  case none: True
  obtain fr s1 where rem: "fp_remember_nonce (ports env) e s = (fr, s1)" by fastforce
  note keep = remember_keeps [OF rem, where now = now]
  show ?thesis
  proof (cases "fr = Ok True \<and> accept_envelope e me now False = Ok () \<and>
      authorize_federated parse (ports env) policy now e s1 = Ok None")
    case False
    have "t = s1 \<and> log' = log"
    proof (cases fr)
      case (Inl x)
      with run none rem show ?thesis by (auto simp: serve_def)
    next
      case (Inr fresh)
      with run none rem False show ?thesis
        by (cases fresh) (auto simp: serve_def accept_seen split: sum.splits option.splits)
    qed
    with keep show ?thesis by auto
  next
    case True
    then have acc: "accept_envelope e me now False = Ok ()"
      and auth: "authorize_federated parse (ports env) policy now e s1 = Ok None"
      and fresh: "fp_remember_nonce (ports env) e s = (Ok True, s1)"
      using rem by auto
    note new = fresh_unknown [OF fresh acc]
    have ok: "authorized_at parse policy me (e, now)"
      using auth acc by (auto simp: authorize_federated_def authorized_at_def result_simps
          split: option.splits if_splits)
    obtain er x1 where ex: "execute e x = (er, x1)" by fastforce
    show ?thesis
    proof (cases er)
      case (Inl error)
      obtain fr2 s2 where fg: "fp_forget_nonce (ports env) e s1 = (fr2, s2)" by fastforce
      from run none fresh acc auth ex Inl fg have "t = s2" "log' = log"
        by (auto simp: serve_def counted_def split: sum.splits)
      with forget_keeps [OF new(3,4) fg] show ?thesis by auto
    next
      case (Inr answer)
      obtain ar s2 where an: "fp_record_answer (ports env) (ev_request_id e) answer
          (ev_expires_at_millis e) s1 = (ar, s2)" by fastforce
      from run none fresh acc auth ex Inr an have "t = s2" "log' = log @ [(e, now)]"
        by (auto simp: serve_def counted_def split: sum.splits)
      with answer_keeps [OF an] keep new ok show ?thesis by auto
    qed
  qed
qed

lemma purge_keeps:
  assumes "known remembered nonce_ref before s f" and "before \<le> now"
  shows "known remembered nonce_ref now (snd (purge env now s)) f"
  using assms purge_law [of env now s "nonce_ref f"] by (auto simp: known_def)

lemma known_later: "known remembered nonce_ref before s f \<Longrightarrow> before \<le> now \<Longrightarrow>
    known remembered nonce_ref now s f"
  by (auto simp: known_def)

lemma run_executes_once:
  assumes "sorted (t0 # map event_time events)"
    and "distinct (map fst log)"
    and "\<forall>p \<in> set log. known remembered nonce_ref t0 s (fst p) \<and> authorized_at parse policy me p"
    and "fed_run parse ports purge policy me execute events (s, x, log) = (t, y, log')"
  shows "distinct (map fst log') \<and> (\<forall>p \<in> set log'. authorized_at parse policy me p)"
  using assms
proof (induction events arbitrary: s x log t0)
  case Nil
  then show ?case by (simp add: fed_run_def)
next
  case (Cons ev events)
  let ?now = "event_time ev"
  obtain s1 x1 log1 where one:
    "fed_step parse ports purge policy me execute (s, x, log) ev = (s1, x1, log1)"
    by (metis prod_cases3)
  have later: "t0 \<le> ?now" "sorted (?now # map event_time events)" using Cons.prems(1) by auto
  have before: "known remembered nonce_ref ?now s (fst p)" if "p \<in> set log" for p
    using Cons.prems(3) that known_later later(1) by blast
  have "distinct (map fst log1) \<and>
      (\<forall>p \<in> set log1. known remembered nonce_ref ?now s1 (fst p) \<and> authorized_at parse policy me p)"
  proof (cases ev)
    case (Serves env now e)
    obtain r where "serve parse (ports env) policy now me (counted now execute) e s (x, log) =
        (r, s1, x1, log1)"
      using one Serves by (cases "serve parse (ports env) policy now me (counted now execute) e s (x, log)") auto
    from serve_effect [OF this] Serves before Cons.prems(2,3) show ?thesis by auto
  next
    case (Purges env now)
    with one have "s1 = snd (purge env now s)" "log1 = log" by auto
    with purge_keeps Purges later(1) Cons.prems(2,3) show ?thesis by auto
  qed
  then show ?case
    using Cons.IH [OF later(2), of log1 s1 x1] Cons.prems(4) one by (simp add: fed_run_def)
qed

end

end
