(* ===== verification/Federation_Store.thy ===== *)
theory Federation_Store
  imports Federation
begin

text \<open>
  The federation guard and directory on storage keep the contracts of \<open>Federation\<close>: an
  envelope is executed at most once and only as the destination's own policy allows, the
  directory implements the domain's rule for descriptors, what a source sends its destination
  serves, and a recorded answer is returned to every later envelope with its request id.
\<close>

section \<open>The guard\<close>

text \<open>
  What the storage of one event meets: how its reads end, and how each attempt of its writes
  ends. No other writer runs meanwhile.
\<close>

type_synonym fed_ends = "(nat \<Rightarrow> trx_end) \<times> (nat \<Rightarrow> nat \<Rightarrow> trx_end)"

definition quiet_ports :: "fed_codec \<Rightarrow> fed_ends \<Rightarrow> federation_db fed_ports" where
  "quiet_ports c ends = storage_ports c (fst ends) (\<lambda>i. quiet (snd ends i))"

definition quiet_purge :: "fed_ends \<Rightarrow> i64 \<Rightarrow> federation_db \<Rightarrow> (unit, port_error) result \<times> federation_db" where
  "quiet_purge ends now = fed_purge_expired (quiet (snd ends 3)) now"

lemma quiet_write:
  obtains (unchanged) "snd (decide (quiet ends) operation db) = db"
      "\<And>v. fst (decide (quiet ends) operation db) \<noteq> Ok v"
  | (applied) v where "operation db = Ok (Ok v, snd (decide (quiet ends) operation db))"
      "\<And>w. fst (decide (quiet ends) operation db) = Ok w \<Longrightarrow> w = v"
  using decide_quiet [of ends operation db, OF surjective_pairing] by blast

lemma purge_op_rows:
  "purge_op now db = Ok (r, db') \<Longrightarrow> nonce_rows db' =
     (\<lambda>k. case nonce_rows db k of Some x \<Rightarrow> if x < now then None else Some x | None \<Rightarrow> None)"
  unfolding purge_op_def by (elim sum.inject(2) [THEN iffD1, elim_format] conjE) auto

lemma quiet_purge_rows:
  "nonce_rows (snd (quiet_purge env now s)) = nonce_rows s \<or>
   nonce_rows (snd (quiet_purge env now s)) =
     (\<lambda>k. case nonce_rows s k of Some x \<Rightarrow> if x < now then None else Some x | None \<Rightarrow> None)"
proof (cases rule: quiet_write [of "snd env 3" "purge_op now" s])
  case unchanged
  then have "snd (quiet_purge env now s) = s" by (simp only: quiet_purge_def fed_purge_expired_def)
  then show ?thesis by simp
next
  case (applied v)
  from purge_op_rows [OF applied(1)] show ?thesis by (simp only: quiet_purge_def fed_purge_expired_def) blast
qed

lemma remember_op_rows:
  assumes "remember_op c e db = Ok (Ok v, db')"
  shows "nonce_rows db' = nonce_rows db \<and> \<not> v \<or>
    nonce_rows db (envelope_nonce_key c e) = None \<and>
      nonce_rows db' = (nonce_rows db)(envelope_nonce_key c e \<mapsto> ev_expires_at_millis e)"
  using assms by (auto simp: remember_op_def Let_def split: if_splits)

lemma forget_op_rows:
  "forget_op c e db = Ok (r, db') \<Longrightarrow> nonce_rows db' = (nonce_rows db)(envelope_nonce_key c e := None)"
  by (auto simp: forget_op_def)

lemma answer_op_rows:
  "answer_op c i a x db = Ok (r, db') \<Longrightarrow> nonce_rows db' = nonce_rows db"
  by (auto simp: answer_op_def Let_def split: if_splits)

lemmas port_defs = quiet_ports_def storage_ports_def fed_ports.select_convs
  remember_nonce_def forget_nonce_def record_answer_def

interpretation guard: envelope_guard "quiet_ports c" quiet_purge "envelope_nonce_key c" nonce_rows
  for c
proof
  fix env e s r t
  assume "fp_remember_nonce (quiet_ports c env) e s = (r, t)"
  then have run: "decide (quiet (snd env 0)) (remember_op c e) s = (r, t)" by (simp only: port_defs)
  show "nonce_rows t = nonce_rows s \<and> r \<noteq> Ok True \<or>
      nonce_rows s (envelope_nonce_key c e) = None \<and>
        nonce_rows t = (nonce_rows s)(envelope_nonce_key c e \<mapsto> ev_expires_at_millis e)"
    using decide_quiet [OF run] remember_op_rows [of c e s _ t] by blast
next
  fix env e s
  show "nonce_rows (snd (fp_forget_nonce (quiet_ports c env) e s)) = nonce_rows s \<or>
      nonce_rows (snd (fp_forget_nonce (quiet_ports c env) e s)) =
        (nonce_rows s)(envelope_nonce_key c e := None)"
  proof (cases rule: quiet_write [of "snd env 1" "forget_op c e" s])
    case unchanged
    then show ?thesis by (simp only: port_defs simp_thms)
  next
    case (applied v)
    from forget_op_rows [OF applied(1)] show ?thesis by (simp only: port_defs) blast
  qed
next
  fix env i a x s
  show "nonce_rows (snd (fp_record_answer (quiet_ports c env) i a x s)) = nonce_rows s"
  proof (cases rule: quiet_write [of "snd env 2" "answer_op c i a x" s])
    case unchanged
    then show ?thesis by (simp only: port_defs)
  next
    case (applied v)
    from answer_op_rows [OF applied(1)] show ?thesis by (simp only: port_defs)
  qed
next
  fix env now s k
  show "nonce_rows (snd (quiet_purge env now s)) k = nonce_rows s k \<or>
      (\<exists>x. nonce_rows s k = Some x \<and> x < now \<and> nonce_rows (snd (quiet_purge env now s)) k = None)"
    using quiet_purge_rows [of env now s] by (cases "nonce_rows s k") (auto split: if_splits)
qed

text \<open>With no facts and no grants, a rule allows only what it allows the public or anyone authenticated.\<close>

definition open_action :: "action_registry \<Rightarrow> subject \<Rightarrow> string \<Rightarrow> string \<Rightarrow> bool" where
  "open_action registry s action kind \<longleftrightarrow>
     (\<exists>a. registry_actions registry action = Some a \<and> action_resource a = kind \<and>
        Never \<notin> set (action_rule a) \<and> subject_kind s \<in> action_subjects a \<and>
        (Public \<in> set (action_rule a) \<or> Authenticated \<in> set (action_rule a)))"

lemma federated_decision:
  assumes "decision_allowed (evaluate registry (federated_policy_request s action target now) version)"
  shows "open_action registry s action (fst target)"
proof -
  let ?q = "federated_policy_request s action target now"
  from assms obtain a where a: "registry_actions registry action = Some a"
    "action_resource a = fst target" "Never \<notin> set (action_rule a)"
    "subject_kind s \<in> action_subjects a" "evaluate_rule ?q s (action_rule a) \<noteq> None"
    by (auto simp: evaluate_def decided_def federated_policy_request_def Let_def
        split: option.splits if_splits)
  then have "List.find (condition_holds ?q s) (action_rule a) \<noteq> None"
    using evaluate_rule_first [of ?q s "action_rule a"] by (metis map_option_is_None)
  then obtain k where "k \<in> set (action_rule a)" "condition_holds ?q s k"
    by (auto simp: find_None_iff)
  then have "k = Public \<or> k = Authenticated"
    by (auto simp: condition_holds_def federated_policy_request_def)
  with a \<open>k \<in> set (action_rule a)\<close> show ?thesis by (auto simp: open_action_def)
qed

text \<open>
  C3. A federated request is executed at most once, and only where the destination decides
  so. Over any requests and purges at a destination, at times that do not go back and
  whatever its transactions do (one event runs at a time): no envelope is executed twice, a replay after the purge of
  its nonce included; each executed one was addressed to this node, unexpired, within the
  hop limit and complete; and its action is open, at this node's registry, to the public or
  to any authenticated subject of its kind, since no fact and no grant comes with it.
\<close>

theorem federated_request_executes_once:
  assumes "sorted (map event_time events)"
    and "fed_run parse (quiet_ports c) quiet_purge (registry_policy registry version) me execute events
      (db, w, []) = (db', w', log)"
  shows "distinct (map fst log) \<and>
    (\<forall>e now. (e, now) \<in> set log \<longrightarrow>
       accept_envelope e me now False = Ok () \<and>
       (\<exists>s kind i. subject_of parse (ev_subject e) = Some s \<and>
          split_once CHR '':'' (ev_target e) = Some (kind, i) \<and>
          open_action registry s (ev_action e) kind))"
proof -
  have "sorted (hd (map event_time events @ [I64 0]) # map event_time events)"
    using assms(1) by (cases events) auto
  from guard.run_executes_once [OF this _ _ assms(2)]
  have log: "distinct (map fst log)"
    "\<forall>p \<in> set log. authorized_at parse (registry_policy registry version) me p"
    by simp_all
  have "accept_envelope e me now False = Ok () \<and>
       (\<exists>s kind i. subject_of parse (ev_subject e) = Some s \<and>
          split_once CHR '':'' (ev_target e) = Some (kind, i) \<and>
          open_action registry s (ev_action e) kind)" if "(e, now) \<in> set log" for e now
  proof -
    from log(2) that have "authorized_at parse (registry_policy registry version) me (e, now)" by blast
    then obtain s t where "accept_envelope e me now False = Ok ()"
      "subject_of parse (ev_subject e) = Some s" "split_once CHR '':'' (ev_target e) = Some t"
      "decision_allowed (evaluate registry (federated_policy_request s (ev_action e) t now) version)"
      by (auto simp: authorized_at_def registry_policy_def)
    with federated_decision show ?thesis by (metis prod.collapse)
  qed
  with log(1) show ?thesis by blast
qed

definition sample_codec :: fed_codec where
  "sample_codec = \<lparr>fc_uuid_text = (\<lambda>u. if u = 1 then ''a'' else ''b''), fc_parse_uuid = (\<lambda>_. Some 7),
     fc_node_text = (\<lambda>_. ''n''), fc_parse_node = (\<lambda>_. Ok \<lparr>nd_node_id = 1, nd_key_epoch = 0, nd_keys = [],
       nd_federation_endpoint = '''', nd_client_endpoint = '''', nd_contracts = [], nd_runtimes = [],
       nd_sequence = 1, nd_expires_at_millis = I64 9000, nd_revoked_epochs = []\<rparr>),
     fc_workload_text = (\<lambda>_. ''w''), fc_parse_workload = (\<lambda>_. Err ''none'')\<rparr>"

definition sample_open_registry :: action_registry where
  "sample_open_registry = \<lparr>registry_version = ''r'', registry_actions = [''echo'' \<mapsto>
     \<lparr>action_id = ''echo'', action_resource = ''store'', action_class = ReadClass,
      action_subjects = {Creature}, action_rule = [Authenticated], action_delegable = False\<rparr>]\<rparr>"

definition sample_envelope :: envelope where
  "sample_envelope = \<lparr>ev_request_id = 5, ev_source_node = 1, ev_destination_node = 2,
     ev_subject = ''creature:x'', ev_target = ''store:s'', ev_action = ''echo'',
     ev_payload_digest = ''sha256:'' @ replicate 64 CHR ''0'', ev_issued_at_millis = I64 1,
     ev_expires_at_millis = I64 1000, ev_nonce = ''n'', ev_hop_limit = 0, ev_version = ''1''\<rparr>"

definition sample_federation :: federation_db where
  "sample_federation = \<lparr>node_rows = [''a'' \<mapsto> \<lparr>dr_sequence = I64 1, dr_expires_at_millis = I64 9000, dr_text = ''n''\<rparr>],
     workload_rows = Map.empty, nonce_rows = Map.empty, answer_rows = Map.empty\<rparr>"

abbreviation all_commit :: fed_ends where
  "all_commit \<equiv> (\<lambda>_. Commits, \<lambda>_ _. Commits)"

lemma quiet_calm: "quiet (\<lambda>_. Commits) = calm"
  by (simp add: quiet_def calm_def fun_eq_iff)

lemma sample_digest: "sha256_digest (''sha256:'' @ replicate 64 CHR ''0'')"
  by (simp add: sha256_digest_def list_all_iff is_ascii_hexdigit_def is_ascii_digit_def byte_def)

lemma sample_accepted: "accept_envelope sample_envelope 2 (I64 5) False = Ok ()"
  using sample_digest
  by (simp add: accept_envelope_def sample_envelope_def MAX_LIFETIME_MILLIS_def MAX_HOP_LIMIT_def
      sub_i64_def i64_le_iff i64_less_iff)

lemma sample_authorized:
  "authorize_federated (\<lambda>_. Some 7) (quiet_ports sample_codec all_commit)
     (registry_policy sample_open_registry ''p'') (I64 5) sample_envelope
     (sample_federation\<lparr>nonce_rows := [''a::n'' \<mapsto> I64 1000]\<rparr>) = Ok None"
  by (simp add: authorize_federated_def quiet_ports_def storage_ports_def directory_node_def auto_run_def
      fresh_row_def sample_codec_def sample_envelope_def sample_federation_def subject_of_def
      registry_policy_def evaluate_def sample_open_registry_def federated_policy_request_def
      decided_def i64_less_iff)


lemma sample_served:
  "fed_step (\<lambda>_. Some 7) (quiet_ports sample_codec) quiet_purge (registry_policy sample_open_registry ''p'') 2
     (\<lambda>e w. (Ok ''done'', w)) (sample_federation, (), []) (Serves all_commit (I64 5) sample_envelope) =
   (sample_federation\<lparr>nonce_rows := [''a::n'' \<mapsto> I64 1000], answer_rows := [''b'' \<mapsto> (''done'', I64 1000)]\<rparr>,
    (), [(sample_envelope, I64 5)])"
proof -
  have key: "envelope_nonce_key sample_codec sample_envelope = ''a::n''"
    "ev_expires_at_millis sample_envelope = I64 1000" "fc_uuid_text sample_codec (ev_request_id sample_envelope) = ''b''"
    by (simp_all add: envelope_nonce_key_def sample_codec_def sample_envelope_def)
  have rows: "nonce_rows sample_federation = Map.empty" "answer_rows sample_federation = Map.empty"
    by (simp_all add: sample_federation_def)
  let ?p = "quiet_ports sample_codec all_commit" and ?n = "sample_federation\<lparr>nonce_rows := [''a::n'' \<mapsto> I64 1000]\<rparr>"
  have "fp_recorded_answer ?p (ev_request_id sample_envelope) sample_federation = Ok None"
    by (simp add: port_defs recorded_answer_def auto_run_def rows)
  moreover have "fp_remember_nonce ?p sample_envelope sample_federation = (Ok True, ?n)"
    by (simp add: port_defs quiet_calm decide_calm remember_op_def key rows Let_def)
  moreover have "fp_record_answer ?p (ev_request_id sample_envelope) ''done'' (I64 1000) ?n =
      (Ok (), ?n\<lparr>answer_rows := [''b'' \<mapsto> (''done'', I64 1000)]\<rparr>)"
    by (simp add: port_defs quiet_calm decide_calm answer_op_def key rows Let_def)
  ultimately show ?thesis
    using sample_accepted sample_authorized by (simp add: serve_def counted_def key)
qed

lemma sample_replayed:
  "fed_step (\<lambda>_. Some 7) (quiet_ports sample_codec) quiet_purge (registry_policy sample_open_registry ''p'') 2
     (\<lambda>e w. (Ok ''done'', w))
     (sample_federation\<lparr>nonce_rows := [''a::n'' \<mapsto> I64 1000], answer_rows := [''b'' \<mapsto> (''done'', I64 1000)]\<rparr>, (), log)
     (Serves all_commit (I64 6) sample_envelope) =
   (sample_federation\<lparr>nonce_rows := [''a::n'' \<mapsto> I64 1000], answer_rows := [''b'' \<mapsto> (''done'', I64 1000)]\<rparr>, (), log)"
  by (simp add: serve_def port_defs recorded_answer_def auto_run_def sample_envelope_def sample_codec_def)

theorem federated_request_executes_once_witness:
  "\<exists>db' log. fed_run (\<lambda>_. Some 7) (quiet_ports sample_codec) quiet_purge
      (registry_policy sample_open_registry ''p'') 2 (\<lambda>e w. (Ok ''done'', w))
      [Serves all_commit (I64 5) sample_envelope, Serves all_commit (I64 6) sample_envelope,
       Purges all_commit (I64 2000)] (sample_federation, (), []) = (db', (), log) \<and>
    map fst log = [sample_envelope] \<and> distinct (map fst log) \<and>
    open_action sample_open_registry \<lparr>subject_kind = Creature, subject_uuid = 7\<rparr> ''echo'' ''store''"
proof -
  let ?events = "[Serves all_commit (I64 5) sample_envelope, Serves all_commit (I64 6) sample_envelope,
       Purges all_commit (I64 2000)]"
  obtain db' log where run: "fed_run (\<lambda>_. Some 7) (quiet_ports sample_codec) quiet_purge
      (registry_policy sample_open_registry ''p'') 2 (\<lambda>e w. (Ok ''done'', w)) ?events
      (sample_federation, (), []) = (db', (), log)"
    and log: "log = [(sample_envelope, I64 5)]"
    by (simp add: fed_run_def sample_served sample_replayed del: fed_step.simps(1))
  have "sorted (map event_time ?events)" by (simp add: i64_le_iff)
  from federated_request_executes_once [OF this run] log
  have "distinct (map fst log) \<and>
    open_action sample_open_registry \<lparr>subject_kind = Creature, subject_uuid = 7\<rparr> ''echo'' ''store''"
    by (auto simp: sample_envelope_def subject_of_def)
  with run log show ?thesis by auto
qed

section \<open>The directory\<close>

text \<open>
  What the directory is meant to hold: per node a descriptor, replaced by the domain's rule
  \<open>accepts_node_descriptor\<close>. A sequence of \<open>2 ^ 63\<close> or more has no signed form and is not stored.
\<close>

definition storable :: "node_descriptor \<Rightarrow> bool" where
  "storable d \<longleftrightarrow> nd_sequence d < 2 ^ 63"

definition directory_rule ::
  "(uuid \<rightharpoonup> node_descriptor) \<Rightarrow> node_descriptor \<Rightarrow> uuid \<rightharpoonup> node_descriptor" where
  "directory_rule held d =
     (if storable d \<and> accepts_node_descriptor (held (nd_node_id d)) d then held(nd_node_id d \<mapsto> d) else held)"

definition node_row :: "fed_codec \<Rightarrow> node_descriptor \<Rightarrow> descriptor_row" where
  "node_row c d = \<lparr>dr_sequence = I64 (uint (nd_sequence d)),
     dr_expires_at_millis = nd_expires_at_millis d, dr_text = fc_node_text c d\<rparr>"

definition directory_holds :: "fed_codec \<Rightarrow> federation_db \<Rightarrow> (uuid \<rightharpoonup> node_descriptor) \<Rightarrow> bool" where
  "directory_holds c db held \<longleftrightarrow>
     (\<forall>u. node_rows db (fc_uuid_text c u) = map_option (node_row c) (held u)) \<and>
     (\<forall>u d. held u = Some d \<longrightarrow> storable d)"

lemma storable_iff: "storable d \<longleftrightarrow> in_i64 (uint (nd_sequence d))"
proof -
  have "- 9223372036854775808 \<le> uint (nd_sequence d)" by (rule order_trans [OF _ uint_ge_0]) simp
  then show ?thesis by (auto simp: storable_def in_i64_def word_less_def)
qed

lemma signed_fed_storable:
  "signed_fed (nd_sequence d) =
     (if storable d then Ok (I64 (uint (nd_sequence d))) else Err (StorageInvalid TRY_FROM_INT_ERROR))"
  by (simp add: signed_fed_def i64_of_u64_def checked_i64_def storable_iff)

lemma storable_less:
  assumes "storable a" and "storable b"
  shows "I64 (uint (nd_sequence b)) \<le> I64 (uint (nd_sequence a)) \<longleftrightarrow> \<not> nd_sequence a < nd_sequence b"
  using assms by (simp add: storable_iff i64_le_iff int_of_I64_in word_less_def not_less del: int_of_I64)

lemma record_node_simulates:
  assumes "inj (fc_uuid_text c)" and held: "directory_holds c db held"
  shows "directory_holds c (snd (record_node c calm d db)) (directory_rule held d)"
proof (cases "nd_key_epoch d \<in> set (nd_revoked_epochs d) \<or> \<not> storable d")
  case True
  with held show ?thesis
    by (auto simp: record_node_def directory_rule_def accepts_node_descriptor_def decide_calm
        record_node_op_def signed_fed_storable)
next
  case False
  then have d: "nd_key_epoch d \<notin> set (nd_revoked_epochs d)" "storable d" by auto
  have row: "node_rows db (fc_uuid_text c (nd_node_id d)) = map_option (node_row c) (held (nd_node_id d))"
    using held by (simp add: directory_holds_def)
  have "snd (record_node c calm d db) =
      (if accepts_node_descriptor (held (nd_node_id d)) d
       then db\<lparr>node_rows := (node_rows db)(fc_uuid_text c (nd_node_id d) \<mapsto> node_row c d)\<rparr> else db)"
  proof (cases "held (nd_node_id d)")
    case None
    with d row show ?thesis
      by (simp add: record_node_def decide_calm record_node_op_def signed_fed_storable
          accepts_node_descriptor_def node_row_def Let_def)
  next
    case (Some a)
    moreover from this held have "storable a" by (auto simp: directory_holds_def)
    ultimately show ?thesis using d row storable_less [of a d]
      by (simp add: record_node_def decide_calm record_node_op_def signed_fed_storable
          accepts_node_descriptor_def Let_def) (simp add: node_row_def)
  qed
  with d held show ?thesis
    using assms(1) by (auto simp: directory_holds_def directory_rule_def inj_def)
qed


lemma directory_rule_node:
  "directory_rule held d u =
     (if nd_node_id d = u \<and> storable d \<and> accepts_node_descriptor (held u) d then Some d else held u)"
  by (auto simp: directory_rule_def)

lemma directory_rule_offers:
  "foldl directory_rule held ds u =
     (case offer_all accepts_node_descriptor (held u) (filter (\<lambda>d. nd_node_id d = u \<and> storable d) ds) of
        [] \<Rightarrow> held u | xs \<Rightarrow> Some (last xs))"
proof -
  have "foldl directory_rule held ds u =
      foldl (\<lambda>p d. if accepts_node_descriptor p d then Some d else p) (held u)
        (filter (\<lambda>d. nd_node_id d = u \<and> storable d) ds)"
    by (induction ds arbitrary: held) (simp_all add: directory_rule_node)
  then show ?thesis by (simp add: offer_all_foldl)
qed

lemma record_all_simulates:
  assumes "inj (fc_uuid_text c)" and "directory_holds c db held"
  shows "directory_holds c (foldl (\<lambda>db d. snd (record_node c calm d db)) db ds) (foldl directory_rule held ds)"
  using assms(2) by (induction ds arbitrary: db held) (simp_all add: record_node_simulates [OF assms(1)])

text \<open>
  C17. The node directory on storage implements the domain's rule. After any descriptors were
  recorded in an empty directory, a lookup returns, of the descriptors of that node with a
  sequence storage can hold, the last one the rule \<open>accepts_node_descriptor\<close> accepts in that
  order while it is fresh, and nothing once it has expired or when none was accepted: a
  replayed, older or self-revoking descriptor changes nothing, and neither does one of
  another node. Identifiers have distinct texts and a descriptor's text parses to it.
\<close>

theorem directory_implements_rule:
  assumes "inj (fc_uuid_text c)" and "\<forall>d \<in> set ds. fc_parse_node c (fc_node_text c d) = Ok d"
    and "node_rows db = Map.empty"
  shows "directory_node c Commits node now (foldl (\<lambda>db d. snd (record_node c calm d db)) db ds) =
    Ok (case offer_all accepts_node_descriptor None (filter (\<lambda>d. nd_node_id d = node \<and> storable d) ds) of
          [] \<Rightarrow> None
        | xs \<Rightarrow> if descriptor_is_fresh (nd_expires_at_millis (last xs)) now then Some (last xs) else None)"
proof -
  let ?db = "foldl (\<lambda>db d. snd (record_node c calm d db)) db ds"
  have "directory_holds c db Map.empty" by (simp add: directory_holds_def assms(3))
  from record_all_simulates [OF assms(1) this, of ds]
  have "node_rows ?db (fc_uuid_text c node) = map_option (node_row c) (foldl directory_rule Map.empty ds node)"
    by (simp add: directory_holds_def)
  then have "node_rows ?db (fc_uuid_text c node) = map_option (node_row c)
      (case offer_all accepts_node_descriptor None (filter (\<lambda>d. nd_node_id d = node \<and> storable d) ds) of
        [] \<Rightarrow> None | xs \<Rightarrow> Some (last xs))"
    by (simp add: directory_rule_offers)
  moreover have "fc_parse_node c (fc_node_text c (last xs)) = Ok (last xs)"
    if "offer_all accepts_node_descriptor None (filter (\<lambda>d. nd_node_id d = node \<and> storable d) ds) = xs" "xs \<noteq> []"
    for xs
  proof -
    from that have "last xs \<in> set ds"
      using last_in_set [of xs] offer_all_subset
        [of accepts_node_descriptor None "filter (\<lambda>d. nd_node_id d = node \<and> storable d) ds"]
      by (auto simp: subset_iff simp del: last_in_set)
    with assms(2) show ?thesis by blast
  qed
  ultimately show ?thesis
    by (auto simp: directory_node_def auto_run_def fresh_row_def node_row_def
        descriptor_is_fresh_def split: list.split)
qed

definition sample_node :: "u64 \<Rightarrow> u32 list \<Rightarrow> node_descriptor" where
  "sample_node sequence revoked = \<lparr>nd_node_id = 1, nd_key_epoch = 0, nd_keys = [],
     nd_federation_endpoint = [], nd_client_endpoint = [], nd_contracts = [], nd_runtimes = [],
     nd_sequence = sequence, nd_expires_at_millis = I64 9000, nd_revoked_epochs = revoked\<rparr>"

theorem directory_implements_rule_witness:
  "directory_node (sample_codec\<lparr>fc_uuid_text := (\<lambda>u. replicate (unat u) CHR ''x''),
       fc_node_text := (\<lambda>d. if nd_sequence d = 1 then ''1'' else if nd_sequence d = 2 then ''2'' else ''3''),
       fc_parse_node := (\<lambda>t. Ok (if t = ''1'' then sample_node 1 [] else if t = ''2'' then sample_node 2 []
         else sample_node 3 [0]))\<rparr>) Commits 1 (I64 7)
     (foldl (\<lambda>db d. snd (record_node (sample_codec\<lparr>fc_uuid_text := (\<lambda>u. replicate (unat u) CHR ''x''),
       fc_node_text := (\<lambda>d. if nd_sequence d = 1 then ''1'' else if nd_sequence d = 2 then ''2'' else ''3''),
       fc_parse_node := (\<lambda>t. Ok (if t = ''1'' then sample_node 1 [] else if t = ''2'' then sample_node 2 []
         else sample_node 3 [0]))\<rparr>) calm d db))
       (sample_federation\<lparr>node_rows := Map.empty\<rparr>)
       [sample_node 2 [], sample_node 1 [], sample_node 3 [0]]) = Ok (Some (sample_node 2 []))"
  (is "directory_node ?c _ _ _ _ = _")
proof -
  have inj: "inj (fc_uuid_text ?c)"
    by (auto intro!: injI simp: word_unat_eq_iff dest: arg_cong [where f = length])
  have all: "\<forall>d \<in> set [sample_node 2 [], sample_node 1 [], sample_node 3 [0]].
      fc_parse_node ?c (fc_node_text ?c d) = Ok d"
    by (simp add: sample_node_def)
  have rule: "offer_all accepts_node_descriptor None (filter (\<lambda>d. nd_node_id d = 1 \<and> storable d)
      [sample_node 2 [], sample_node 1 [], sample_node 3 [0]]) = [sample_node 2 []]"
    by (simp add: sample_node_def storable_def accepts_node_descriptor_def)
  have "descriptor_is_fresh (nd_expires_at_millis (sample_node 2 [])) (I64 7)"
    by (simp add: sample_node_def descriptor_is_fresh_def i64_less_iff)
  with directory_implements_rule [OF inj all, where db = "sample_federation\<lparr>node_rows := Map.empty\<rparr>"
      and node = 1 and now = "I64 7", unfolded rule]
  show ?thesis by simp
qed

section \<open>What the checks let through\<close>

text \<open>
  A recorded answer is returned for its request id whoever asks: the envelope, its peer and
  the policy are not looked at.
\<close>

lemma recorded_answer_returned:
  assumes "answer_rows db (fc_uuid_text c (ev_request_id e)) = Some (a, x)"
  shows "serve parse (quiet_ports c all_commit) policy now me execute e db w = (Ok (ServedReplayed a), db, w)"
  using assms by (simp add: serve_def port_defs recorded_answer_def auto_run_def)

text \<open>The lifetime is a wrapping difference: an issue time far in the past makes it negative.\<close>

lemma lifetime_bound_wraps:
  "accept_envelope (sample_envelope\<lparr>ev_issued_at_millis := i64_MIN, ev_expires_at_millis := i64_MAX\<rparr>) 2
     (I64 0) False = Ok ()"
  using sample_digest
  by (simp add: accept_envelope_def sample_envelope_def MAX_LIFETIME_MILLIS_def MAX_HOP_LIMIT_def
      sub_i64_def i64_MIN_def i64_MAX_def i64_le_iff i64_less_iff)

section \<open>From the source to the destination\<close>

lemma hex_shape: "length (hex s) = 2 * length s \<and> list_all is_ascii_hexdigit (hex s)"
proof (induction s)
  case (Cons c s)
  have digit: "is_ascii_hexdigit (hex_digit n)" if "n < 16" for n
    using that by (auto simp: hex_digit_def is_ascii_hexdigit_def is_ascii_digit_def byte_def)
  have "byte c < 256" by (simp add: byte_def)
  then have "byte c div 16 < 16" by simp
  with Cons digit show ?case by (simp add: hex_def)
qed (simp add: hex_def)

text \<open>An envelope the source sends is one the destination accepts until it expires.\<close>

lemma sent_envelope_accepted:
  assumes send: "send_envelope text sha node policy now me a = Ok (d, e)"
    and parse: "parse (text (subject_uuid (fa_subject a))) = Some (subject_uuid (fa_subject a))"
    and nonce: "text (fa_request_id a) \<noteq> [] \<and> length (text (fa_request_id a)) \<le> 128"
    and sha: "length (sha (fa_payload a)) = 32" and "fa_action a \<noteq> []"
    and colon: "CHR '':'' \<notin> set (resource_kind (fa_target a))"
    and "now \<le> t" and "t < ev_expires_at_millis e"
  shows "accept_envelope e (fa_destination_node a) t False = Ok ()"
    and "subject_of parse (ev_subject e) = Some (fa_subject a)"
    and "split_once CHR '':'' (ev_target e) = Some (resource_kind (fa_target a), resource_id (fa_target a))"
    and "ev_action e = fa_action a" and "ev_source_node e = me"
proof -
  from send have sent: "subject_kind (fa_subject a) = Workload \<or> subject_kind (fa_subject a) = Creature"
    "fa_destination_node a \<noteq> me"
    "e = \<lparr>ev_request_id = fa_request_id a, ev_source_node = me, ev_destination_node = fa_destination_node a,
       ev_subject = subject_text text (fa_subject a),
       ev_target = resource_kind (fa_target a) @ '':'' @ resource_id (fa_target a),
       ev_action = fa_action a, ev_payload_digest = ''sha256:'' @ hex (sha (fa_payload a)),
       ev_issued_at_millis = now, ev_expires_at_millis = saturating_add_i64 now MAX_LIFETIME_MILLIS,
       ev_nonce = text (fa_request_id a), ev_hop_limit = 0, ev_version = ''1''\<rparr>"
    by (auto simp: send_envelope_def result_simps split: if_splits)
  have life: "now < saturating_add_i64 now MAX_LIFETIME_MILLIS" using assms(7,8) sent(3) by simp
  have "int_of (saturating_add_i64 now MAX_LIFETIME_MILLIS) \<le> int_of now + 60000"
    using int_of_bounds [of now]
    by (auto simp: saturating_add_i64_def saturate_i64_def MAX_LIFETIME_MILLIS_def in_i64_def i64_MAX_def i64_MIN_def
        int_of_I64_in)
  with life have short: "\<not> MAX_LIFETIME_MILLIS < sub_i64 (saturating_add_i64 now MAX_LIFETIME_MILLIS) now"
    by (simp add: sub_i64_def MAX_LIFETIME_MILLIS_def i64_less_iff int_of_I64_in in_i64_def)
  have digest: "sha256_digest (''sha256:'' @ hex (sha (fa_payload a)))"
    using hex_shape [of "sha (fa_payload a)"] sha by (simp add: sha256_digest_def)
  show "accept_envelope e (fa_destination_node a) t False = Ok ()"
    using sent life short digest nonce assms(5,8)
    by (auto simp: accept_envelope_def MAX_HOP_LIMIT_def subject_text_def i64_le_iff i64_less_iff)
  show "split_once CHR '':'' (ev_target e) = Some (resource_kind (fa_target a), resource_id (fa_target a))"
    using colon by (simp add: sent(3) split_once_Some_iff)
  have "split_once CHR '':'' (ev_subject e) =
      Some (subject_kind_as_str (subject_kind (fa_subject a)), text (subject_uuid (fa_subject a)))"
    by (simp add: sent(3) split_once_Some_iff subject_text_def subject_kind_no_colon)
  then show "subject_of parse (ev_subject e) = Some (fa_subject a)"
    using sent(1) parse by (auto simp: subject_of_def)
  show "ev_action e = fa_action a" "ev_source_node e = me" by (simp_all add: sent(3))
qed


lemma purges_keep_answer:
  assumes "answer_rows db k = Some (a, x)" and "\<forall>p \<in> set purges. p \<le> x"
  shows "answer_rows (fold (\<lambda>p db. snd (quiet_purge all_commit p db)) purges db) k = Some (a, x)"
  using assms
  by (induction purges arbitrary: db)
    (auto simp: quiet_purge_def fed_purge_expired_def quiet_calm decide_calm purge_op_def)

text \<open>
  C18. What a source sends is decided at its destination as the source meant it. An action that
  \<open>send\<close> put in an envelope, with a nonempty name and a resource kind without a colon, arrives for
  the first time before it expires, at a destination whose transactions commit: it is refused
  where the source is not a known node, it is refused with the policy's reason where the
  destination's own registry does not allow the action on that resource to that subject,
  and it is executed otherwise. A failed execution leaves the store as it was, so the
  request can be sent again; the answer of a successful one is given to every later delivery
  without executing again, also after purges up to the time the envelope expires. The text of
  the subject's identifier parses to it, the text of the request's has 1 to 128 characters, and
  a digest has 32 bytes.
\<close>

theorem sent_action_is_served:
  assumes "send_envelope text sha node policy now me a = Ok (d, e)"
    and "parse (text (subject_uuid (fa_subject a))) = Some (subject_uuid (fa_subject a))"
    and "text (fa_request_id a) \<noteq> [] \<and> length (text (fa_request_id a)) \<le> 128"
    and "length (sha (fa_payload a)) = 32" and "fa_action a \<noteq> []"
    and "CHR '':'' \<notin> set (resource_kind (fa_target a))"
    and "now \<le> t" and "t < ev_expires_at_millis e"
    and "directory_node c Commits me t db = Ok peer"
    and "nonce_rows db (envelope_nonce_key c e) = None"
    and "answer_rows db (fc_uuid_text c (ev_request_id e)) = None"
    and "decision = evaluate registry (federated_policy_request (fa_subject a) (fa_action a)
      (resource_kind (fa_target a), resource_id (fa_target a)) t) version"
  shows "\<exists>db'. serve parse (quiet_ports c all_commit) (registry_policy registry version) t
      (fa_destination_node a) execute e db w =
      (if peer = None then (Ok (ServedRefused UnknownPeer), db', w)
       else if \<not> decision_allowed decision
       then (Ok (ServedRefused (RefusedDenied (decision_reason decision))), db', w)
       else (case execute e w of
           (Inl error, w') \<Rightarrow> (Err error, db', w')
         | (Inr answer, w') \<Rightarrow> (Ok (ServedExecuted answer), db', w'))) \<and>
    (peer \<noteq> None \<and> decision_allowed decision \<longrightarrow> (case execute e w of
         (Inl error, w') \<Rightarrow> db' = db
       | (Inr answer, w') \<Rightarrow> (\<forall>purges later v. (\<forall>p \<in> set purges. p \<le> ev_expires_at_millis e) \<longrightarrow>
           (let db'' = fold (\<lambda>p db. snd (quiet_purge all_commit p db)) purges db'
            in serve parse (quiet_ports c all_commit) (registry_policy registry version) later
                 (fa_destination_node a) execute e db'' v = (Ok (ServedReplayed answer), db'', v)))))"
proof -
  note sent = sent_envelope_accepted [where parse = parse, OF assms(1-8)]
  let ?p = "quiet_ports c all_commit" and ?policy = "registry_policy registry version"
  let ?n = "db\<lparr>nonce_rows := (nonce_rows db)(envelope_nonce_key c e \<mapsto> ev_expires_at_millis e)\<rparr>"
  let ?a = "\<lambda>answer. ?n\<lparr>answer_rows := (answer_rows db)(fc_uuid_text c (ev_request_id e) \<mapsto>
      (answer, ev_expires_at_millis e))\<rparr>"
  have unanswered: "fp_recorded_answer ?p (ev_request_id e) db = Ok None"
    using assms(11) by (simp add: port_defs recorded_answer_def auto_run_def)
  have fresh: "fp_remember_nonce ?p e db = (Ok True, ?n)"
    using assms(10) by (simp add: port_defs quiet_calm decide_calm remember_op_def Let_def)
  have decided: "authorize_federated parse ?p ?policy t e ?n =
      Ok (if peer = None then Some UnknownPeer else if decision_allowed decision then None
          else Some (RefusedDenied (decision_reason decision)))"
    using assms(9,12) sent(2-5)
    by (auto simp: authorize_federated_def port_defs directory_node_def auto_run_def registry_policy_def
        split: option.split)
  have answered: "fp_record_answer ?p (ev_request_id e) answer (ev_expires_at_millis e) ?n = (Ok (), ?a answer)" for answer
    using assms(11) by (simp add: port_defs quiet_calm decide_calm answer_op_def Let_def)
  have forgotten: "fp_forget_nonce ?p e ?n = (Ok (), db)"
    using assms(10) by (simp add: port_defs quiet_calm decide_calm forget_op_def fun_upd_idem)
  note run = serve_def unanswered fresh sent(1) decided
  have replayed: "let db'' = fold (\<lambda>p db. snd (quiet_purge all_commit p db)) purges (?a answer)
      in serve parse ?p ?policy later (fa_destination_node a) execute e db'' v = (Ok (ServedReplayed answer), db'', v)"
    if "\<forall>p \<in> set purges. p \<le> ev_expires_at_millis e" for purges later v answer
    unfolding Let_def using that by (intro recorded_answer_returned purges_keep_answer) auto
  show ?thesis
  proof (cases "peer = None \<or> \<not> decision_allowed decision")
    case True
    then show ?thesis by (intro exI [of _ ?n]) (auto simp: run)
  next
    case False
    obtain r w' where x: "execute e w = (r, w')" by fastforce
    show ?thesis
    proof (cases r)
      case (Inl error)
      with False x show ?thesis by (intro exI [of _ db]) (auto simp: run forgotten)
    next
      case (Inr answer)
      with False x replayed show ?thesis by (intro exI [of _ "?a answer"]) (auto simp: run answered)
    qed
  qed
qed

definition sample_action :: federated_action where
  "sample_action = \<lparr>fa_request_id = 5, fa_subject = \<lparr>subject_kind = Creature, subject_uuid = 7\<rparr>,
     fa_destination_node = 2, fa_target = \<lparr>resource_kind = ''store'', resource_id = ''s''\<rparr>, fa_action = ''echo'',
     fa_payload = ''p'', fa_facts = {}\<rparr>"

text \<open>Executed at the destination, and given the recorded answer after a purge.\<close>

theorem sent_action_is_served_witness:
  "\<exists>d e db'. send_envelope (\<lambda>_. ''u'') (\<lambda>_. replicate 32 CHR ''0'') (\<lambda>_ _. Ok (Some (sample_node 1 [])))
      (registry_policy sample_open_registry ''p'') (I64 3) 1 sample_action = Ok (d, e) \<and>
    serve (\<lambda>_. Some 7) (quiet_ports sample_codec all_commit) (registry_policy sample_open_registry ''p'') (I64 5) 2
      (\<lambda>e w. (Ok ''done'', Suc w)) e sample_federation 0 = (Ok (ServedExecuted ''done''), db', 1) \<and>
    serve (\<lambda>_. Some 7) (quiet_ports sample_codec all_commit) (registry_policy sample_open_registry ''p'') (I64 9) 2
      (\<lambda>e w. (Ok ''done'', Suc w)) e (snd (quiet_purge all_commit (I64 8) db')) 1 =
      (Ok (ServedReplayed ''done''), snd (quiet_purge all_commit (I64 8) db'), 1)"
proof -
  let ?decision = "\<lambda>now. evaluate sample_open_registry (federated_policy_request
      (fa_subject sample_action) (fa_action sample_action) (resource_kind (fa_target sample_action),
       resource_id (fa_target sample_action)) now) ''p''"
  have allowed: "decision_allowed (?decision now)" for now
    by (simp add: evaluate_def sample_open_registry_def federated_policy_request_def sample_action_def decided_def)
  then obtain d e where sent: "send_envelope (\<lambda>_. ''u'') (\<lambda>_. replicate 32 CHR ''0'')
      (\<lambda>_ _. Ok (Some (sample_node 1 []))) (registry_policy sample_open_registry ''p'') (I64 3) 1 sample_action = Ok (d, e)"
    and e: "ev_expires_at_millis e = saturating_add_i64 (I64 3) MAX_LIFETIME_MILLIS"
    by (simp add: send_envelope_def registry_policy_def federated_policy_request_def sample_action_def)
  have times: "I64 5 < ev_expires_at_millis e" "I64 8 \<le> ev_expires_at_millis e" "I64 3 \<le> I64 5"
    by (simp_all add: e i64_le_iff i64_less_iff saturating_add_i64_def saturate_i64_def in_i64_def MAX_LIFETIME_MILLIS_def)
  have peer: "directory_node sample_codec Commits 1 (I64 5) sample_federation = Ok (Some (sample_node 1 []))"
    by (simp add: directory_node_def auto_run_def fresh_row_def sample_codec_def sample_federation_def
        sample_node_def i64_less_iff)
  have sample: "fa_action sample_action \<noteq> []" "CHR '':'' \<notin> set (resource_kind (fa_target sample_action))"
    "subject_uuid (fa_subject sample_action) = 7" "fa_destination_node sample_action = 2"
    "nonce_rows sample_federation k = None" "answer_rows sample_federation k = None" for k
    by (simp_all add: sample_action_def sample_federation_def)
  from sent_action_is_served [OF sent, where parse = "\<lambda>_. Some 7" and c = sample_codec and registry = sample_open_registry
      and version = "''p''" and execute = "\<lambda>e w. (Ok ''done'', Suc w)" and w = 0, OF _ _ _ sample(1,2) times(3,1) peer sample(5,6) refl]
    allowed [of "I64 5"] sample(3,4)
  obtain db' where "serve (\<lambda>_. Some 7) (quiet_ports sample_codec all_commit) (registry_policy sample_open_registry ''p'')
      (I64 5) 2 (\<lambda>e w. (Ok ''done'', Suc w)) e sample_federation 0 = (Ok (ServedExecuted ''done''), db', 1)"
    and later: "\<And>purges later v. (\<forall>p \<in> set purges. p \<le> ev_expires_at_millis e) \<Longrightarrow>
      (let db'' = fold (\<lambda>p db. snd (quiet_purge all_commit p db)) purges db'
       in serve (\<lambda>_. Some 7) (quiet_ports sample_codec all_commit) (registry_policy sample_open_registry ''p'') later
            2 (\<lambda>e w. (Ok ''done'', Suc w)) e db'' v = (Ok (ServedReplayed ''done''), db'', v))"
    by auto
  with sent later [of "[I64 8]" "I64 9" 1] times(2) show ?thesis by (auto simp: Let_def)
qed

end
