(* ===== verification/Vmm_Lifecycle.thy ===== *)
theory Vmm_Lifecycle
  imports Domain_Core
begin

text \<open>
  The lifecycle rules of a VMM (\<open>crates/aseman-domain/src/vmm.rs\<close>): desired-state transitions,
  the freshness of commands and observations, the reconciliation step, the operation machine,
  runtime capabilities, and the records a VMM stores. The human-readable detail of an error is
  left out throughout.
\<close>

section \<open>Failures\<close>

datatype vmm_failure =
    VInvalidRequest
  | VUnauthenticated
  | VForbidden
  | VNotFound
  | VAlreadyExists
  | VResourceVersionMismatch
  | VStaleGeneration
  | VInvalidTransition
  | VWorkloadDeleted
  | VUnsupportedOperation
  | VIdempotencyKeyReused
  | VIdempotencyInProgress
  | VOperationFinished
  | VPayloadTooLarge
  | VRateLimited
  | VDeadlineExceeded
  | VUnavailable
  | VBackendFailure
  | VStaleObservation

definition vmm_retryable :: "vmm_failure \<Rightarrow> bool" where
  "vmm_retryable f \<longleftrightarrow>
     f \<in> {VIdempotencyInProgress, VRateLimited, VDeadlineExceeded, VUnavailable, VBackendFailure}"

datatype lifecycle_error =
    LDeleted
  | LInvalidTransition
  | LStaleGeneration
  | LStaleObservation
  | LFutureObservation
  | LUnsupported
  | LOperationFinished

fun failure_of_lifecycle :: "lifecycle_error \<Rightarrow> vmm_failure" where
  "failure_of_lifecycle LDeleted = VWorkloadDeleted"
| "failure_of_lifecycle LInvalidTransition = VInvalidTransition"
| "failure_of_lifecycle LStaleGeneration = VStaleGeneration"
| "failure_of_lifecycle LStaleObservation = VStaleObservation"
| "failure_of_lifecycle LFutureObservation = VStaleObservation"
| "failure_of_lifecycle LUnsupported = VUnsupportedOperation"
| "failure_of_lifecycle LOperationFinished = VOperationFinished"

section \<open>Desired state\<close>

fun desired_transition ::
  "desired_workload_state \<Rightarrow> desired_workload_state \<Rightarrow> (unit, lifecycle_error) result" where
  "desired_transition from to =
     (if from = DDeleted then Err LDeleted
      else if from = to then Ok ()
      else if from = DRunning \<and> to = DPaused \<or> from = DPaused \<and> to = DRunning \<or> to = DStopped \<or>
        from = DStopped \<and> to = DRunning \<or> to = DDeleted then Ok ()
      else Err LInvalidTransition)"

definition next_desired ::
  "desired_workload_state \<Rightarrow> generation \<Rightarrow> generation \<Rightarrow> desired_workload_state
   \<Rightarrow> (generation, lifecycle_error) result" where
  "next_desired current current_generation expected_generation to =
     (if current_generation \<noteq> expected_generation then Err LStaleGeneration
      else and_then (desired_transition current to) (\<lambda>_.
        map_err (\<lambda>_. LInvalidTransition) (generation_next current_generation)))"

datatype command_freshness = FreshApply | FreshReplay | FreshStale

definition command_freshness :: "generation option \<Rightarrow> generation \<Rightarrow> command_freshness" where
  "command_freshness applied incoming =
     (case applied of
        Some applied \<Rightarrow>
          if generation_get incoming < generation_get applied then FreshStale
          else if incoming = applied then FreshReplay else FreshApply
      | None \<Rightarrow> FreshApply)"

section \<open>Observations and reconciliation\<close>

record observation =
  ob_state :: observed_workload_state
  ob_generation :: generation
  ob_sequence :: u64
  ob_reason :: "string option"
  ob_observed_at_millis :: i64

definition accept_observation ::
  "generation \<Rightarrow> observation option \<Rightarrow> observation \<Rightarrow> (unit, lifecycle_error) result" where
  "accept_observation desired recorded incoming =
     (if generation_get desired < generation_get (ob_generation incoming) then Err LFutureObservation
      else
        (case recorded of
           Some recorded \<Rightarrow>
             if generation_get (ob_generation incoming) < generation_get (ob_generation recorded) \<or>
               ob_generation incoming = ob_generation recorded \<and> ob_sequence incoming \<le> ob_sequence recorded
             then Err LStaleObservation else Ok ()
         | None \<Rightarrow> Ok ()))"

datatype reconcile_action = RNone | RStart | RStop | RPause | RResume | RDelete | RRestart | RAdopt

fun reconcile :: "(desired_workload_state \<times> generation) option \<Rightarrow> observation option \<Rightarrow> reconcile_action" where
  "reconcile None observed = (if observed \<noteq> None then RAdopt else RNone)"
| "reconcile (Some (desired, generation)) observed =
     (let state = map_option ob_state observed;
          current = (case observed of Some o1 \<Rightarrow> ob_generation o1 = generation | None \<Rightarrow> False)
      in case desired of
           DDeleted \<Rightarrow>
             if state = None \<or> state \<in> {Some OStopped, Some OLost, Some OFailed} \<and> current then RNone
             else RDelete
         | DRunning \<Rightarrow>
             if state = Some ORunning \<and> current then RNone
             else if state = Some OPaused then RResume
             else if state \<in> {Some OFailed, Some OLost} then RRestart
             else if state = Some OPending \<and> current then RNone
             else RStart
         | DPaused \<Rightarrow>
             if state = Some OPaused \<and> current then RNone
             else if state = Some ORunning then RPause
             else RStart
         | DStopped \<Rightarrow>
             if state \<in> {None, Some OStopped, Some OFailed, Some OLost} then RNone
             else RStop)"

section \<open>Operations and capabilities\<close>

fun operation_transition :: "operation_state \<Rightarrow> operation_state \<Rightarrow> (unit, lifecycle_error) result" where
  "operation_transition from to =
     (if from \<in> {OpSucceeded, OpFailed, OpCancelled} then Err LOperationFinished
      else if from = OpPending \<and> to \<in> {OpRunning, OpCancelled, OpFailed} \<or>
        from = OpRunning \<and> to \<in> {OpSucceeded, OpFailed, OpCancelled} then Ok ()
      else Err LInvalidTransition)"

text \<open>The deployment conventions of a runtime play no part in its lifecycle and are left out.\<close>

record runtime_capabilities =
  rc_runtime :: string
  rc_invocation :: bool
  rc_long_running :: bool
  rc_pause :: bool
  rc_snapshot :: bool
  rc_exec :: bool
  rc_terminal :: bool
  rc_http_ingress :: bool
  rc_files :: bool
  rc_build :: bool
  rc_chain_transactions :: bool
  rc_execution_proofs :: bool

datatype workload_operation =
    WStart | WStop | WPause | WResume | WDelete | WInvoke | WInvokeChain | WVerifyExecution | WExec
  | WTerminal | WHttpForward | WCopyFiles | WBuild | WSnapshot

definition check_capability :: "runtime_capabilities \<Rightarrow> workload_operation \<Rightarrow> (unit, lifecycle_error) result" where
  "check_capability rc operation =
     (let supported =
        (case operation of
           WStart \<Rightarrow> True | WStop \<Rightarrow> True | WDelete \<Rightarrow> True
         | WPause \<Rightarrow> rc_pause rc | WResume \<Rightarrow> rc_pause rc
         | WInvoke \<Rightarrow> rc_invocation rc
         | WInvokeChain \<Rightarrow> rc_chain_transactions rc
         | WVerifyExecution \<Rightarrow> rc_execution_proofs rc
         | WExec \<Rightarrow> rc_exec rc
         | WTerminal \<Rightarrow> rc_terminal rc
         | WHttpForward \<Rightarrow> rc_http_ingress rc
         | WCopyFiles \<Rightarrow> rc_files rc
         | WBuild \<Rightarrow> rc_build rc
         | WSnapshot \<Rightarrow> rc_snapshot rc)
      in if supported then Ok () else Err LUnsupported)"

section \<open>Records\<close>

text \<open>
  Of a spec the service reads the runtime and whether ingress ports are declared, and it
  removes the write-only credential; everything else is the text \<open>ws_rest\<close>.
\<close>

record workload_spec =
  ws_runtime :: string
  ws_ingress :: "(string \<times> u16) list"
  ws_credential :: "string option"
  ws_rest :: string

definition spec_redacted :: "workload_spec \<Rightarrow> workload_spec" where
  "spec_redacted spec = spec\<lparr>ws_credential := None\<rparr>"

record workload_labels =
  wl_creature_id :: uuid
  wl_program_id :: uuid
  wl_entity_id :: string
  wl_legacy_machine_id :: "string option"
  wl_legacy_vm_id :: "string option"

record desired_status =
  ds_state :: desired_workload_state
  ds_generation :: generation

datatype operation_kind =
    KCreate | KStart | KStop | KPause | KResume | KDelete | KRestart | KUpdateSpec | KInvoke | KExec
  | KBuild | KSnapshot | KRestore | KCopyFiles

record workload_record =
  wr_owner :: string
  wr_id :: workload_id
  wr_labels :: workload_labels
  wr_spec :: workload_spec
  wr_desired :: desired_status
  wr_applied_generation :: "generation option"
  wr_observed :: "observation option"
  wr_resource_version :: u64
  wr_created_at_millis :: i64
  wr_updated_at_millis :: i64

record operation_record =
  or_owner :: string
  or_id :: operation_id
  or_workload_id :: "workload_id option"
  or_kind :: operation_kind
  or_state :: operation_state
  or_generation :: "generation option"
  or_request :: "string option"
  or_created_at_millis :: i64
  or_updated_at_millis :: i64
  or_deadline_millis :: "i64 option"
  or_result :: "string option"
  or_error :: "vmm_failure option"

definition operation_move ::
  "operation_record \<Rightarrow> operation_state \<Rightarrow> i64 \<Rightarrow> (operation_record, lifecycle_error) result" where
  "operation_move o1 state at =
     and_then (operation_transition (or_state o1) state) (\<lambda>_.
       Ok (o1\<lparr>or_state := state, or_updated_at_millis := at\<rparr>))"

datatype workload_event_type = EvObserved | EvOperation | EvDeleted | EvResync

record workload_event_record =
  we_owner :: string
  we_sequence :: u64
  we_workload_id :: workload_id
  we_at_millis :: i64
  we_event_type :: workload_event_type
  we_observation :: "observation option"
  we_operation :: "operation_id option"

section \<open>What the rules give\<close>

text \<open>A deleted workload stays deleted, and a command applies only with a newer generation.\<close>

lemma desired_transition_deleted: "desired_transition DDeleted to \<noteq> Ok u"
  by simp

lemma command_freshness_apply:
  "command_freshness (Some applied) incoming = FreshApply \<longleftrightarrow> generation_get applied < generation_get incoming"
  by (cases applied; cases incoming) (auto simp: command_freshness_def)

lemma command_freshness_replay:
  "command_freshness (Some applied) incoming = FreshReplay \<longleftrightarrow> incoming = applied"
  by (auto simp: command_freshness_def)

text \<open>An accepted observation is above the recorded one and not above the desired generation.\<close>

lemma accept_observation_Ok:
  assumes "accept_observation desired recorded incoming = Ok u"
  shows "generation_get (ob_generation incoming) \<le> generation_get desired"
    and "recorded = Some o1 \<Longrightarrow>
      generation_get (ob_generation o1) < generation_get (ob_generation incoming) \<or>
      ob_generation incoming = ob_generation o1 \<and> ob_sequence o1 < ob_sequence incoming"
  using assms
  by (auto simp: accept_observation_def generation.expand split: if_splits)

interpretation observations: monotone_log "\<lambda>o1. (generation_get (ob_generation o1), ob_sequence o1)"
    "\<lambda>recorded incoming. accept_observation desired recorded incoming = Ok ()" for desired
proof
  fix o1 o2
  assume "accept_observation desired (Some o1) o2 = Ok ()"
  from accept_observation_Ok(2) [OF this refl]
  show "(generation_get (ob_generation o1), ob_sequence o1) < (generation_get (ob_generation o2), ob_sequence o2)"
    by auto
qed

text \<open>
  What a step leaves behind when it does what it is asked, and that reconciliation has nothing
  left to do after at most two such steps.
\<close>

fun step_outcome :: "reconcile_action \<Rightarrow> observed_workload_state" where
  "step_outcome RPause = OPaused"
| "step_outcome RStop = OStopped"
| "step_outcome RDelete = OStopped"
| "step_outcome _ = ORunning"

lemma reconcile_two_steps:
  assumes "ob_state first = step_outcome (reconcile (Some (desired, g)) observed)" "ob_generation first = g"
    and "ob_state second = step_outcome (reconcile (Some (desired, g)) (Some first))" "ob_generation second = g"
    and "reconcile (Some (desired, g)) observed \<noteq> RNone"
  shows "reconcile (Some (desired, g)) (Some first) = RNone \<or>
    reconcile (Some (desired, g)) (Some second) = RNone"
  using assms by (cases desired) (auto simp: Let_def split: if_splits)

end
