(* ===== verification/Vmm_Service.thy ===== *)
theory Vmm_Service
  imports Vmm_Lifecycle Auto_Store "HOL-Library.Product_Lexorder" "HOL-Library.AList"
begin

text \<open>
  The VMM service (\<open>crates/aseman-application/src/vmm.rs\<close>) on its stores
  (\<open>crates/aseman-capsule/src/vmm.rs\<close>). A computation works on a world: the database, the
  backend's own state, and a count of the calls made so far, by which the environment says
  what the clock reads, which fresh identifier is drawn, what other processes did to the
  database before the call and how its transactions end. A computation that does not return
  is \<open>None\<close>.
\<close>

section \<open>The stores\<close>

text \<open>
  A table is the list of its records, whose identifiers are its unique key. The text of a UUID
  sorts as its value does, so keys and cursors are the identifiers themselves.
\<close>

record vmm_db =
  db_workloads :: "workload_record list"
  db_operations :: "operation_record list"
  db_events :: "workload_event_record list"
  db_last_sequence :: i64

definition find_workload :: "workload_id \<Rightarrow> vmm_db \<Rightarrow> workload_record option" where
  "find_workload i db = List.find (\<lambda>r. wr_id r = i) (db_workloads db)"

definition find_operation :: "operation_id \<Rightarrow> vmm_db \<Rightarrow> operation_record option" where
  "find_operation i db = List.find (\<lambda>r. or_id r = i) (db_operations db)"

definition signed_version :: "u64 \<Rightarrow> (i64, storage_error) result" where
  "signed_version value = ok_or (StorageInvalid TRY_FROM_INT_ERROR) (i64_of_u64 value)"

definition stored_workload :: "string \<Rightarrow> workload_id \<Rightarrow> vmm_db \<Rightarrow> workload_record option" where
  "stored_workload owner i db =
     (case find_workload i db of Some r \<Rightarrow> if wr_owner r = owner then Some r else None | None \<Rightarrow> None)"

definition stored_operation :: "string \<Rightarrow> operation_id \<Rightarrow> vmm_db \<Rightarrow> operation_record option" where
  "stored_operation owner i db =
     (case find_operation i db of Some r \<Rightarrow> if or_owner r = owner then Some r else None | None \<Rightarrow> None)"

definition insert_workload_op ::
  "workload_record \<Rightarrow> vmm_db \<Rightarrow> ((unit, port_error) result \<times> vmm_db, storage_error) result" where
  "insert_workload_op record db =
     and_then (signed_version (wr_resource_version record)) (\<lambda>_.
       if find_workload (wr_id record) db \<noteq> None then Err (StorageConflict ''vmm_workload'')
       else Ok (Ok (), db\<lparr>db_workloads := db_workloads db @ [record]\<rparr>))"

definition replace_workload_op ::
  "workload_record \<Rightarrow> i64 \<Rightarrow> vmm_db \<Rightarrow> ((unit, port_error) result \<times> vmm_db, storage_error) result" where
  "replace_workload_op record expected db =
     (case find_workload (wr_id record) db of
        None \<Rightarrow> Ok (Err NotFound, db)
      | Some current \<Rightarrow>
          if wr_owner current \<noteq> wr_owner record \<or> signed_version (wr_resource_version current) \<noteq> Ok expected
          then Ok (Err Conflict, db)
          else and_then (signed_version (wr_resource_version record)) (\<lambda>_.
            Ok (Ok (), db\<lparr>db_workloads :=
              map (\<lambda>r. if wr_id r = wr_id record then record else r) (db_workloads db)\<rparr>)))"

definition insert_operation_op ::
  "operation_record \<Rightarrow> vmm_db \<Rightarrow> ((unit, port_error) result \<times> vmm_db, storage_error) result" where
  "insert_operation_op record db =
     (if find_operation (or_id record) db \<noteq> None then Err (StorageConflict ''vmm_operation'')
      else Ok (Ok (), db\<lparr>db_operations := db_operations db @ [record]\<rparr>))"

definition replace_operation_op ::
  "operation_record \<Rightarrow> operation_state \<Rightarrow> vmm_db
   \<Rightarrow> ((unit, port_error) result \<times> vmm_db, storage_error) result" where
  "replace_operation_op record expected db =
     (case find_operation (or_id record) db of
        None \<Rightarrow> Ok (Err NotFound, db)
      | Some current \<Rightarrow>
          if or_owner current \<noteq> or_owner record \<or> or_state current \<noteq> expected
          then Ok (Err Conflict, db)
          else Ok (Ok (), db\<lparr>db_operations :=
            map (\<lambda>r. if or_id r = or_id record then record else r) (db_operations db)\<rparr>))"

definition page_of :: "('a \<Rightarrow> 'k) \<Rightarrow> nat \<Rightarrow> 'a list \<Rightarrow> 'a list \<times> 'k option" where
  "page_of key limit items =
     (let n = max limit 1; page = take n items
      in (page, if n < length items then Some (key (last page)) else None))"

definition all_workloads_page :: "workload_id option \<Rightarrow> nat \<Rightarrow> vmm_db \<Rightarrow> workload_record list \<times> workload_id option" where
  "all_workloads_page after limit db =
     page_of wr_id limit (take (max limit 1 + 1)
       (sort_key (\<lambda>r. workload_uuid (wr_id r))
         (filter (\<lambda>r. case after of Some c \<Rightarrow> workload_uuid c < workload_uuid (wr_id r) | None \<Rightarrow> True)
           (db_workloads db))))"

text \<open>Newest first: by creation time, then by key.\<close>

abbreviation age :: "operation_record \<Rightarrow> i64 \<times> uuid" where
  "age r \<equiv> (or_created_at_millis r, operation_uuid (or_id r))"

definition operations_page ::
  "string \<Rightarrow> workload_id option \<Rightarrow> operation_state option \<Rightarrow> operation_id option \<Rightarrow> nat \<Rightarrow> vmm_db
   \<Rightarrow> operation_record list \<times> operation_id option" where
  "operations_page owner workload state after limit db =
     (let wanted = filter (\<lambda>r. or_owner r = owner \<and> (workload \<noteq> None \<longrightarrow> or_workload_id r = workload) \<and>
            (case state of Some s \<Rightarrow> or_state r = s | None \<Rightarrow> True)) (db_operations db);
          newest = (\<lambda>rows. page_of or_id limit (take (max limit 1 + 1) (rev (sort_key age rows))))
      in case after of
           None \<Rightarrow> newest wanted
         | Some c \<Rightarrow>
             (case find_operation c db of
                None \<Rightarrow> newest []
              | Some final \<Rightarrow> newest (filter (\<lambda>r. age r < age final) wanted)))"

abbreviation unfinished :: "operation_state \<Rightarrow> bool" where
  "unfinished s \<equiv> s \<in> {OpPending, OpRunning}"

definition unfinished_operations :: "nat \<Rightarrow> vmm_db \<Rightarrow> operation_record list" where
  "unfinished_operations limit db =
     take (max limit 1) (sort_key age (filter (\<lambda>r. unfinished (or_state r)) (db_operations db)))"

definition append_event_op ::
  "workload_event_record \<Rightarrow> vmm_db \<Rightarrow> ((u64, port_error) result \<times> vmm_db, storage_error) result" where
  "append_event_op event db =
     (let sequence = add_i64 (db_last_sequence db) (I64 1) in
      and_then (ok_or (StorageInvalid TRY_FROM_INT_ERROR) (u64_of_i64 sequence)) (\<lambda>n.
        Ok (Ok n, db\<lparr>db_last_sequence := sequence,
          db_events := db_events db @ [event\<lparr>we_sequence := n\<rparr>]\<rparr>)))"

section \<open>Computations\<close>

record vmm_error =
  vx_failure :: vmm_failure
  vx_current_generation :: "generation option"

definition vmm_fails :: "vmm_failure \<Rightarrow> vmm_error" where
  "vmm_fails f = \<lparr>vx_failure = f, vx_current_generation = None\<rparr>"

definition of_lifecycle :: "lifecycle_error \<Rightarrow> vmm_error" where
  "of_lifecycle e = vmm_fails (failure_of_lifecycle e)"

fun failure_of_port :: "port_error \<Rightarrow> vmm_failure" where
  "failure_of_port NotFound = VNotFound"
| "failure_of_port Conflict = VResourceVersionMismatch"
| "failure_of_port (Denied m) = VForbidden"
| "failure_of_port (Unavailable m) = VUnavailable"
| "failure_of_port Deadline = VDeadlineExceeded"
| "failure_of_port (Unsupported m) = VUnsupportedOperation"
| "failure_of_port (Refused m) = VInvalidRequest"
| "failure_of_port (Failed m) = VBackendFailure"

record 'b vmm_backend =
  vb_describe :: "'b \<Rightarrow> (runtime_capabilities list, port_error) result \<times> 'b"
  vb_step :: "workload_record \<Rightarrow> reconcile_action \<Rightarrow> 'b \<Rightarrow> (observation, port_error) result \<times> 'b"
  vb_observe_all :: "'b \<Rightarrow> ((workload_id \<times> observation) list, port_error) result \<times> 'b"
  vb_run :: "workload_record option \<Rightarrow> operation_record \<Rightarrow> 'b \<Rightarrow> (string, port_error) result \<times> 'b"

record 'b vmm_env =
  vm_clock :: "nat \<Rightarrow> i64"
  vm_ids :: "nat \<Rightarrow> uuid"
  vm_store :: "nat \<Rightarrow> vmm_db environment"
  vm_hypervisor :: "'b vmm_backend"

record 'b vmm_world =
  vm_db :: vmm_db
  vm_backend :: 'b
  vm_calls :: nat

type_synonym ('a, 'e, 'b) vm = "'b vmm_world \<Rightarrow> (('a, 'e) result \<times> 'b vmm_world) option"

definition vm_lift :: "('a, 'e) result \<Rightarrow> ('a, 'e, 'b) vm" where
  "vm_lift r w = Some (r, w)"

definition vm_try :: "('a, 'e, 'b) vm \<Rightarrow> (('a, 'e) result \<Rightarrow> ('c, 'f, 'b) vm) \<Rightarrow> ('c, 'f, 'b) vm" where
  "vm_try m k w = Option.bind (m w) (\<lambda>(r, w). k r w)"

definition vm_bind :: "('a, 'e, 'b) vm \<Rightarrow> ('a \<Rightarrow> ('c, 'e, 'b) vm) \<Rightarrow> ('c, 'e, 'b) vm" where
  "vm_bind m k = vm_try m (\<lambda>r. case r of Inl e \<Rightarrow> vm_lift (Err e) | Inr x \<Rightarrow> k x)"

abbreviation vm_ok :: "'a \<Rightarrow> ('a, 'e, 'b) vm" where
  "vm_ok x \<equiv> vm_lift (Ok x)"

abbreviation vm_err :: "vmm_failure \<Rightarrow> ('a, vmm_error, 'b) vm" where
  "vm_err f \<equiv> vm_lift (Err (vmm_fails f))"

abbreviation vm_rule :: "('a, lifecycle_error) result \<Rightarrow> ('a, vmm_error, 'b) vm" where
  "vm_rule r \<equiv> vm_lift (map_err of_lifecycle r)"

definition vm_ports :: "('a, port_error, 'b) vm \<Rightarrow> ('a, vmm_error, 'b) vm" where
  "vm_ports m = vm_try m (\<lambda>r. vm_lift (map_err (\<lambda>e. vmm_fails (failure_of_port e)) r))"

definition vm_now :: "'b vmm_env \<Rightarrow> (i64, 'e, 'b) vm" where
  "vm_now E w = Some (Ok (vm_clock E (vm_calls w)), w\<lparr>vm_calls := Suc (vm_calls w)\<rparr>)"

definition vm_fresh :: "'b vmm_env \<Rightarrow> (operation_id, 'e, 'b) vm" where
  "vm_fresh E w = Some (Ok (OperationId (vm_ids E (vm_calls w))), w\<lparr>vm_calls := Suc (vm_calls w)\<rparr>)"

definition vm_read :: "'b vmm_env \<Rightarrow> (vmm_db \<Rightarrow> 'a) \<Rightarrow> ('a, port_error, 'b) vm" where
  "vm_read E f w =
     (case vm_store E (vm_calls w) 0 of (others, end) \<Rightarrow>
        let db = others (vm_db w) in
        Some (map_err port (fst (auto_run end ReadOnly (\<lambda>d. Ok (f d, d)) db)),
          w\<lparr>vm_db := db, vm_calls := Suc (vm_calls w)\<rparr>))"

definition vm_write ::
  "'b vmm_env \<Rightarrow> (vmm_db \<Rightarrow> (('a, port_error) result \<times> vmm_db, storage_error) result)
   \<Rightarrow> ('a, port_error, 'b) vm" where
  "vm_write E operation w =
     (case decide (vm_store E (vm_calls w)) operation (vm_db w) of (r, db) \<Rightarrow>
        Some (r, w\<lparr>vm_db := db, vm_calls := Suc (vm_calls w)\<rparr>))"

definition vm_call :: "('b \<Rightarrow> ('a, port_error) result \<times> 'b) \<Rightarrow> ('a, port_error, 'b) vm" where
  "vm_call f w = (case f (vm_backend w) of (r, b) \<Rightarrow> Some (r, w\<lparr>vm_backend := b\<rparr>))"

section \<open>Shared steps of the service\<close>

definition CAS_ATTEMPTS :: nat where
  "CAS_ATTEMPTS = 5"

definition PAGE :: nat where
  "PAGE = 200"

definition runtime_of :: "'b vmm_env \<Rightarrow> string \<Rightarrow> (runtime_capabilities, vmm_error, 'b) vm" where
  "runtime_of E key =
     vm_bind (vm_ports (vm_call (vb_describe (vm_hypervisor E)))) (\<lambda>runtimes.
       case List.find (\<lambda>rc. rc_runtime rc = key) runtimes of
         Some rc \<Rightarrow> vm_ok rc
       | None \<Rightarrow> vm_err VUnsupportedOperation)"

definition load :: "'b vmm_env \<Rightarrow> string \<Rightarrow> workload_id \<Rightarrow> (workload_record, vmm_error, 'b) vm" where
  "load E owner i =
     vm_bind (vm_ports (vm_read E (stored_workload owner i))) (\<lambda>found.
       case found of Some r \<Rightarrow> vm_ok r | None \<Rightarrow> vm_err VNotFound)"

definition operation :: "'b vmm_env \<Rightarrow> string \<Rightarrow> operation_id \<Rightarrow> (operation_record, vmm_error, 'b) vm" where
  "operation E owner i =
     vm_bind (vm_ports (vm_read E (stored_operation owner i))) (\<lambda>found.
       case found of Some r \<Rightarrow> vm_ok r | None \<Rightarrow> vm_err VNotFound)"

definition event ::
  "'b vmm_env \<Rightarrow> string \<Rightarrow> workload_id \<Rightarrow> workload_event_type \<Rightarrow> observation option \<Rightarrow> operation_id option
   \<Rightarrow> (unit, vmm_error, 'b) vm" where
  "event E owner workload kind seen about =
     vm_bind (vm_now E) (\<lambda>now.
     vm_bind (vm_ports (vm_write E (append_event_op
         \<lparr>we_owner = owner, we_sequence = 0, we_workload_id = workload, we_at_millis = now,
          we_event_type = kind, we_observation = seen, we_operation = about\<rparr>))) (\<lambda>_. vm_ok ()))"

definition operation_event :: "'b vmm_env \<Rightarrow> operation_record \<Rightarrow> (unit, vmm_error, 'b) vm" where
  "operation_event E o1 =
     (case or_workload_id o1 of
        Some workload \<Rightarrow> event E (or_owner o1) workload EvOperation None (Some (or_id o1))
      | None \<Rightarrow> vm_ok ())"

definition new_operation ::
  "'b vmm_env \<Rightarrow> string \<Rightarrow> workload_id option \<Rightarrow> operation_kind \<Rightarrow> generation option \<Rightarrow> string option
   \<Rightarrow> i64 option \<Rightarrow> (operation_record, vmm_error, 'b) vm" where
  "new_operation E owner workload kind generation request deadline =
     vm_bind (vm_now E) (\<lambda>now.
     vm_bind (vm_fresh E) (\<lambda>i.
     let o1 = \<lparr>or_owner = owner, or_id = i, or_workload_id = workload, or_kind = kind,
          or_state = OpPending, or_generation = generation, or_request = request,
          or_created_at_millis = now, or_updated_at_millis = now, or_deadline_millis = deadline,
          or_result = None, or_error = None\<rparr>
     in vm_bind (vm_ports (vm_write E (insert_operation_op o1))) (\<lambda>_.
        vm_bind (operation_event E o1) (\<lambda>_. vm_ok o1))))"

text \<open>The loop of \<open>operation_for\<close> over the pages of a workload's operations.\<close>

partial_function (option) operation_pages ::
  "'b vmm_env \<Rightarrow> string \<Rightarrow> workload_id \<Rightarrow> generation \<Rightarrow> operation_id option \<Rightarrow> 'b vmm_world
   \<Rightarrow> ((operation_record, vmm_error) result \<times> 'b vmm_world) option" where
  "operation_pages E owner workload generation cursor w =
     Option.bind (vm_ports (vm_read E (operations_page owner (Some workload) None cursor PAGE)) w)
       (\<lambda>(r, w). case r of
          Inl e \<Rightarrow> Some (Err e, w)
        | Inr page \<Rightarrow>
            (case List.find (\<lambda>o1. or_generation o1 = Some generation) (fst page) of
               Some found \<Rightarrow> Some (Ok found, w)
             | None \<Rightarrow>
                 (case snd page of
                    Some c \<Rightarrow> operation_pages E owner workload generation (Some c) w
                  | None \<Rightarrow> Some (Err (vmm_fails VNotFound), w))))"

definition operation_for ::
  "'b vmm_env \<Rightarrow> string \<Rightarrow> workload_id \<Rightarrow> generation \<Rightarrow> (operation_record, vmm_error, 'b) vm" where
  "operation_for E owner workload generation = operation_pages E owner workload generation None"

definition check_version :: "workload_record \<Rightarrow> u64 option \<Rightarrow> (unit, vmm_error) result" where
  "check_version record if_match =
     (case if_match of
        Some expected \<Rightarrow>
          if expected \<noteq> wr_resource_version record then Err (vmm_fails VResourceVersionMismatch) else Ok ()
      | None \<Rightarrow> Ok ())"

definition freshness ::
  "'b vmm_env \<Rightarrow> string \<Rightarrow> workload_record \<Rightarrow> generation \<Rightarrow> (operation_record option, vmm_error, 'b) vm" where
  "freshness E owner record generation =
     (case command_freshness (Some (ds_generation (wr_desired record))) generation of
        FreshApply \<Rightarrow> vm_ok None
      | FreshReplay \<Rightarrow> vm_bind (operation_for E owner (wr_id record) generation) (\<lambda>o1. vm_ok (Some o1))
      | FreshStale \<Rightarrow>
          vm_lift (Err \<lparr>vx_failure = VStaleGeneration,
            vx_current_generation = Some (ds_generation (wr_desired record))\<rparr>))"

definition replace_workload :: "'b vmm_env \<Rightarrow> workload_record \<Rightarrow> u64 \<Rightarrow> (unit, port_error, 'b) vm" where
  "replace_workload E record expected =
     (case i64_of_u64 expected of
        None \<Rightarrow> vm_lift (Err (Failed TRY_FROM_INT_ERROR))
      | Some expected \<Rightarrow> vm_write E (replace_workload_op record expected))"

definition save :: "'b vmm_env \<Rightarrow> workload_record \<Rightarrow> u64 \<Rightarrow> (workload_record, vmm_error, 'b) vm" where
  "save E record expected =
     vm_bind (vm_now E) (\<lambda>now.
     let record = record\<lparr>wr_resource_version := expected + 1, wr_updated_at_millis := now\<rparr>
     in vm_try (replace_workload E record expected) (\<lambda>r.
          case r of
            Inl Conflict \<Rightarrow> vm_err VResourceVersionMismatch
          | Inl e \<Rightarrow> vm_err (failure_of_port e)
          | Inr _ \<Rightarrow> vm_ok record))"

section \<open>Commands\<close>

record new_workload =
  nw_id :: workload_id
  nw_labels :: workload_labels
  nw_spec :: workload_spec
  nw_desired :: desired_status

definition create ::
  "'b vmm_env \<Rightarrow> string \<Rightarrow> new_workload \<Rightarrow> i64 option \<Rightarrow> (operation_record, vmm_error, 'b) vm" where
  "create E owner workload deadline =
     (if ds_state (nw_desired workload) \<notin> {DStopped, DRunning} then vm_err VInvalidTransition
      else
        vm_bind (runtime_of E (ws_runtime (nw_spec workload))) (\<lambda>runtime.
        if ws_ingress (nw_spec workload) \<noteq> [] \<and> \<not> rc_http_ingress runtime then vm_err VUnsupportedOperation
        else
          vm_bind (vm_now E) (\<lambda>now.
          let record = \<lparr>wr_owner = owner, wr_id = nw_id workload, wr_labels = nw_labels workload,
               wr_spec = nw_spec workload, wr_desired = nw_desired workload, wr_applied_generation = None,
               wr_observed = None, wr_resource_version = 1, wr_created_at_millis = now,
               wr_updated_at_millis = now\<rparr>
          in vm_try (vm_write E (insert_workload_op record)) (\<lambda>r.
               case r of
                 Inl Conflict \<Rightarrow> vm_err VAlreadyExists
               | Inl e \<Rightarrow> vm_err (failure_of_port e)
               | Inr _ \<Rightarrow>
                   new_operation E owner (Some (wr_id record)) KCreate
                     (Some (ds_generation (wr_desired record))) None deadline))))"

datatype lifecycle_command = CStart | CStop | CPause | CResume | CDelete

fun command_kind :: "lifecycle_command \<Rightarrow> operation_kind" where
  "command_kind CStart = KStart"
| "command_kind CStop = KStop"
| "command_kind CPause = KPause"
| "command_kind CResume = KResume"
| "command_kind CDelete = KDelete"

fun command_target :: "lifecycle_command \<Rightarrow> desired_workload_state" where
  "command_target CStart = DRunning"
| "command_target CResume = DRunning"
| "command_target CStop = DStopped"
| "command_target CPause = DPaused"
| "command_target CDelete = DDeleted"

fun command_operation :: "lifecycle_command \<Rightarrow> workload_operation" where
  "command_operation CPause = WPause"
| "command_operation CResume = WPause"
| "command_operation CStart = WStart"
| "command_operation CStop = WStop"
| "command_operation CDelete = WDelete"

definition command ::
  "'b vmm_env \<Rightarrow> string \<Rightarrow> workload_id \<Rightarrow> lifecycle_command \<Rightarrow> generation \<Rightarrow> u64 option \<Rightarrow> i64 option
   \<Rightarrow> (operation_record, vmm_error, 'b) vm" where
  "command E owner i c generation if_match deadline =
     vm_bind (load E owner i) (\<lambda>record.
     vm_bind (freshness E owner record generation) (\<lambda>replay.
     case replay of
       Some o1 \<Rightarrow> vm_ok o1
     | None \<Rightarrow>
         vm_bind (vm_lift (check_version record if_match)) (\<lambda>_.
         if c = CResume \<and> ds_state (wr_desired record) \<noteq> DPaused then vm_err VInvalidTransition
         else
           vm_bind (vm_rule (desired_transition (ds_state (wr_desired record)) (command_target c))) (\<lambda>_.
           vm_bind (runtime_of E (ws_runtime (wr_spec record))) (\<lambda>runtime.
           vm_bind (vm_rule (check_capability runtime (command_operation c))) (\<lambda>_.
           vm_bind (save E
               (record\<lparr>wr_desired := \<lparr>ds_state = command_target c, ds_generation = generation\<rparr>\<rparr>)
               (wr_resource_version record)) (\<lambda>_.
           new_operation E owner (Some i) (command_kind c) (Some generation) None deadline)))))))"

definition update_spec ::
  "'b vmm_env \<Rightarrow> string \<Rightarrow> workload_id \<Rightarrow> workload_spec \<Rightarrow> generation \<Rightarrow> u64 option \<Rightarrow> i64 option
   \<Rightarrow> (operation_record, vmm_error, 'b) vm" where
  "update_spec E owner i spec generation if_match deadline =
     vm_bind (load E owner i) (\<lambda>record.
     vm_bind (freshness E owner record generation) (\<lambda>replay.
     case replay of
       Some o1 \<Rightarrow> vm_ok o1
     | None \<Rightarrow>
         vm_bind (vm_lift (check_version record if_match)) (\<lambda>_.
         if ds_state (wr_desired record) = DDeleted then vm_lift (Err (of_lifecycle LDeleted))
         else
           vm_bind (runtime_of E (ws_runtime spec)) (\<lambda>_.
           vm_bind (save E
               (record\<lparr>wr_spec := spec, wr_desired := (wr_desired record)\<lparr>ds_generation := generation\<rparr>\<rparr>)
               (wr_resource_version record)) (\<lambda>_.
           new_operation E owner (Some i) KUpdateSpec (Some generation) None deadline)))))"

definition restore ::
  "'b vmm_env \<Rightarrow> string \<Rightarrow> workload_id \<Rightarrow> generation \<Rightarrow> string \<Rightarrow> u64 option \<Rightarrow> i64 option
   \<Rightarrow> (operation_record, vmm_error, 'b) vm" where
  "restore E owner i generation request if_match deadline =
     vm_bind (load E owner i) (\<lambda>record.
     vm_bind (freshness E owner record generation) (\<lambda>replay.
     case replay of
       Some o1 \<Rightarrow> vm_ok o1
     | None \<Rightarrow>
         vm_bind (vm_lift (check_version record if_match)) (\<lambda>_.
         vm_bind (vm_rule (desired_transition (ds_state (wr_desired record)) DRunning)) (\<lambda>_.
         vm_bind (runtime_of E (ws_runtime (wr_spec record))) (\<lambda>runtime.
         vm_bind (vm_rule (check_capability runtime WSnapshot)) (\<lambda>_.
         vm_bind (save E (record\<lparr>wr_desired := \<lparr>ds_state = DRunning, ds_generation = generation\<rparr>\<rparr>)
             (wr_resource_version record)) (\<lambda>_.
         new_operation E owner (Some i) KRestore (Some generation) (Some request) deadline)))))))"

datatype operation_target = OnWorkload workload_id | OnRuntime string

fun data_plane_kind :: "workload_operation \<Rightarrow> operation_kind option" where
  "data_plane_kind WInvoke = Some KInvoke"
| "data_plane_kind WInvokeChain = Some KInvoke"
| "data_plane_kind WExec = Some KExec"
| "data_plane_kind WBuild = Some KBuild"
| "data_plane_kind WSnapshot = Some KSnapshot"
| "data_plane_kind _ = None"

definition submit ::
  "'b vmm_env \<Rightarrow> string \<Rightarrow> operation_target \<Rightarrow> workload_operation \<Rightarrow> string \<Rightarrow> i64 option
   \<Rightarrow> (operation_record, vmm_error, 'b) vm" where
  "submit E owner target asked request deadline =
     (case data_plane_kind asked of
        None \<Rightarrow> vm_err VInvalidRequest
      | Some kind \<Rightarrow>
          vm_bind
            (case target of
               OnRuntime key \<Rightarrow>
                 vm_bind (runtime_of E key) (\<lambda>runtime.
                 vm_bind (vm_rule (check_capability runtime asked)) (\<lambda>_. vm_ok None))
             | OnWorkload i \<Rightarrow>
                 vm_bind (load E owner i) (\<lambda>record.
                 vm_bind (runtime_of E (ws_runtime (wr_spec record))) (\<lambda>runtime.
                 vm_bind (vm_rule (check_capability runtime asked)) (\<lambda>_.
                 case ds_state (wr_desired record) of
                   DRunning \<Rightarrow> vm_ok (Some i)
                 | DDeleted \<Rightarrow> vm_lift (Err (of_lifecycle LDeleted))
                 | _ \<Rightarrow> if asked = WSnapshot then vm_ok (Some i) else vm_err VInvalidTransition))))
            (\<lambda>workload. new_operation E owner workload kind None (Some request) deadline))"

fun cancel_attempts ::
  "nat \<Rightarrow> 'b vmm_env \<Rightarrow> string \<Rightarrow> operation_id \<Rightarrow> (operation_record, vmm_error, 'b) vm" where
  "cancel_attempts 0 E owner i = vm_err VIdempotencyInProgress"
| "cancel_attempts (Suc n) E owner i =
     vm_bind (operation E owner i) (\<lambda>o1.
     vm_bind (vm_now E) (\<lambda>now.
     vm_bind (vm_rule (operation_move o1 OpCancelled now)) (\<lambda>cancelled.
     vm_try (vm_write E (replace_operation_op cancelled (or_state o1))) (\<lambda>r.
       case r of
         Inr _ \<Rightarrow> vm_bind (operation_event E cancelled) (\<lambda>_. vm_ok cancelled)
       | Inl Conflict \<Rightarrow> cancel_attempts n E owner i
       | Inl e \<Rightarrow> vm_err (failure_of_port e)))))"

definition cancel :: "'b vmm_env \<Rightarrow> string \<Rightarrow> operation_id \<Rightarrow> (operation_record, vmm_error, 'b) vm" where
  "cancel E owner i = cancel_attempts CAS_ATTEMPTS E owner i"

section \<open>Executing operations\<close>

definition finish ::
  "'b vmm_env \<Rightarrow> operation_record \<Rightarrow> (string option, vmm_error) result \<Rightarrow> (operation_record, vmm_error, 'b) vm" where
  "finish E o1 outcome =
     vm_bind (vm_now E) (\<lambda>now.
     vm_bind
       (case outcome of
          Inr answer \<Rightarrow>
            vm_bind (vm_rule (operation_move o1 OpSucceeded now)) (\<lambda>o2. vm_ok (o2\<lparr>or_result := answer\<rparr>))
        | Inl e \<Rightarrow>
            vm_bind (vm_rule (operation_move o1 OpFailed now)) (\<lambda>o2.
              vm_ok (o2\<lparr>or_error := Some (vx_failure e)\<rparr>)))
       (\<lambda>o2.
     vm_try (vm_write E (replace_operation_op o2 OpRunning)) (\<lambda>r.
       case r of
         Inl Conflict \<Rightarrow> operation E (or_owner o2) (or_id o2)
       | Inl e \<Rightarrow> vm_err (failure_of_port e)
       | Inr _ \<Rightarrow> vm_bind (operation_event E o2) (\<lambda>_. vm_ok o2))))"

fun observation_attempts ::
  "nat \<Rightarrow> 'b vmm_env \<Rightarrow> string \<Rightarrow> workload_id \<Rightarrow> observation \<Rightarrow> generation option
   \<Rightarrow> (workload_record, vmm_error, 'b) vm" where
  "observation_attempts 0 E owner i seen applied = vm_err VUnavailable"
| "observation_attempts (Suc n) E owner i seen applied =
     vm_bind (load E owner i) (\<lambda>record.
     vm_bind (vm_rule (accept_observation (ds_generation (wr_desired record)) (wr_observed record) seen)) (\<lambda>_.
     vm_try (save E
         (record\<lparr>wr_observed := Some seen,
           wr_applied_generation := (if applied \<noteq> None then applied else wr_applied_generation record)\<rparr>)
         (wr_resource_version record)) (\<lambda>r.
       case r of
         Inr saved \<Rightarrow> vm_bind (event E owner i EvObserved (Some seen) None) (\<lambda>_. vm_ok saved)
       | Inl e \<Rightarrow>
           if vx_failure e = VResourceVersionMismatch
           then observation_attempts n E owner i seen applied
           else vm_lift (Err e))))"

definition record_observation ::
  "'b vmm_env \<Rightarrow> string \<Rightarrow> workload_id \<Rightarrow> observation \<Rightarrow> generation option
   \<Rightarrow> (workload_record, vmm_error, 'b) vm" where
  "record_observation = observation_attempts CAS_ATTEMPTS"

definition converge :: "'b vmm_env \<Rightarrow> operation_record \<Rightarrow> workload_record \<Rightarrow> (bool, vmm_error, 'b) vm" where
  "converge E o1 record =
     (if (case or_generation o1 of
            Some g \<Rightarrow> generation_get g < generation_get (ds_generation (wr_desired record))
          | None \<Rightarrow> False)
      then vm_lift (Err \<lparr>vx_failure = VStaleGeneration,
        vx_current_generation = Some (ds_generation (wr_desired record))\<rparr>)
      else
        let desired = Some (ds_state (wr_desired record), ds_generation (wr_desired record));
            action = reconcile desired (wr_observed record)
        in if action = RNone then vm_ok True
           else
             vm_bind (vm_ports (vm_call (vb_step (vm_hypervisor E) record action))) (\<lambda>seen.
             vm_bind (record_observation E (or_owner o1) (wr_id record) seen
                 (Some (ds_generation (wr_desired record)))) (\<lambda>record.
             let converged = (reconcile desired (wr_observed record) = RNone)
             in vm_bind
                  (if converged \<and> ds_state (wr_desired record) = DDeleted
                   then event E (or_owner o1) (wr_id record) EvDeleted None (Some (or_id o1))
                   else vm_ok ())
                  (\<lambda>_. vm_ok converged))))"

text \<open>
  What \<open>execute\<close> does with an operation once it is claimed, and with a running one before its
  deadline.
\<close>

definition execute_running ::
  "'b vmm_env \<Rightarrow> string \<Rightarrow> operation_record \<Rightarrow> (operation_record, vmm_error, 'b) vm" where
  "execute_running E owner o1 =
     vm_bind
       (case or_workload_id o1 of
          Some i \<Rightarrow> vm_bind (load E owner i) (\<lambda>r. vm_ok (Some r))
        | None \<Rightarrow> vm_ok None) (\<lambda>record.
     if or_kind o1 \<in> {KInvoke, KExec, KBuild, KSnapshot}
     then vm_try (vm_ports (vm_call (vb_run (vm_hypervisor E) record o1))) (\<lambda>outcome.
       finish E o1 (and_then outcome (\<lambda>answer. Ok (Some answer))))
     else if or_kind o1 = KCopyFiles then finish E o1 (Ok None)
     else
       (case record of
          None \<Rightarrow> finish E o1 (Err (vmm_fails VInvalidRequest))
        | Some record \<Rightarrow>
            let converging = (\<lambda>record.
              vm_try (converge E o1 record) (\<lambda>r.
                case r of
                  Inr True \<Rightarrow> finish E o1 (Ok None)
                | Inr False \<Rightarrow> vm_ok o1
                | Inl e \<Rightarrow> if vmm_retryable (vx_failure e) then vm_ok o1 else finish E o1 (Err e)))
            in if or_kind o1 = KRestore \<and> wr_applied_generation record \<noteq> or_generation o1
               then vm_try (vm_ports (vm_call (vb_run (vm_hypervisor E) (Some record) o1))) (\<lambda>r.
                 case r of
                   Inl e \<Rightarrow> finish E o1 (Err e)
                 | Inr _ \<Rightarrow> vm_bind (load E owner (wr_id record)) converging)
               else converging record))"

definition execute_claimed ::
  "'b vmm_env \<Rightarrow> string \<Rightarrow> operation_record \<Rightarrow> (operation_record, vmm_error, 'b) vm" where
  "execute_claimed E owner o1 =
     (if or_state o1 \<noteq> OpRunning then vm_ok o1
      else
        (case or_deadline_millis o1 of
           Some deadline \<Rightarrow>
             vm_bind (vm_now E) (\<lambda>now.
               if deadline \<le> now then finish E o1 (Err (vmm_fails VDeadlineExceeded))
               else execute_running E owner o1)
         | None \<Rightarrow> execute_running E owner o1))"

definition execute :: "'b vmm_env \<Rightarrow> operation_id \<Rightarrow> string \<Rightarrow> (operation_record, vmm_error, 'b) vm" where
  "execute E i owner =
     vm_bind (operation E owner i) (\<lambda>o1.
     if or_state o1 = OpPending
     then
       vm_bind (vm_now E) (\<lambda>now.
       vm_bind (vm_rule (operation_move o1 OpRunning now)) (\<lambda>o2.
       vm_try (vm_write E (replace_operation_op o2 OpPending)) (\<lambda>r.
         case r of
           Inl Conflict \<Rightarrow> operation E owner i
         | Inl e \<Rightarrow> vm_err (failure_of_port e)
         | Inr _ \<Rightarrow> execute_claimed E owner o2)))
     else execute_claimed E owner o1)"

primrec vm_each :: "('acc \<Rightarrow> 'a \<Rightarrow> ('acc, vmm_error, 'b) vm) \<Rightarrow> 'acc \<Rightarrow> 'a list \<Rightarrow> ('acc, vmm_error, 'b) vm" where
  "vm_each visit acc [] = vm_ok acc"
| "vm_each visit acc (x # xs) = vm_bind (visit acc x) (\<lambda>acc. vm_each visit acc xs)"

definition execute_pending :: "'b vmm_env \<Rightarrow> nat \<Rightarrow> (nat, vmm_error, 'b) vm" where
  "execute_pending E limit =
     vm_bind (vm_ports (vm_read E (unfinished_operations (max limit 1)))) (\<lambda>pending.
       vm_each (\<lambda>finished o1.
         vm_bind (execute E (or_id o1) (or_owner o1)) (\<lambda>after.
           vm_ok (if unfinished (or_state after) then finished else finished + 1))) 0 pending)"

section \<open>Observing and reconciling\<close>

partial_function (option) workload_pages ::
  "'b vmm_env \<Rightarrow> ('acc \<Rightarrow> workload_record \<Rightarrow> ('acc, vmm_error, 'b) vm) \<Rightarrow> workload_id option \<Rightarrow> 'acc
   \<Rightarrow> 'b vmm_world \<Rightarrow> (('acc, vmm_error) result \<times> 'b vmm_world) option" where
  "workload_pages E visit cursor acc w =
     Option.bind (vm_ports (vm_read E (all_workloads_page cursor PAGE)) w) (\<lambda>(r, w).
       case r of
         Inl e \<Rightarrow> Some (Err e, w)
       | Inr page \<Rightarrow>
           Option.bind (vm_each visit acc (fst page) w) (\<lambda>(r, w).
             case r of
               Inl e \<Rightarrow> Some (Err e, w)
             | Inr acc \<Rightarrow>
                 (case snd page of
                    Some c \<Rightarrow> workload_pages E visit (Some c) acc w
                  | None \<Rightarrow> Some (Ok acc, w))))"

definition each_workload ::
  "'b vmm_env \<Rightarrow> ('acc \<Rightarrow> workload_record \<Rightarrow> ('acc, vmm_error, 'b) vm) \<Rightarrow> 'acc \<Rightarrow> ('acc, vmm_error, 'b) vm" where
  "each_workload E visit acc = workload_pages E visit None acc"

record observation_report =
  rep_recorded :: nat
  rep_lost :: nat
  rep_undesired :: "workload_id list"

text \<open>
  One workload of an observation pass: the accumulator holds what the backend reported and is
  not yet accounted for, as a list with one entry per workload, and the report so far.
\<close>

definition observe_workload ::
  "'b vmm_env \<Rightarrow> (workload_id \<times> observation) list \<times> observation_report \<Rightarrow> workload_record
   \<Rightarrow> ((workload_id \<times> observation) list \<times> observation_report, vmm_error, 'b) vm" where
  "observe_workload E acc record =
     (let reported = fst acc; report = snd acc; i = wr_id record;
          recording = (\<lambda>report seen.
            vm_try (record_observation E (wr_owner record) i seen None) (\<lambda>r.
              case r of
                Inr _ \<Rightarrow> vm_ok (AList.delete i reported, report\<lparr>rep_recorded := rep_recorded report + 1\<rparr>)
              | Inl e \<Rightarrow>
                  if vx_failure e = VStaleObservation then vm_ok (AList.delete i reported, report)
                  else vm_lift (Err e)))
      in case map_of reported i of
           Some seen \<Rightarrow> recording report seen
         | None \<Rightarrow>
             (case wr_observed record of
                None \<Rightarrow> vm_ok acc
              | Some previous \<Rightarrow>
                  if ob_state previous \<in> {OPending, ORunning, OPaused} \<and> ds_state (wr_desired record) \<noteq> DDeleted
                  then
                    vm_bind (vm_now E) (\<lambda>now.
                      recording (report\<lparr>rep_lost := rep_lost report + 1\<rparr>)
                        \<lparr>ob_state = OLost, ob_generation = ob_generation previous,
                         ob_sequence = ob_sequence previous + 1,
                         ob_reason = Some ''the backend no longer reports the instance'',
                         ob_observed_at_millis = now\<rparr>)
                  else vm_ok acc))"

definition observe :: "'b vmm_env \<Rightarrow> (observation_report, vmm_error, 'b) vm" where
  "observe E =
     vm_bind (vm_ports (vm_call (vb_observe_all (vm_hypervisor E)))) (\<lambda>seen.
     vm_bind (each_workload E (observe_workload E)
         (fold (\<lambda>(i, o1) m. AList.update i o1 m) seen [],
          \<lparr>rep_recorded = 0, rep_lost = 0, rep_undesired = []\<rparr>)) (\<lambda>acc.
       vm_ok ((snd acc)\<lparr>rep_undesired := sort_key workload_uuid (map fst (fst acc))\<rparr>)))"

fun reconcile_kind :: "reconcile_action \<Rightarrow> operation_kind option" where
  "reconcile_kind RNone = None"
| "reconcile_kind RAdopt = None"
| "reconcile_kind RStart = Some KStart"
| "reconcile_kind RStop = Some KStop"
| "reconcile_kind RPause = Some KPause"
| "reconcile_kind RResume = Some KResume"
| "reconcile_kind RDelete = Some KDelete"
| "reconcile_kind RRestart = Some KRestart"

definition reconcile_workload :: "'b vmm_env \<Rightarrow> nat \<Rightarrow> workload_record \<Rightarrow> (nat, vmm_error, 'b) vm" where
  "reconcile_workload E opened record =
     (case reconcile_kind (reconcile
         (Some (ds_state (wr_desired record), ds_generation (wr_desired record))) (wr_observed record)) of
        None \<Rightarrow> vm_ok opened
      | Some kind \<Rightarrow>
          vm_bind (vm_ports (vm_read E (operations_page (wr_owner record) (Some (wr_id record)) None None PAGE)))
            (\<lambda>page.
             if list_ex (\<lambda>o1. unfinished (or_state o1) \<and> or_generation o1 \<noteq> None) (fst page) then vm_ok opened
             else
               vm_bind (new_operation E (wr_owner record) (Some (wr_id record)) kind
                   (Some (ds_generation (wr_desired record))) None None) (\<lambda>_. vm_ok (opened + 1))))"

definition reconcile_all :: "'b vmm_env \<Rightarrow> (nat, vmm_error, 'b) vm" where
  "reconcile_all E = each_workload E (reconcile_workload E) 0"

end
