(* ===== verification/Vmm_History.thy ===== *)
theory Vmm_History
  imports Vmm_Service
begin

text \<open>
  What the VMM service keeps, whatever its backend does, however its transactions end and
  whatever other replicas of the service do between its calls: its records are well formed,
  they only move forward, every request returns, and a lifecycle operation converges with a
  backend that does what it is asked.
\<close>

section \<open>Well-formed records\<close>

definition versioned :: "u64 \<Rightarrow> bool" where
  "versioned v \<longleftrightarrow> in_i64 (uint v)"

definition workload_typed :: "workload_record \<Rightarrow> bool" where
  "workload_typed r \<longleftrightarrow>
     versioned (wr_resource_version r) \<and>
     (\<forall>o1. wr_observed r = Some o1 \<longrightarrow>
        generation_get (ob_generation o1) \<le> generation_get (ds_generation (wr_desired r))) \<and>
     (\<forall>g. wr_applied_generation r = Some g \<longrightarrow>
        generation_get g \<le> generation_get (ds_generation (wr_desired r)))"

definition operation_typed :: "operation_record \<Rightarrow> bool" where
  "operation_typed o1 \<longleftrightarrow>
     (or_error o1 \<noteq> None \<longleftrightarrow> or_state o1 = OpFailed) \<and>
     (or_result o1 \<noteq> None \<longrightarrow> or_state o1 = OpSucceeded)"

definition vmm_typed :: "vmm_db \<Rightarrow> bool" where
  "vmm_typed db \<longleftrightarrow>
     distinct (map wr_id (db_workloads db)) \<and> distinct (map or_id (db_operations db)) \<and>
     list_all workload_typed (db_workloads db) \<and> list_all operation_typed (db_operations db)"

section \<open>How records change\<close>

text \<open>
  A workload's record is the same or has a newer version: its owner, labels and creation stay,
  its desired generation does not go back, a change of what is desired carries a newer
  generation and none happens once it is deleted, and its observation is the same or newer.
\<close>

definition observation_forward :: "observation option \<Rightarrow> observation option \<Rightarrow> bool" where
  "observation_forward before after \<longleftrightarrow>
     (case before of
        None \<Rightarrow> True
      | Some o1 \<Rightarrow>
          (case after of
             None \<Rightarrow> False
           | Some o2 \<Rightarrow> o2 = o1 \<or>
               generation_get (ob_generation o1) < generation_get (ob_generation o2) \<or>
               ob_generation o1 = ob_generation o2 \<and> ob_sequence o1 < ob_sequence o2))"

definition workload_forward :: "workload_record \<Rightarrow> workload_record \<Rightarrow> bool" where
  "workload_forward r s \<longleftrightarrow> s = r \<or>
     wr_id s = wr_id r \<and> wr_owner s = wr_owner r \<and> wr_labels s = wr_labels r \<and>
     wr_created_at_millis s = wr_created_at_millis r \<and>
     wr_resource_version r < wr_resource_version s \<and>
     (wr_desired s = wr_desired r \<and> wr_spec s = wr_spec r \<or>
      ds_state (wr_desired r) \<noteq> DDeleted \<and>
      generation_get (ds_generation (wr_desired r)) < generation_get (ds_generation (wr_desired s))) \<and>
     observation_forward (wr_observed r) (wr_observed s)"

text \<open>An operation is the same or further along; what it asks for never changes.\<close>

fun operation_rank :: "operation_state \<Rightarrow> nat" where
  "operation_rank OpPending = 0"
| "operation_rank OpRunning = 1"
| "operation_rank _ = 2"

definition same_request :: "operation_record \<Rightarrow> operation_record \<Rightarrow> bool" where
  "same_request o1 o2 \<longleftrightarrow>
     or_id o2 = or_id o1 \<and> or_owner o2 = or_owner o1 \<and> or_workload_id o2 = or_workload_id o1 \<and>
     or_kind o2 = or_kind o1 \<and> or_generation o2 = or_generation o1 \<and> or_request o2 = or_request o1 \<and>
     or_created_at_millis o2 = or_created_at_millis o1 \<and> or_deadline_millis o2 = or_deadline_millis o1"

definition operation_forward :: "operation_record \<Rightarrow> operation_record \<Rightarrow> bool" where
  "operation_forward o1 o2 \<longleftrightarrow>
     o2 = o1 \<or> same_request o1 o2 \<and> operation_rank (or_state o1) < operation_rank (or_state o2)"

definition forward :: "vmm_db \<Rightarrow> vmm_db \<Rightarrow> bool" where
  "forward d e \<longleftrightarrow>
     (\<forall>i r. find_workload i d = Some r \<longrightarrow> (\<exists>s. find_workload i e = Some s \<and> workload_forward r s)) \<and>
     (\<forall>i o1. find_operation i d = Some o1 \<longrightarrow> (\<exists>o2. find_operation i e = Some o2 \<and> operation_forward o1 o2))"

lemma observation_forward_refl [simp]: "observation_forward x x"
  by (simp add: observation_forward_def split: option.split)

lemma observation_forward_trans:
  "observation_forward x y \<Longrightarrow> observation_forward y z \<Longrightarrow> observation_forward x z"
  by (auto simp: observation_forward_def split: option.splits)

lemma workload_forward_refl [simp]: "workload_forward r r"
  by (simp add: workload_forward_def)

lemma workload_forward_id: "workload_forward r s \<Longrightarrow> wr_id s = wr_id r"
  by (auto simp: workload_forward_def)

lemma workload_forward_trans:
  assumes "workload_forward r s" and "workload_forward s t"
  shows "workload_forward r t"
proof (cases "s = r \<or> t = s")
  case True
  with assms show ?thesis by auto
next
  case False
  with assms observation_forward_trans [of "wr_observed r" "wr_observed s" "wr_observed t"]
  show ?thesis by (auto simp: workload_forward_def)
qed

lemma operation_forward_refl [simp]: "operation_forward r r"
  by (simp add: operation_forward_def)

lemma operation_forward_trans:
  "operation_forward r s \<Longrightarrow> operation_forward s t \<Longrightarrow> operation_forward r t"
  by (auto simp: operation_forward_def same_request_def)

lemma forward_refl [simp]: "forward d d"
  by (simp add: forward_def)

lemma forward_trans: "forward d e \<Longrightarrow> forward e f \<Longrightarrow> forward d f"
  unfolding forward_def using workload_forward_trans operation_forward_trans by meson

section \<open>Total correctness of computations\<close>

text \<open>
  \<open>safe P m Q\<close>: from a well-formed database in which \<open>P\<close> holds, \<open>m\<close> returns, leaves the
  database well formed and further along, and where it succeeds, with \<open>Q\<close>. Assertions are
  \<open>stable\<close>: other processes only move the database forward.
\<close>

definition stable :: "(vmm_db \<Rightarrow> bool) \<Rightarrow> bool" where
  "stable P \<longleftrightarrow> (\<forall>d e. P d \<longrightarrow> forward d e \<longrightarrow> P e)"

definition safe :: "(vmm_db \<Rightarrow> bool) \<Rightarrow> ('a, 'e, 'b) vm \<Rightarrow> ('a \<Rightarrow> vmm_db \<Rightarrow> bool) \<Rightarrow> bool" where
  "safe P m Q \<longleftrightarrow>
     (\<forall>w. vmm_typed (vm_db w) \<longrightarrow> P (vm_db w) \<longrightarrow>
        (\<exists>r v. m w = Some (r, v) \<and> vmm_typed (vm_db v) \<and> forward (vm_db w) (vm_db v) \<and>
           (\<forall>x. r = Ok x \<longrightarrow> Q x (vm_db v))))"

definition good_neighbours :: "'b vmm_env \<Rightarrow> bool" where
  "good_neighbours E \<longleftrightarrow>
     (\<forall>n k d. vmm_typed d \<longrightarrow> vmm_typed (fst (vm_store E n k) d) \<and> forward d (fst (vm_store E n k) d))"

named_theorems safe_rules \<open>rules that reduce \<open>safe\<close> to its parts\<close>

lemma stable_True [safe_rules]: "stable (\<lambda>d. True)"
  by (simp add: stable_def)

lemma stable_conj [safe_rules]: "stable P \<Longrightarrow> stable Q \<Longrightarrow> stable (\<lambda>d. P d \<and> Q d)"
  by (auto simp: stable_def)

lemma safe_weaken:
  assumes "safe P m Q" and "\<And>d. P' d \<Longrightarrow> P d" and "\<And>x d. Q x d \<Longrightarrow> Q' x d"
  shows "safe P' m Q'"
  using assms unfolding safe_def by meson

lemma safe_pure:
  assumes "\<And>d. P d \<Longrightarrow> A" and "A \<Longrightarrow> safe P m Q"
  shows "safe P m Q"
  using assms unfolding safe_def by meson

lemma safe_ok: "(\<And>d. P d \<Longrightarrow> Q x d) \<Longrightarrow> safe P (vm_ok x) Q"
  by (simp add: safe_def vm_lift_def)

lemma safe_done [safe_rules]: "safe P (vm_lift r) (\<lambda>x d. True)"
  by (simp add: safe_def vm_lift_def)

lemma safe_err [safe_rules]: "safe P (vm_lift (Err e)) Q"
  by (simp add: safe_def vm_lift_def)

lemma safe_try:
  assumes "stable P" and "safe P m Q" and "\<And>e. safe P (k (Err e)) R"
    and "\<And>x. safe (\<lambda>d. P d \<and> Q x d) (k (Ok x)) R"
  shows "safe P (vm_try m k) R"
  unfolding safe_def
proof (intro allI impI)
  fix w :: "'a vmm_world"
  assume w: "vmm_typed (vm_db w)" "P (vm_db w)"
  with assms(2) obtain r v where m: "m w = Some (r, v)" "vmm_typed (vm_db v)"
    "forward (vm_db w) (vm_db v)" "\<And>x. r = Ok x \<Longrightarrow> Q x (vm_db v)" unfolding safe_def by blast
  then have p: "P (vm_db v)" using assms(1) w(2) by (auto simp: stable_def)
  have "\<exists>s u. k r v = Some (s, u) \<and> vmm_typed (vm_db u) \<and> forward (vm_db v) (vm_db u) \<and>
      (\<forall>x. s = Ok x \<longrightarrow> R x (vm_db u))"
    using assms(3) [unfolded safe_def] assms(4) [unfolded safe_def] m p by (cases r) auto
  with m(1,3) show "\<exists>s u. vm_try m k w = Some (s, u) \<and> vmm_typed (vm_db u) \<and>
      forward (vm_db w) (vm_db u) \<and> (\<forall>x. s = Ok x \<longrightarrow> R x (vm_db u))"
    using forward_trans by (auto simp: vm_try_def)
qed

lemma safe_bind:
  assumes "stable P" and "safe P m Q" and "\<And>x. safe (\<lambda>d. P d \<and> Q x d) (k x) R"
  shows "safe P (vm_bind m k) R"
  unfolding vm_bind_def by (rule safe_try [OF assms(1,2)]) (simp_all add: safe_err assms(3))

lemma vm_bind_lift [simp]:
  "vm_bind (vm_lift (Ok x)) k = k x" "vm_bind (vm_lift (Err e)) k = vm_lift (Err e)"
  by (simp_all add: fun_eq_iff vm_bind_def vm_try_def vm_lift_def)

lemma safe_if [safe_rules]:
  "(b \<Longrightarrow> safe P m Q) \<Longrightarrow> (\<not> b \<Longrightarrow> safe P n Q) \<Longrightarrow> safe P (if b then m else n) Q"
  by simp

lemma safe_option [safe_rules]:
  "(x = None \<Longrightarrow> safe P m Q) \<Longrightarrow> (\<And>y. x = Some y \<Longrightarrow> safe P (k y) Q) \<Longrightarrow>
   safe P (case x of None \<Rightarrow> m | Some y \<Rightarrow> k y) Q"
  by (cases x) auto

lemma safe_ports [safe_rules]:
  assumes "stable P" and "safe P m Q"
  shows "safe P (vm_ports m) Q"
  unfolding vm_ports_def by (rule safe_try [OF assms]) (auto simp: safe_def vm_lift_def)

lemma safe_call [safe_rules]: "safe P (vm_call f) (\<lambda>x d. True)"
  by (auto simp: safe_def vm_call_def split: prod.split)

lemma safe_now [safe_rules]: "safe P (vm_now E) (\<lambda>x d. True)"
  by (simp add: safe_def vm_now_def)

lemma safe_fresh [safe_rules]: "safe P (vm_fresh E) (\<lambda>x d. True)"
  by (simp add: safe_def vm_fresh_def)

lemma safe_read:
  assumes "good_neighbours E" and "stable P" and "\<And>d. vmm_typed d \<Longrightarrow> P d \<Longrightarrow> Q (f d) d"
  shows "safe P (vm_read E f) Q"
  unfolding safe_def
proof (intro allI impI)
  fix w :: "'a vmm_world"
  assume w: "vmm_typed (vm_db w)" "P (vm_db w)"
  obtain others e where store: "vm_store E (vm_calls w) 0 = (others, e)" by fastforce
  have typed: "vmm_typed (others (vm_db w))" and fwd: "forward (vm_db w) (others (vm_db w))"
    using assms(1) w(1) store by (metis good_neighbours_def fst_conv)+
  have "P (others (vm_db w))" using assms(2) w(2) fwd by (auto simp: stable_def)
  with assms(3) typed fwd show "\<exists>r v. vm_read E f w = Some (r, v) \<and> vmm_typed (vm_db v) \<and>
      forward (vm_db w) (vm_db v) \<and> (\<forall>x. r = Ok x \<longrightarrow> Q x (vm_db v))"
    by (auto simp: vm_read_def store Let_def auto_run_def split: trx_end.splits)
qed

lemma safe_write:
  assumes "good_neighbours E" and "stable P"
    and step: "\<And>d v e. vmm_typed d \<Longrightarrow> P d \<Longrightarrow> act d = Ok (Ok v, e) \<Longrightarrow>
      vmm_typed e \<and> forward d e \<and> Q v e"
  shows "safe P (vm_write E act) Q"
  unfolding safe_def
proof (intro allI impI)
  fix w :: "'a vmm_world"
  assume w: "vmm_typed (vm_db w)" "P (vm_db w)"
  let ?env = "vm_store E (vm_calls w)"
  obtain r e where run: "decide ?env act (vm_db w) = (r, e)" by fastforce
  have good: "vmm_typed d \<and> forward (vm_db w) d \<and> P d"
    if "reached (map ?env [0..<MAX_CAS_ATTEMPTS]) (vm_db w) d" for d
    using that
  proof (induction rule: reached.induct)
    case (reached_others mid others fin)
    then obtain k where "?env k = (others, fin)" by auto
    then have "vmm_typed (others mid) \<and> forward mid (others mid)"
      using assms(1) reached_others.IH by (metis good_neighbours_def fst_conv)
    with reached_others.IH assms(2) show ?case using forward_trans by (auto simp: stable_def)
  qed (use w in simp)
  have "vmm_typed e \<and> forward (vm_db w) e \<and> (\<forall>x. r = Ok x \<longrightarrow> Q x e)"
    using decide_attempts_atomic [OF run [unfolded decide_def]]
  proof (elim disjE exE conjE)
    assume "reached (map ?env [0..<MAX_CAS_ATTEMPTS]) (vm_db w) e" "\<forall>v. r \<noteq> Ok v"
    with good show ?thesis by blast
  next
    fix mid v
    assume mid: "reached (map ?env [0..<MAX_CAS_ATTEMPTS]) (vm_db w) mid" "act mid = Ok (Ok v, e)"
      and r: "\<forall>x. r = Ok x \<longrightarrow> x = v"
    note g = good [OF mid(1)]
    from step [OF conjunct1 [OF g] _ mid(2)] g have s: "vmm_typed e \<and> forward mid e \<and> Q v e" by blast
    from g s have "forward (vm_db w) e" by (blast intro: forward_trans)
    with s r show ?thesis by blast
  qed
  with run show "\<exists>r v. vm_write E act w = Some (r, v) \<and> vmm_typed (vm_db v) \<and>
      forward (vm_db w) (vm_db v) \<and> (\<forall>x. r = Ok x \<longrightarrow> Q x (vm_db v))"
    by (simp add: vm_write_def)
qed

section \<open>The stores\<close>

text \<open>
  \<open>seen r\<close> and \<open>known_operation o\<close>: the record was read, so what is stored now is it or came
  from it. A compare-and-set that finds the version, or the state, of the record read finds
  that very record.
\<close>

definition seen :: "workload_record \<Rightarrow> vmm_db \<Rightarrow> bool" where
  "seen r d \<longleftrightarrow> workload_typed r \<and> (\<exists>s. find_workload (wr_id r) d = Some s \<and> workload_forward r s)"

definition known_operation :: "operation_record \<Rightarrow> vmm_db \<Rightarrow> bool" where
  "known_operation o1 d \<longleftrightarrow>
     operation_typed o1 \<and> (\<exists>o2. find_operation (or_id o1) d = Some o2 \<and> operation_forward o1 o2)"

lemma stable_seen [safe_rules]: "stable (seen r)"
  unfolding stable_def seen_def forward_def using workload_forward_trans by meson

lemma stable_known [safe_rules]: "stable (known_operation o1)"
  unfolding stable_def known_operation_def forward_def using operation_forward_trans by meson

lemma find_workload_Some: "find_workload i d = Some r \<Longrightarrow> r \<in> set (db_workloads d) \<and> wr_id r = i"
  by (auto simp: find_workload_def find_Some_iff)

lemma find_operation_Some: "find_operation i d = Some o1 \<Longrightarrow> o1 \<in> set (db_operations d) \<and> or_id o1 = i"
  by (auto simp: find_operation_def find_Some_iff)

lemma find_by_key:
  "distinct (map key xs) \<Longrightarrow> x \<in> set xs \<Longrightarrow> List.find (\<lambda>y. key y = key x) xs = Some x"
  by (induction xs) auto

lemma find_append_key:
  "List.find P (xs @ ys) = (case List.find P xs of Some x \<Rightarrow> Some x | None \<Rightarrow> List.find P ys)"
  by (induction xs) auto

lemma find_replaced:
  "List.find (\<lambda>r. key r = i) (map (\<lambda>r. if key r = key new then new else r) xs) =
     (if i = key new then map_option (\<lambda>_. new) (List.find (\<lambda>r. key r = i) xs)
      else List.find (\<lambda>r. key r = i) xs)"
  by (induction xs) auto

lemma map_key_replaced: "map key (map (\<lambda>r. if key r = key new then new else r) xs) = map key xs"
  by (induction xs) auto

lemma typed_workload: "vmm_typed d \<Longrightarrow> find_workload i d = Some r \<Longrightarrow> workload_typed r"
  using find_workload_Some [of i d r] by (auto simp: vmm_typed_def list_all_iff)

lemma typed_operation: "vmm_typed d \<Longrightarrow> find_operation i d = Some o1 \<Longrightarrow> operation_typed o1"
  using find_operation_Some [of i d o1] by (auto simp: vmm_typed_def list_all_iff)

lemma safe_load_now:
  assumes "good_neighbours E" and "stable P"
  shows "safe P (load E owner i)
    (\<lambda>r d. P d \<and> seen r d \<and> find_workload i d = Some r \<and> wr_id r = i \<and> wr_owner r = owner)"
proof -
  have read: "safe P (vm_ports (vm_read E (stored_workload owner i))) (\<lambda>x d. \<forall>r. x = Some r \<longrightarrow>
      P d \<and> seen r d \<and> find_workload i d = Some r \<and> wr_id r = i \<and> wr_owner r = owner)"
    by (rule safe_ports [OF assms(2) safe_read [OF assms]])
      (auto simp: stored_workload_def seen_def typed_workload find_workload_Some split: option.splits if_splits)
  show ?thesis unfolding load_def
    by (rule safe_bind [OF assms(2) read]) (auto intro!: safe_option safe_err safe_ok)
qed

lemma safe_load [safe_rules]:
  assumes "good_neighbours E" and "stable P"
  shows "safe P (load E owner i) (\<lambda>r d. seen r d \<and> wr_id r = i \<and> wr_owner r = owner)"
  by (rule safe_weaken [OF safe_load_now [OF assms]]) auto

lemma safe_operation [safe_rules]:
  assumes "good_neighbours E" and "stable P"
  shows "safe P (operation E owner i) (\<lambda>o1 d. known_operation o1 d \<and> or_id o1 = i \<and> or_owner o1 = owner)"
proof -
  have read: "safe P (vm_ports (vm_read E (stored_operation owner i)))
      (\<lambda>x d. \<forall>o1. x = Some o1 \<longrightarrow> known_operation o1 d \<and> or_id o1 = i \<and> or_owner o1 = owner)"
    by (rule safe_ports [OF assms(2) safe_read [OF assms]])
      (auto simp: stored_operation_def known_operation_def typed_operation find_operation_Some
        split: option.splits if_splits)
  show ?thesis unfolding operation_def
    by (rule safe_bind [OF assms(2) read]) (auto intro!: safe_option safe_err safe_ok)
qed

lemma insert_operation_forward:
  assumes "vmm_typed d" and "operation_typed new" and "insert_operation_op new d = Ok (Ok v, e)"
  shows "vmm_typed e \<and> forward d e \<and> known_operation new e"
proof -
  from assms(3) have none: "find_operation (or_id new) d = None"
    and e: "e = d\<lparr>db_operations := db_operations d @ [new]\<rparr>"
    by (auto simp: insert_operation_op_def split: if_splits)
  have "or_id new \<notin> or_id ` set (db_operations d)"
    using none by (auto simp: find_operation_def find_None_iff)
  with assms(1,2) e none show ?thesis
    by (auto simp: vmm_typed_def forward_def known_operation_def find_operation_def find_workload_def
        find_append_key split: option.split)
qed

lemma insert_workload_forward:
  assumes "vmm_typed d" and "workload_typed new" and "insert_workload_op new d = Ok (Ok v, e)"
  shows "vmm_typed e \<and> forward d e \<and> seen new e"
proof -
  from assms(3) have none: "find_workload (wr_id new) d = None"
    and e: "e = d\<lparr>db_workloads := db_workloads d @ [new]\<rparr>"
    by (auto simp: insert_workload_op_def result_simps split: if_splits)
  have "wr_id new \<notin> wr_id ` set (db_workloads d)"
    using none by (auto simp: find_workload_def find_None_iff)
  with assms(1,2) e none show ?thesis
    by (auto simp: vmm_typed_def forward_def seen_def find_operation_def find_workload_def
        find_append_key split: option.split)
qed

lemma append_event_forward:
  assumes "vmm_typed d" and "append_event_op ev d = Ok (r, e)"
  shows "vmm_typed e \<and> forward d e"
  using assms
  by (auto simp: append_event_op_def vmm_typed_def forward_def find_workload_def find_operation_def
      Let_def result_simps)

text \<open>The record found by a compare-and-set is the one read.\<close>

lemma replace_operation_forward:
  assumes d: "vmm_typed d" "known_operation old d"
    and new: "operation_typed new" "same_request old new" "operation_rank (or_state old) < operation_rank (or_state new)"
    and run: "replace_operation_op new (or_state old) d = Ok (Ok v, e)"
  shows "vmm_typed e \<and> forward d e \<and> known_operation new e"
proof -
  from run obtain cur where cur: "find_operation (or_id new) d = Some cur" "or_state cur = or_state old"
    and e: "e = d\<lparr>db_operations := map (\<lambda>r. if or_id r = or_id new then new else r) (db_operations d)\<rparr>"
    by (auto simp: replace_operation_op_def split: option.splits if_splits)
  have "or_id new = or_id old" using new(2) by (simp add: same_request_def)
  with d(2) cur have "operation_forward old cur" by (auto simp: known_operation_def)
  with cur(2) have "cur = old" by (auto simp: operation_forward_def)
  with new have fwd: "operation_forward cur new" by (simp add: operation_forward_def)
  have find: "find_operation i e = (if i = or_id new then Some new else find_operation i d)" for i
    using cur(1) by (simp add: e find_operation_def find_replaced)
  have "distinct (map or_id (db_operations e))"
    using d(1) by (simp add: e vmm_typed_def map_key_replaced del: map_map)
  then have "vmm_typed e" using d(1) new(1) by (auto simp: e vmm_typed_def list_all_iff)
  moreover have "forward d e"
    using fwd cur(1) unfolding forward_def find by (auto simp: e find_workload_def)
  ultimately show ?thesis using new(1) find by (auto simp: known_operation_def)
qed

lemma replace_workload_forward:
  assumes d: "vmm_typed d" "seen old d"
    and new: "versioned (wr_resource_version new) \<Longrightarrow> workload_typed new \<and> workload_forward old new"
    and expected: "i64_of_u64 (wr_resource_version old) = Some expected"
    and run: "replace_workload_op new expected d = Ok (Ok v, e)"
  shows "vmm_typed e \<and> forward d e \<and> seen new e"
proof -
  from run obtain cur where cur: "find_workload (wr_id new) d = Some cur"
      "signed_version (wr_resource_version cur) = Ok expected"
      "\<exists>v. signed_version (wr_resource_version new) = Ok v"
    and e: "e = d\<lparr>db_workloads := map (\<lambda>r. if wr_id r = wr_id new then new else r) (db_workloads d)\<rparr>"
    by (auto simp: replace_workload_op_def result_simps split: option.splits if_splits)
  have same: "wr_resource_version cur = wr_resource_version old"
    using cur(2) expected by (simp add: signed_version_def result_simps i64_of_u64_Some_iff word_uint_eq_iff)
  have "versioned (wr_resource_version new)"
    using cur(3) by (auto simp: signed_version_def result_simps i64_of_u64_def checked_i64_def versioned_def
        split: if_splits)
  then have new: "workload_typed new" "workload_forward old new" using new by auto
  then have "wr_id new = wr_id old" by (simp add: workload_forward_id)
  with d(2) cur(1) have "workload_forward old cur" by (auto simp: seen_def)
  with same have "cur = old" by (auto simp: workload_forward_def)
  with new have fwd: "workload_forward cur new" by simp
  have find: "find_workload i e = (if i = wr_id new then Some new else find_workload i d)" for i
    using cur(1) by (simp add: e find_workload_def find_replaced)
  have "distinct (map wr_id (db_workloads e))"
    using d(1) by (simp add: e vmm_typed_def map_key_replaced del: map_map)
  then have "vmm_typed e" using d(1) new(1) by (auto simp: e vmm_typed_def list_all_iff)
  moreover have "forward d e"
    using fwd cur(1) unfolding forward_def find by (auto simp: e find_operation_def)
  ultimately show ?thesis using new(1) find by (auto simp: seen_def)
qed

section \<open>Steps of the service\<close>

lemma safe_event [safe_rules]:
  assumes "good_neighbours E" and "stable P"
  shows "safe P (event E owner i kind obs about) (\<lambda>x d. True)"
proof -
  have append: "safe P' (vm_write E (append_event_op ev)) (\<lambda>x d. True)" if "stable P'" for P' ev
    using append_event_forward by (intro safe_write [OF assms(1) that]) blast
  show ?thesis unfolding event_def
    by (intro safe_bind [OF assms(2) safe_now] safe_bind [OF _ safe_ports [OF _ append]]
        safe_done safe_rules assms(2))
qed

lemma safe_operation_event [safe_rules]:
  "good_neighbours E \<Longrightarrow> stable P \<Longrightarrow> safe P (operation_event E o1) (\<lambda>x d. True)"
  unfolding operation_event_def by (intro safe_rules)

lemma safe_new_operation [safe_rules]:
  assumes "good_neighbours E" and "stable P"
  shows "safe P (new_operation E owner i kind g req deadline) (\<lambda>x d. True)"
proof -
  have insert: "safe P' (vm_write E (insert_operation_op o1)) (\<lambda>x d. True)"
    if "stable P'" "operation_typed o1" for P' o1
    using insert_operation_forward [OF _ that(2)] by (intro safe_write [OF assms(1) that(1)]) blast
  show ?thesis unfolding new_operation_def Let_def
    by (intro safe_bind [OF _ safe_now] safe_bind [OF _ safe_fresh] safe_bind [OF _ safe_ports [OF _ insert]]
        safe_bind [OF _ safe_operation_event [OF assms(1)]] safe_rules assms(2))
      (simp add: operation_typed_def)
qed

lemma versioned_next:
  assumes "versioned v"
  shows "v < v + 1"
proof -
  from assms have "uint v + 1 < 2 ^ 64" by (simp add: versioned_def in_i64_def)
  then have "uint (v + 1) = uint v + 1" by (simp add: uint_word_ariths mod_pos_pos_trivial)
  then show ?thesis by (simp add: word_less_def)
qed

lemma safe_save:
  assumes "good_neighbours E" and "stable P" and "\<And>d. P d \<Longrightarrow> seen old d"
    and change: "\<And>now. workload_typed old \<Longrightarrow> versioned (wr_resource_version old + 1) \<Longrightarrow>
      workload_typed (record\<lparr>wr_resource_version := wr_resource_version old + 1, wr_updated_at_millis := now\<rparr>) \<and>
      workload_forward old (record\<lparr>wr_resource_version := wr_resource_version old + 1, wr_updated_at_millis := now\<rparr>)"
  shows "safe P (save E record (wr_resource_version old)) (\<lambda>s d. seen s d)"
proof -
  have typed: "workload_typed old" if "P d" for d using assms(3) [OF that] by (simp add: seen_def)
  have stored: "safe P (replace_workload E new (wr_resource_version old)) (\<lambda>_ d. seen new d)"
    if new: "new = record\<lparr>wr_resource_version := wr_resource_version old + 1, wr_updated_at_millis := now\<rparr>" for new now
  proof (cases "i64_of_u64 (wr_resource_version old)")
    case None
    then show ?thesis by (simp add: replace_workload_def safe_err)
  next
    case (Some expected)
    have "vmm_typed e \<and> forward d e \<and> seen new e"
      if "vmm_typed d" "P d" "replace_workload_op new expected d = Ok (Ok v, e)" for d v e
      using replace_workload_forward [OF that(1) assms(3) [OF that(2)] _ Some that(3)]
        change [OF typed [OF that(2)], of now] by (simp add: new)
    then have "safe P (vm_write E (replace_workload_op new expected)) (\<lambda>_ d. seen new d)"
      by (intro safe_write [OF assms(1,2)]) blast
    with Some show ?thesis by (simp add: replace_workload_def)
  qed
  show ?thesis unfolding save_def Let_def
  proof (rule safe_bind [OF assms(2) safe_now], rule safe_try [where Q = "\<lambda>_ d. seen _ d"])
    fix now
    show "stable (\<lambda>d. P d \<and> True)" using assms(2) by simp
    show "safe (\<lambda>d. P d \<and> True) (replace_workload E
        (record\<lparr>wr_resource_version := wr_resource_version old + 1, wr_updated_at_millis := now\<rparr>)
        (wr_resource_version old)) (\<lambda>_ d. seen
        (record\<lparr>wr_resource_version := wr_resource_version old + 1, wr_updated_at_millis := now\<rparr>) d)"
      using stored [OF refl] by simp
  qed (auto intro: safe_ok safe_err split: port_error.split)
qed

section \<open>The loops end\<close>

text \<open>
  The pages of a workload's operations go back in age, and an operation's age never changes;
  the pages of all workloads go up in key. Both orders are finite.
\<close>

lemma safe_ex: "(\<And>a. safe (P a) m Q) \<Longrightarrow> safe (\<lambda>d. \<exists>a. P a d) m Q"
  unfolding safe_def by blast

lemma page_of_next:
  assumes "snd (page_of key limit items) = Some c"
  shows "\<exists>x \<in> set items. c = key x"
proof -
  let ?p = "take (max limit 1) items"
  from assms have "c = key (last ?p)" "?p \<noteq> []"
    by (auto simp: page_of_def Let_def split: if_splits)
  moreover from this(2) have "last ?p \<in> set items" by (meson in_set_takeD last_in_set)
  ultimately show ?thesis by blast
qed

lemma wf_age: "wf {(a :: i64 \<times> uuid, b). a < b}"
proof (rule wf_subset [OF wf_inv_image [OF wf_lex_prod [OF wf_less_than wf_less_than]]], clarify)
  fix t u :: i64 and x y :: uuid
  assume "(t, x) < (u, y)"
  moreover have "0 \<le> int_of t + 9223372036854775808" "0 \<le> int_of u + 9223372036854775808"
    using int_of_bounds [of t] int_of_bounds [of u] by auto
  ultimately show "((t, x), (u, y)) \<in> inv_image (less_than <*lex*> less_than)
      (\<lambda>a. (nat (int_of (fst a) + 9223372036854775808), unat (snd a)))"
    by (auto simp: less_prod_def i64_less_iff i64_le_iff word_less_nat_alt)
qed

lemma operations_page_next:
  assumes "snd (operations_page owner i state cursor limit d) = Some c"
  shows "\<exists>o1 \<in> set (db_operations d). or_id o1 = c \<and>
    (\<forall>b o2. cursor = Some b \<longrightarrow> find_operation b d = Some o2 \<longrightarrow> age o1 < age o2)"
proof -
  have pick: "\<exists>x \<in> set rows. or_id x = c"
    if "snd (page_of or_id limit (take n (rev (sort_key age rows)))) = Some c" for n rows
  proof -
    from page_of_next [OF that] obtain x where "x \<in> set (take n (rev (sort_key age rows)))" "c = or_id x"
      by blast
    moreover from in_set_takeD [OF this(1)] have "x \<in> set rows" by simp
    ultimately show ?thesis by blast
  qed
  show ?thesis
  proof (cases cursor)
    case None
    with assms pick show ?thesis by (fastforce simp: operations_page_def Let_def)
  next
    case (Some b)
    show ?thesis
    proof (cases "find_operation b d")
      case None
      with assms Some pick [of _ "[]"] show ?thesis by (simp add: operations_page_def Let_def)
    next
      case (Some final)
      with assms \<open>cursor = Some b\<close> pick show ?thesis
        by (simp only: operations_page_def Let_def option.case) fastforce
    qed
  qed
qed

lemma operation_pages_bind:
  "operation_pages E owner i g cursor =
     vm_bind (vm_ports (vm_read E (operations_page owner (Some i) None cursor PAGE))) (\<lambda>page.
       case List.find (\<lambda>o1. or_generation o1 = Some g) (fst page) of
         Some found \<Rightarrow> vm_ok found
       | None \<Rightarrow>
           (case snd page of
              Some c \<Rightarrow> operation_pages E owner i g (Some c)
            | None \<Rightarrow> vm_err VNotFound))"
  by (rule ext, subst operation_pages.simps)
    (simp add: vm_bind_def vm_try_def vm_lift_def split_def split: option.split sum.split bind_splits)

lemma operation_pages_step:
  assumes "good_neighbours E" and "stable P"
    and next_page: "\<And>d o1. vmm_typed d \<Longrightarrow> P d \<Longrightarrow> o1 \<in> set (db_operations d) \<Longrightarrow>
      (\<forall>b o2. cursor = Some b \<longrightarrow> find_operation b d = Some o2 \<longrightarrow> age o1 < age o2) \<Longrightarrow> R (or_id o1) d"
    and rest: "\<And>c. safe (R c) (operation_pages E owner i g (Some c)) (\<lambda>x d. True)"
  shows "safe P (operation_pages E owner i g cursor) (\<lambda>x d. True)"
proof -
  have read: "safe P (vm_ports (vm_read E (operations_page owner (Some i) None cursor PAGE)))
      (\<lambda>page d. \<forall>c. snd page = Some c \<longrightarrow> R c d)"
    using operations_page_next next_page
    by (intro safe_ports [OF assms(2) safe_read [OF assms(1,2)]]) blast
  show ?thesis
    by (subst operation_pages_bind, rule safe_bind [OF assms(2) read], intro safe_rules)
      (auto intro: safe_weaken [OF rest])
qed

lemma safe_operation_pages_at:
  assumes "good_neighbours E"
  shows "safe (\<lambda>d. \<exists>o1. find_operation c d = Some o1 \<and> age o1 = at)
    (operation_pages E owner i g (Some c)) (\<lambda>x d. True)"
proof (induction at arbitrary: c rule: wf_induct_rule [OF wf_age])
  case (1 at)
  have "stable (\<lambda>d. \<exists>o1. find_operation c d = Some o1 \<and> age o1 = at)"
    by (fastforce simp: stable_def forward_def operation_forward_def same_request_def)
  then show ?case
  proof (rule operation_pages_step [OF assms,
        where R = "\<lambda>c d. \<exists>a. \<exists>o1. a < at \<and> find_operation c d = Some o1 \<and> age o1 = a"])
    fix d o1
    assume "vmm_typed d" "\<exists>o1. find_operation c d = Some o1 \<and> age o1 = at" "o1 \<in> set (db_operations d)"
      "\<forall>b o2. Some c = Some b \<longrightarrow> find_operation b d = Some o2 \<longrightarrow> age o1 < age o2"
    then show "\<exists>a o2. a < at \<and> find_operation (or_id o1) d = Some o2 \<and> age o2 = a"
      using find_by_key [of or_id "db_operations d" o1] by (auto simp: vmm_typed_def find_operation_def)
  next
    fix c'
    show "safe (\<lambda>d. \<exists>a. \<exists>o1. a < at \<and> find_operation c' d = Some o1 \<and> age o1 = a)
        (operation_pages E owner i g (Some c')) (\<lambda>x d. True)"
    proof (rule safe_ex)
      fix a
      show "safe (\<lambda>d. \<exists>o1. a < at \<and> find_operation c' d = Some o1 \<and> age o1 = a)
          (operation_pages E owner i g (Some c')) (\<lambda>x d. True)"
        by (rule safe_pure [of _ "a < at"], blast, rule safe_weaken [OF 1]) auto
    qed
  qed
qed

lemma safe_operation_for [safe_rules]:
  assumes "good_neighbours E" and "stable P"
  shows "safe P (operation_for E owner i g) (\<lambda>x d. True)"
proof -
  have "safe (\<lambda>d. \<exists>a. \<exists>o1. find_operation c d = Some o1 \<and> age o1 = a)
      (operation_pages E owner i g (Some c)) (\<lambda>x d. True)" for c
    by (rule safe_ex) (rule safe_operation_pages_at [OF assms(1)])
  then show ?thesis unfolding operation_for_def
    by (intro operation_pages_step [OF assms,
          where R = "\<lambda>c d. \<exists>a. \<exists>o1. find_operation c d = Some o1 \<and> age o1 = a"])
      (auto simp: vmm_typed_def find_operation_def find_by_key)
qed

lemma all_workloads_page_next:
  assumes "snd (all_workloads_page cursor limit d) = Some c" and "cursor = Some b"
  shows "workload_uuid b < workload_uuid c"
proof -
  from page_of_next [OF assms(1) [unfolded all_workloads_page_def]] obtain r where r: "c = wr_id r"
    "r \<in> set (take (max limit 1 + 1) (sort_key (\<lambda>r. workload_uuid (wr_id r))
      (filter (\<lambda>r. case cursor of Some c \<Rightarrow> workload_uuid c < workload_uuid (wr_id r) | None \<Rightarrow> True)
        (db_workloads d))))" by blast
  from in_set_takeD [OF r(2)] assms(2) r(1) show ?thesis by simp
qed

lemma safe_each [safe_rules]:
  assumes "stable P" and "\<And>acc x. safe P (visit acc x) (\<lambda>y d. True)"
  shows "safe P (vm_each visit acc xs) (\<lambda>y d. True)"
proof (induction xs arbitrary: acc)
  case (Cons x xs)
  then show ?case
    by (simp, intro safe_bind [OF assms]) simp
qed (simp add: safe_done)

lemma workload_pages_bind:
  "workload_pages E visit cursor acc =
     vm_bind (vm_ports (vm_read E (all_workloads_page cursor PAGE))) (\<lambda>page.
     vm_bind (vm_each visit acc (fst page)) (\<lambda>acc.
       case snd page of
         Some c \<Rightarrow> workload_pages E visit (Some c) acc
       | None \<Rightarrow> vm_ok acc))"
  by (rule ext, subst workload_pages.simps)
    (simp add: vm_bind_def vm_try_def vm_lift_def split_def split: option.split sum.split bind_splits)

lemma workload_pages_step:
  assumes "good_neighbours E" and "stable P" and "\<And>acc r. safe P (visit acc r) (\<lambda>x d. True)"
    and rest: "\<And>c acc. (\<forall>b. cursor = Some b \<longrightarrow> workload_uuid b < workload_uuid c) \<Longrightarrow>
      safe P (workload_pages E visit (Some c) acc) (\<lambda>x d. True)"
  shows "safe P (workload_pages E visit cursor acc) (\<lambda>x d. True)"
proof -
  have read: "safe P (vm_ports (vm_read E (all_workloads_page cursor PAGE)))
      (\<lambda>page d. \<forall>b c. cursor = Some b \<longrightarrow> snd page = Some c \<longrightarrow> workload_uuid b < workload_uuid c)"
    using all_workloads_page_next by (intro safe_ports [OF assms(2) safe_read [OF assms(1,2)]]) blast
  have visits: "safe P (vm_each visit acc xs) (\<lambda>x d. True)" for acc xs
    by (rule safe_each [OF assms(2,3)])
  have tail: "safe P (vm_bind (vm_each visit acc (fst page)) (\<lambda>acc.
      case snd page of Some c \<Rightarrow> workload_pages E visit (Some c) acc | None \<Rightarrow> vm_ok acc)) (\<lambda>x d. True)"
    if "\<forall>b c. cursor = Some b \<longrightarrow> snd page = Some c \<longrightarrow> workload_uuid b < workload_uuid c" for page acc
    by (rule safe_bind [OF assms(2) visits], intro safe_rules) (use rest that in auto)
  show ?thesis
    by (subst workload_pages_bind, rule safe_bind [OF assms(2) read], rule safe_pure, erule conjunct2)
      (rule safe_weaken [OF tail], auto)
qed

lemma safe_each_workload [safe_rules]:
  assumes "good_neighbours E" and "stable P" and "\<And>acc r. safe P (visit acc r) (\<lambda>x d. True)"
  shows "safe P (each_workload E visit acc) (\<lambda>x d. True)"
proof -
  have "safe P (workload_pages E visit (Some c) acc) (\<lambda>x d. True)" for c acc
  proof (induction "2 ^ 128 - unat (workload_uuid c)" arbitrary: c acc rule: less_induct)
    case less
    show ?case
    proof (rule workload_pages_step [OF assms])
      fix c' acc
      assume "\<forall>b. Some c = Some b \<longrightarrow> workload_uuid b < workload_uuid c'"
      then have "unat (workload_uuid c) < unat (workload_uuid c')" by (simp add: word_less_nat_alt)
      moreover have "unat (workload_uuid c') < 2 ^ 128" using unsigned_less [of "workload_uuid c'"] by simp
      ultimately show "safe P (workload_pages E visit (Some c') acc) (\<lambda>x d. True)"
        by (intro less) linarith
    qed
  qed
  then show ?thesis unfolding each_workload_def by (rule workload_pages_step [OF assms])
qed

section \<open>Every request is safe\<close>

lemma safe_freshness:
  assumes "good_neighbours E" and "stable P"
  shows "safe P (freshness E owner r g)
    (\<lambda>x d. x = None \<longrightarrow> generation_get (ds_generation (wr_desired r)) < generation_get g)"
proof (cases "command_freshness (Some (ds_generation (wr_desired r))) g")
  case FreshApply
  then have "generation_get (ds_generation (wr_desired r)) < generation_get g"
    by (simp add: command_freshness_apply)
  then show ?thesis unfolding freshness_def FreshApply command_freshness.case by (intro safe_ok) simp
next
  case FreshReplay
  show ?thesis unfolding freshness_def FreshReplay command_freshness.case
    by (rule safe_bind [OF assms(2) safe_operation_for [OF assms]]) (rule safe_ok, simp)
next
  case FreshStale
  show ?thesis unfolding freshness_def FreshStale command_freshness.case by (rule safe_err)
qed

lemma safe_runtime [safe_rules]:
  "stable P \<Longrightarrow> safe P (runtime_of E key) (\<lambda>x d. True)"
  unfolding runtime_of_def by (intro safe_bind [OF _ safe_ports [OF _ safe_call]] safe_rules)

text \<open>A change of what is desired, under a newer generation.\<close>

lemma desired_change:
  assumes "workload_typed old" and "versioned (wr_resource_version old + 1)"
    and "ds_state (wr_desired old) \<noteq> DDeleted"
    and "generation_get (ds_generation (wr_desired old)) < generation_get (ds_generation desired)"
    and "new = old\<lparr>wr_spec := spec, wr_desired := desired,
      wr_resource_version := wr_resource_version old + 1, wr_updated_at_millis := now\<rparr>"
  shows "workload_typed new \<and> workload_forward old new"
proof
  have below: "x \<le> generation_get (ds_generation desired)"
    if "x \<le> generation_get (ds_generation (wr_desired old))" for x
    using that assms(4) by simp
  with assms(1,2) show "workload_typed new" by (simp add: assms(5) workload_typed_def)
  have "versioned (wr_resource_version old)" using assms(1) by (simp add: workload_typed_def)
  from versioned_next [OF this] assms(3,4) show "workload_forward old new"
    by (simp add: assms(5) workload_forward_def)
qed

lemma safe_save_desired:
  assumes "good_neighbours E" and "stable P" and "\<And>d. P d \<Longrightarrow> seen old d"
    and "ds_state (wr_desired old) \<noteq> DDeleted"
    and "generation_get (ds_generation (wr_desired old)) < generation_get (ds_generation desired)"
  shows "safe P (save E (old\<lparr>wr_spec := spec, wr_desired := desired\<rparr>) (wr_resource_version old)) (\<lambda>s d. seen s d)"
  by (rule safe_save [OF assms(1,2,3)], assumption, rule desired_change [OF _ _ assms(4,5)]) simp_all

text \<open>What \<open>command\<close>, \<open>update_spec\<close> and \<open>restore\<close> share: read the record, then apply a newer generation.\<close>

lemma safe_newer_generation:
  assumes "good_neighbours E" and "stable P"
    and apply_change: "\<And>rc P'. stable P' \<Longrightarrow> (\<And>d. P' d \<Longrightarrow> seen rc d) \<Longrightarrow>
      generation_get (ds_generation (wr_desired rc)) < generation_get g \<Longrightarrow>
      safe P' (k rc) (\<lambda>x d. True)"
  shows "safe P (vm_bind (load E owner i) (\<lambda>rc.
    vm_bind (freshness E owner rc g) (\<lambda>replay.
      case replay of Some o1 \<Rightarrow> vm_ok o1 | None \<Rightarrow> k rc))) (\<lambda>x d. True)"
proof (rule safe_bind [OF assms(2) safe_load [OF assms(1,2)]])
  fix rc
  let ?P = "\<lambda>d. P d \<and> seen rc d \<and> wr_id rc = i \<and> wr_owner rc = owner"
  have st: "stable ?P" using assms(2) stable_seen [of rc] by (auto simp: stable_def)
  show "safe ?P (vm_bind (freshness E owner rc g) (\<lambda>replay.
      case replay of Some o1 \<Rightarrow> vm_ok o1 | None \<Rightarrow> k rc)) (\<lambda>x d. True)"
  proof (rule safe_bind [OF st safe_freshness [OF assms(1) st]], intro safe_rules)
    fix replay :: "operation_record option"
    assume "replay = None"
    show "safe (\<lambda>d. ?P d \<and> (replay = None \<longrightarrow>
        generation_get (ds_generation (wr_desired rc)) < generation_get g)) (k rc) (\<lambda>x d. True)"
      by (rule safe_pure [where A = "generation_get (ds_generation (wr_desired rc)) < generation_get g"])
        (use \<open>replay = None\<close> in \<open>auto intro!: safe_weaken [OF apply_change [OF st]]\<close>)
  qed
qed

lemma safe_rule:
  assumes "stable P" and "\<And>x. r = Ok x \<Longrightarrow> safe P (k x) R"
  shows "safe P (vm_bind (vm_lift r) k) R"
  using assms by (cases r) (simp_all add: safe_def vm_bind_def vm_try_def vm_lift_def)

lemma safe_then:
  assumes "stable P" and "safe P m (\<lambda>x d. True)" and "\<And>x. safe P (k x) R"
  shows "safe P (vm_bind m k) R"
  by (rule safe_bind [OF assms(1,2)]) (simp add: assms(3))

lemma safe_save_then:
  assumes "stable P" and "safe P (save E r v) (\<lambda>s d. seen s d)" and "good_neighbours E"
  shows "safe P (vm_bind (save E r v) (\<lambda>_. new_operation E owner i kind g req deadline)) (\<lambda>x d. True)"
  using assms by (intro safe_then safe_new_operation) (auto intro: safe_weaken)

lemma safe_command:
  assumes "good_neighbours E" and "stable P"
  shows "safe P (command E owner i c g if_match deadline) (\<lambda>x d. True)"
  unfolding command_def
proof (rule safe_newer_generation [OF assms])
  fix rc :: workload_record and P'
  assume st: "stable P'" and old: "\<And>d. P' d \<Longrightarrow> seen rc d"
    and newer: "generation_get (ds_generation (wr_desired rc)) < generation_get g"
  have change: "safe P' (vm_bind (save E
      (rc\<lparr>wr_desired := \<lparr>ds_state = command_target c, ds_generation = g\<rparr>\<rparr>) (wr_resource_version rc))
      (\<lambda>_. new_operation E owner (Some i) (command_kind c) (Some g) None deadline)) (\<lambda>x d. True)"
    if "ds_state (wr_desired rc) \<noteq> DDeleted"
    using safe_save_desired [OF assms(1) st old that, where spec = "wr_spec rc"
        and desired = "\<lparr>ds_state = command_target c, ds_generation = g\<rparr>"] newer
    by (intro safe_save_then [OF st _ assms(1)]) simp
  show "safe P' (vm_bind (vm_lift (check_version rc if_match)) (\<lambda>_.
      if c = CResume \<and> ds_state (wr_desired rc) \<noteq> DPaused then vm_err VInvalidTransition
      else vm_bind (vm_rule (desired_transition (ds_state (wr_desired rc)) (command_target c))) (\<lambda>_.
        vm_bind (runtime_of E (ws_runtime (wr_spec rc))) (\<lambda>runtime.
        vm_bind (vm_rule (check_capability runtime (command_operation c))) (\<lambda>_.
        vm_bind (save E (rc\<lparr>wr_desired := \<lparr>ds_state = command_target c, ds_generation = g\<rparr>\<rparr>)
          (wr_resource_version rc)) (\<lambda>_.
        new_operation E owner (Some i) (command_kind c) (Some g) None deadline)))))) (\<lambda>x d. True)"
    by (intro safe_rule [OF st] safe_if safe_err safe_then [OF st safe_runtime [OF st]] change)
      (auto split: if_splits)
qed

lemma safe_update_spec:
  assumes "good_neighbours E" and "stable P"
  shows "safe P (update_spec E owner i spec g if_match deadline) (\<lambda>x d. True)"
  unfolding update_spec_def
proof (rule safe_newer_generation [OF assms])
  fix rc :: workload_record and P'
  assume st: "stable P'" and old: "\<And>d. P' d \<Longrightarrow> seen rc d"
    and newer: "generation_get (ds_generation (wr_desired rc)) < generation_get g"
  have change: "safe P' (vm_bind (save E
      (rc\<lparr>wr_spec := spec, wr_desired := (wr_desired rc)\<lparr>ds_generation := g\<rparr>\<rparr>) (wr_resource_version rc))
      (\<lambda>_. new_operation E owner (Some i) KUpdateSpec (Some g) None deadline)) (\<lambda>x d. True)"
    if "ds_state (wr_desired rc) \<noteq> DDeleted"
    using safe_save_desired [OF assms(1) st old that, where spec = spec
        and desired = "(wr_desired rc)\<lparr>ds_generation := g\<rparr>"] newer
    by (intro safe_save_then [OF st _ assms(1)]) simp
  show "safe P' (vm_bind (vm_lift (check_version rc if_match)) (\<lambda>_.
      if ds_state (wr_desired rc) = DDeleted then vm_lift (Err (of_lifecycle LDeleted))
      else vm_bind (runtime_of E (ws_runtime spec)) (\<lambda>_.
        vm_bind (save E (rc\<lparr>wr_spec := spec, wr_desired := (wr_desired rc)\<lparr>ds_generation := g\<rparr>\<rparr>)
          (wr_resource_version rc)) (\<lambda>_.
        new_operation E owner (Some i) KUpdateSpec (Some g) None deadline)))) (\<lambda>x d. True)"
    by (intro safe_rule [OF st] safe_if safe_err safe_then [OF st safe_runtime [OF st]] change)
qed

lemma safe_restore:
  assumes "good_neighbours E" and "stable P"
  shows "safe P (restore E owner i g req if_match deadline) (\<lambda>x d. True)"
  unfolding restore_def
proof (rule safe_newer_generation [OF assms])
  fix rc :: workload_record and P'
  assume st: "stable P'" and old: "\<And>d. P' d \<Longrightarrow> seen rc d"
    and newer: "generation_get (ds_generation (wr_desired rc)) < generation_get g"
  have change: "safe P' (vm_bind (save E
      (rc\<lparr>wr_desired := \<lparr>ds_state = DRunning, ds_generation = g\<rparr>\<rparr>) (wr_resource_version rc))
      (\<lambda>_. new_operation E owner (Some i) KRestore (Some g) (Some req) deadline)) (\<lambda>x d. True)"
    if "ds_state (wr_desired rc) \<noteq> DDeleted"
    using safe_save_desired [OF assms(1) st old that, where spec = "wr_spec rc"
        and desired = "\<lparr>ds_state = DRunning, ds_generation = g\<rparr>"] newer
    by (intro safe_save_then [OF st _ assms(1)]) simp
  show "safe P' (vm_bind (vm_lift (check_version rc if_match)) (\<lambda>_.
      vm_bind (vm_rule (desired_transition (ds_state (wr_desired rc)) DRunning)) (\<lambda>_.
      vm_bind (runtime_of E (ws_runtime (wr_spec rc))) (\<lambda>runtime.
      vm_bind (vm_rule (check_capability runtime WSnapshot)) (\<lambda>_.
      vm_bind (save E (rc\<lparr>wr_desired := \<lparr>ds_state = DRunning, ds_generation = g\<rparr>\<rparr>)
        (wr_resource_version rc)) (\<lambda>_.
      new_operation E owner (Some i) KRestore (Some g) (Some req) deadline)))))) (\<lambda>x d. True)"
    by (intro safe_rule [OF st] safe_then [OF st safe_runtime [OF st]] change) (auto split: if_splits)
qed

lemma safe_create:
  assumes "good_neighbours E" and st: "stable P"
  shows "safe P (create E owner nw deadline) (\<lambda>x d. True)"
proof -
  have insert: "safe P (vm_write E (insert_workload_op r)) (\<lambda>x d. True)" if "workload_typed r" for r
    using insert_workload_forward [OF _ that] by (intro safe_write [OF assms]) blast
  have "versioned 1" by (simp add: versioned_def in_i64_def)
  then show ?thesis unfolding create_def Let_def
    by (intro safe_if safe_err safe_then [OF st safe_runtime [OF st]] safe_then [OF st safe_now]
        safe_try [OF st insert])
      (auto simp: workload_typed_def intro: safe_err safe_weaken [OF safe_new_operation [OF assms]]
        split: port_error.split)
qed

lemma safe_submit:
  assumes "good_neighbours E" and st: "stable P"
  shows "safe P (submit E owner target asked req deadline) (\<lambda>x d. True)"
proof -
  have load: "safe P (load E owner i) (\<lambda>x d. True)" for i
    by (rule safe_weaken [OF safe_load [OF assms]]) auto
  show ?thesis unfolding submit_def
    by (cases target)
      (auto intro!: safe_option safe_err safe_done safe_then [OF st] safe_runtime [OF st] load safe_rule [OF st]
        safe_new_operation [OF assms] split: desired_workload_state.split)
qed

text \<open>A move of the operation machine, and the compare-and-set that stores it.\<close>

lemma operation_move_Ok:
  assumes "operation_move o1 state at = Ok o2" and "operation_typed o1"
  shows "same_request o1 o2" and "operation_rank (or_state o1) < operation_rank (or_state o2)"
    and "or_state o2 = state" and "or_error o2 = None" and "or_result o2 = None"
    and "or_id o2 = or_id o1" and "or_owner o2 = or_owner o1"
  using assms
  by (cases "or_state o1"; cases state;
      auto simp: operation_move_def same_request_def operation_typed_def result_simps)+

lemma safe_replace_operation:
  assumes "good_neighbours E" and "stable P" and "\<And>d. P d \<Longrightarrow> known_operation o1 d"
    and "operation_typed o1 \<Longrightarrow> operation_typed o2" and "same_request o1 o2"
    and "operation_rank (or_state o1) < operation_rank (or_state o2)"
  shows "safe P (vm_write E (replace_operation_op o2 (or_state o1))) (\<lambda>x d. known_operation o2 d)"
proof (rule safe_write [OF assms(1,2)])
  fix d e v
  assume d: "vmm_typed d" "P d" "replace_operation_op o2 (or_state o1) d = Ok (Ok v, e)"
  then have "operation_typed o2" using assms(3,4) by (simp add: known_operation_def)
  from replace_operation_forward [OF d(1) assms(3) [OF d(2)] this assms(5,6) d(3)]
  show "vmm_typed e \<and> forward d e \<and> known_operation o2 e" .
qed

lemma safe_cancel:
  assumes "good_neighbours E" and st: "stable P"
  shows "safe P (cancel E owner i) (\<lambda>x d. True)"
proof -
  have "safe P (cancel_attempts n E owner i) (\<lambda>x d. True)" for n
  proof (induction n)
    case (Suc n)
    have "safe (\<lambda>d. P d \<and> known_operation o1 d \<and> or_id o1 = i \<and> or_owner o1 = owner)
      (vm_bind (vm_now E) (\<lambda>now. vm_bind (vm_rule (operation_move o1 OpCancelled now)) (\<lambda>o2.
        vm_try (vm_write E (replace_operation_op o2 (or_state o1))) (\<lambda>r.
          case r of
            Inr _ \<Rightarrow> vm_bind (operation_event E o2) (\<lambda>_. vm_ok o2)
          | Inl Conflict \<Rightarrow> cancel_attempts n E owner i
          | Inl e \<Rightarrow> vm_err (failure_of_port e))))) (\<lambda>x d. True)" (is "safe ?P _ _") for o1
    proof (rule safe_pure [of _ "operation_typed o1"])
      assume typed: "operation_typed o1"
      have sp: "stable ?P" using st stable_known [of o1] by (auto simp: stable_def)
      have "safe ?P (vm_write E (replace_operation_op o2 (or_state o1))) (\<lambda>x d. True)"
        if "map_err of_lifecycle (operation_move o1 OpCancelled now) = Ok o2" for o2 now
      proof -
        from that have "operation_move o1 OpCancelled now = Ok o2" by (simp add: result_simps)
        note moved = operation_move_Ok [OF this typed]
        show ?thesis
          by (rule safe_weaken [OF safe_replace_operation [OF assms(1) sp _ _ moved(1,2)]])
            (simp_all add: operation_typed_def moved)
      qed
      then show ?thesis
        by (intro safe_then [OF sp safe_now] safe_rule [OF sp] safe_try [OF sp, where Q = "\<lambda>x d. True"])
          (auto intro!: safe_then safe_done safe_operation_event [OF assms(1)] safe_weaken [OF Suc.IH] safe_err
            sp [simplified] split: port_error.split)
    qed (simp add: known_operation_def)
    then show ?case unfolding cancel_attempts.simps by (rule safe_bind [OF st safe_operation [OF assms]])
  qed (simp add: safe_err)
  then show ?thesis by (simp add: cancel_def)
qed

lemma safe_finish:
  assumes "good_neighbours E" and st: "stable P" and known: "\<And>d. P d \<Longrightarrow> known_operation o1 d"
    and "or_state o1 = OpRunning"
  shows "safe P (finish E o1 outcome) (\<lambda>x d. True)"
proof (rule safe_pure [of _ "operation_typed o1"])
  assume typed: "operation_typed o1"
  have stored: "safe P (vm_write E (replace_operation_op o3 OpRunning)) (\<lambda>x d. True)"
    if moved: "map_err of_lifecycle (operation_move o1 state now) = Ok o2"
      and o3: "state = OpSucceeded \<and> o3 = o2\<lparr>or_result := x\<rparr> \<or> state = OpFailed \<and> o3 = o2\<lparr>or_error := Some f\<rparr>"
    for state now o2 o3 x f
  proof -
    from moved have "operation_move o1 state now = Ok o2" by (simp add: result_simps)
    note m = operation_move_Ok [OF this typed]
    have "same_request o1 o3" "operation_rank (or_state o1) < operation_rank (or_state o3)" "operation_typed o3"
      using m o3 by (auto simp: same_request_def operation_typed_def)
    from safe_replace_operation [OF assms(1) st known _ this(1,2)] this(3) assms(4)
    show ?thesis by (auto intro: safe_weaken)
  qed
  have rest: "safe P (vm_try (vm_write E (replace_operation_op o3 OpRunning)) (\<lambda>r.
      case r of Inl Conflict \<Rightarrow> operation E (or_owner o3) (or_id o3)
      | Inl e \<Rightarrow> vm_err (failure_of_port e)
      | Inr _ \<Rightarrow> vm_bind (operation_event E o3) (\<lambda>_. vm_ok o3))) (\<lambda>x d. True)"
    if "safe P (vm_write E (replace_operation_op o3 OpRunning)) (\<lambda>x d. True)" for o3
    by (rule safe_try [OF st that])
      (auto intro!: safe_err safe_weaken [OF safe_operation [OF assms(1) st]] safe_done
        safe_then [OF st safe_operation_event [OF assms(1) st]] split: port_error.split)
  have "safe P (vm_bind (case outcome of
        Inr answer \<Rightarrow> vm_bind (vm_rule (operation_move o1 OpSucceeded now)) (\<lambda>o2. vm_ok (o2\<lparr>or_result := answer\<rparr>))
      | Inl e \<Rightarrow> vm_bind (vm_rule (operation_move o1 OpFailed now)) (\<lambda>o2.
          vm_ok (o2\<lparr>or_error := Some (vx_failure e)\<rparr>)))
      (\<lambda>o3. vm_try (vm_write E (replace_operation_op o3 OpRunning)) (\<lambda>r.
        case r of Inl Conflict \<Rightarrow> operation E (or_owner o3) (or_id o3)
        | Inl e \<Rightarrow> vm_err (failure_of_port e)
        | Inr _ \<Rightarrow> vm_bind (operation_event E o3) (\<lambda>_. vm_ok o3)))) (\<lambda>x d. True)" for now
  proof (cases outcome)
    case (Inl e)
    show ?thesis
    proof (cases "map_err of_lifecycle (operation_move o1 OpFailed now)")
      case (Inr o2)
      show ?thesis unfolding \<open>outcome = Inl e\<close> sum.case Inr vm_bind_lift
        by (rule rest [OF stored [OF Inr]]) simp
    qed (simp only: \<open>outcome = Inl e\<close> sum.case vm_bind_lift safe_err)
  next
    case (Inr a)
    show ?thesis
    proof (cases "map_err of_lifecycle (operation_move o1 OpSucceeded now)")
      case (Inr o2)
      show ?thesis unfolding \<open>outcome = Inr a\<close> sum.case Inr vm_bind_lift
        by (rule rest [OF stored [OF Inr]]) simp
    qed (simp only: \<open>outcome = Inr a\<close> sum.case vm_bind_lift safe_err)
  qed
  then show ?thesis unfolding finish_def by (intro safe_then [OF st safe_now])
qed (use known in \<open>auto simp: known_operation_def\<close>)

text \<open>The stored workload has got to a generation; it never goes back.\<close>

definition reached_generation :: "workload_id \<Rightarrow> generation option \<Rightarrow> vmm_db \<Rightarrow> bool" where
  "reached_generation i g d \<longleftrightarrow> (\<forall>x. g = Some x \<longrightarrow>
     (\<exists>r. find_workload i d = Some r \<and> generation_get x \<le> generation_get (ds_generation (wr_desired r))))"

lemma workload_forward_generation:
  "workload_forward r s \<Longrightarrow>
   generation_get (ds_generation (wr_desired r)) \<le> generation_get (ds_generation (wr_desired s))"
  by (auto simp: workload_forward_def)

lemma stable_reached_generation [safe_rules]: "stable (reached_generation i g)"
  unfolding stable_def
proof (intro allI impI)
  fix d e
  assume d: "reached_generation i g d" and "forward d e"
  show "reached_generation i g e" unfolding reached_generation_def
  proof (intro allI impI)
    fix x
    assume "g = Some x"
    with d obtain r where r: "find_workload i d = Some r"
      "generation_get x \<le> generation_get (ds_generation (wr_desired r))"
      by (auto simp: reached_generation_def)
    with \<open>forward d e\<close> obtain s where s: "find_workload i e = Some s" "workload_forward r s"
      unfolding forward_def by blast
    from order_trans [OF r(2) workload_forward_generation [OF s(2)]] s(1)
    show "\<exists>r. find_workload i e = Some r \<and>
        generation_get x \<le> generation_get (ds_generation (wr_desired r))" by blast
  qed
qed

lemma observed_change:
  assumes "workload_typed old" and "versioned (wr_resource_version old + 1)"
    and "accept_observation (ds_generation (wr_desired old)) (wr_observed old) obs = Ok u"
    and "\<And>x. applied = Some x \<Longrightarrow> generation_get x \<le> generation_get (ds_generation (wr_desired old))"
    and "new = old\<lparr>wr_observed := Some obs,
      wr_applied_generation := (if applied \<noteq> None then applied else wr_applied_generation old),
      wr_resource_version := wr_resource_version old + 1, wr_updated_at_millis := now\<rparr>"
  shows "workload_typed new \<and> workload_forward old new"
proof
  note ok = accept_observation_Ok [OF assms(3)]
  show "workload_typed new"
    using assms(1,2,4) ok(1) by (auto simp: assms(5) workload_typed_def)
  have "observation_forward (wr_observed old) (Some obs)"
    using ok(2) by (auto simp: observation_forward_def split: option.split)
  moreover have "versioned (wr_resource_version old)" using assms(1) by (simp add: workload_typed_def)
  ultimately show "workload_forward old new"
    using versioned_next [of "wr_resource_version old"] by (simp add: assms(5) workload_forward_def)
qed

lemma safe_record_observation:
  assumes "good_neighbours E" and st: "stable P" and "\<And>d. P d \<Longrightarrow> reached_generation i applied d"
  shows "safe P (record_observation E owner i obs applied) (\<lambda>x d. True)"
proof -
  have "safe P (observation_attempts n E owner i obs applied) (\<lambda>x d. True)" for n
  proof (induction n)
    case (Suc n)
    have "safe (\<lambda>d. P d \<and> (P d \<and> seen rc d \<and> find_workload i d = Some rc \<and> wr_id rc = i \<and> wr_owner rc = owner))
      (vm_bind (vm_rule (accept_observation (ds_generation (wr_desired rc)) (wr_observed rc) obs)) (\<lambda>_.
        vm_try (save E (rc\<lparr>wr_observed := Some obs,
            wr_applied_generation := (if applied \<noteq> None then applied else wr_applied_generation rc)\<rparr>)
          (wr_resource_version rc)) (\<lambda>r.
          case r of
            Inr saved \<Rightarrow> vm_bind (event E owner i EvObserved (Some obs) None) (\<lambda>_. vm_ok saved)
          | Inl e \<Rightarrow> if vx_failure e = VResourceVersionMismatch
              then observation_attempts n E owner i obs applied else vm_lift (Err e)))) (\<lambda>x d. True)" for rc
    proof (rule safe_pure [of _ "\<forall>x. applied = Some x \<longrightarrow>
        generation_get x \<le> generation_get (ds_generation (wr_desired rc))"])
      assume reach: "\<forall>x. applied = Some x \<longrightarrow> generation_get x \<le> generation_get (ds_generation (wr_desired rc))"
      let ?P = "\<lambda>d. P d \<and> seen rc d"
      have sp: "stable ?P" by (intro safe_rules st)
      have save: "safe ?P (save E (rc\<lparr>wr_observed := Some obs,
            wr_applied_generation := (if applied \<noteq> None then applied else wr_applied_generation rc)\<rparr>)
          (wr_resource_version rc)) (\<lambda>x d. True)"
        if "map_err of_lifecycle (accept_observation (ds_generation (wr_desired rc)) (wr_observed rc) obs) = Ok u" for u
      proof -
        from that have ok: "accept_observation (ds_generation (wr_desired rc)) (wr_observed rc) obs = Ok u"
          by (simp add: result_simps)
        show ?thesis
          by (rule safe_weaken [OF safe_save [OF assms(1) sp]], erule conjunct2,
              rule observed_change [OF _ _ ok]) (use reach in auto)
      qed
      have "safe ?P (vm_bind (vm_rule (accept_observation (ds_generation (wr_desired rc)) (wr_observed rc) obs)) (\<lambda>_.
        vm_try (save E (rc\<lparr>wr_observed := Some obs,
            wr_applied_generation := (if applied \<noteq> None then applied else wr_applied_generation rc)\<rparr>)
          (wr_resource_version rc)) (\<lambda>r.
          case r of
            Inr saved \<Rightarrow> vm_bind (event E owner i EvObserved (Some obs) None) (\<lambda>_. vm_ok saved)
          | Inl e \<Rightarrow> if vx_failure e = VResourceVersionMismatch
              then observation_attempts n E owner i obs applied else vm_lift (Err e)))) (\<lambda>x d. True)"
        by (intro safe_rule [OF sp] safe_try [OF sp save])
          (auto intro!: safe_err safe_done safe_weaken [OF Suc.IH] safe_then [OF sp safe_event [OF assms(1) sp]])
      then show ?thesis by (rule safe_weaken) auto
    qed (use assms(3) in \<open>fastforce simp: reached_generation_def\<close>)
    then show ?case unfolding observation_attempts.simps
      by (rule safe_bind [OF st safe_load_now [OF assms(1) st]])
  qed (simp add: safe_err)
  then show ?thesis by (simp add: record_observation_def)
qed

lemma seen_reached: "seen rc d \<Longrightarrow> reached_generation (wr_id rc) (Some (ds_generation (wr_desired rc))) d"
  by (auto simp: seen_def reached_generation_def dest: workload_forward_generation)

lemma safe_converge:
  assumes "good_neighbours E" and st: "stable P" and "\<And>d. P d \<Longrightarrow> seen rc d"
  shows "safe P (converge E o1 rc) (\<lambda>x d. True)"
proof -
  have recorded: "safe P (record_observation E owner (wr_id rc) obs (Some (ds_generation (wr_desired rc))))
      (\<lambda>x d. True)" for owner obs
    using seen_reached [OF assms(3)] by (rule safe_record_observation [OF assms(1) st])
  show ?thesis unfolding converge_def Let_def
    by (intro safe_if safe_err safe_done safe_then [OF st safe_ports [OF st safe_call]] safe_then [OF st recorded]
        safe_then [OF st] safe_event [OF assms(1) st])
qed

lemma safe_execute_running:
  assumes "good_neighbours E" and st: "stable P" and known: "\<And>d. P d \<Longrightarrow> known_operation o1 d"
    and running: "or_state o1 = OpRunning"
  shows "safe P (execute_running E owner o1) (\<lambda>x d. True)"
proof -
  note fin = safe_finish [OF assms(1) _ _ running]
  have converging: "safe (\<lambda>d. P d \<and> seen rc d) (vm_try (converge E o1 rc) (\<lambda>r.
      case r of Inr True \<Rightarrow> finish E o1 (Ok None) | Inr False \<Rightarrow> vm_ok o1
      | Inl e \<Rightarrow> if vmm_retryable (vx_failure e) then vm_ok o1 else finish E o1 (Err e))) (\<lambda>x d. True)" for rc
  proof -
    have sp: "stable (\<lambda>d. P d \<and> seen rc d)" by (intro safe_rules st)
    have fin': "safe (\<lambda>d. P d \<and> seen rc d) (finish E o1 out) (\<lambda>x d. True)" for out
      using known by (intro fin [OF sp]) blast
    show ?thesis
      by (rule safe_try [OF sp safe_converge [OF assms(1) sp]])
        (auto intro: safe_done fin' safe_weaken [OF fin'] split: bool.split)
  qed
  have restoring: "safe P (vm_try (vm_ports (vm_call (vb_run (vm_hypervisor E) (Some rc) o1))) (\<lambda>r.
      case r of Inl e \<Rightarrow> finish E o1 (Err e)
      | Inr _ \<Rightarrow> vm_bind (load E owner (wr_id rc)) (\<lambda>rc. vm_try (converge E o1 rc) (\<lambda>r.
          case r of Inr True \<Rightarrow> finish E o1 (Ok None) | Inr False \<Rightarrow> vm_ok o1
          | Inl e \<Rightarrow> if vmm_retryable (vx_failure e) then vm_ok o1 else finish E o1 (Err e))))) (\<lambda>x d. True)" for rc
    by (rule safe_try [OF st safe_ports [OF st safe_call]])
      (auto intro!: fin [OF st known] safe_bind [OF st safe_load [OF assms(1) st]] safe_weaken [OF converging])
  have loaded: "safe P (case or_workload_id o1 of
      Some i \<Rightarrow> vm_bind (load E owner i) (\<lambda>r. vm_ok (Some r)) | None \<Rightarrow> vm_ok None)
      (\<lambda>x d. \<forall>rc. x = Some rc \<longrightarrow> seen rc d)"
    by (intro safe_option safe_ok safe_bind [OF st safe_load [OF assms(1) st]]) auto
  show ?thesis unfolding execute_running_def Let_def
  proof (rule safe_bind [OF st loaded], intro safe_if safe_option)
    fix x :: "workload_record option"
    let ?P = "\<lambda>d. P d \<and> (\<forall>rc. x = Some rc \<longrightarrow> seen rc d)"
    have fin': "safe ?P (finish E o1 out) (\<lambda>x d. True)" for out
      by (rule safe_weaken [OF fin [OF st known]]) auto
    show "safe ?P (finish E o1 (Ok None)) (\<lambda>x d. True)" and "safe ?P (finish E o1 (Err (vmm_fails VInvalidRequest))) (\<lambda>x d. True)"
      by (rule fin')+
    show "safe ?P (vm_try (vm_ports (vm_call (vb_run (vm_hypervisor E) x o1))) (\<lambda>outcome.
        finish E o1 (and_then outcome (\<lambda>answer. Ok (Some answer))))) (\<lambda>x d. True)"
      by (rule safe_weaken [OF safe_try [OF st safe_ports [OF st safe_call]]])
        (auto intro: fin [OF st known] safe_weaken [OF fin [OF st known]])
    show "safe ?P (vm_try (vm_ports (vm_call (vb_run (vm_hypervisor E) (Some y) o1))) (\<lambda>r.
      case r of Inl e \<Rightarrow> finish E o1 (Err e)
      | Inr _ \<Rightarrow> vm_bind (load E owner (wr_id y)) (\<lambda>rc. vm_try (converge E o1 rc) (\<lambda>r.
          case r of Inr True \<Rightarrow> finish E o1 (Ok None) | Inr False \<Rightarrow> vm_ok o1
          | Inl e \<Rightarrow> if vmm_retryable (vx_failure e) then vm_ok o1 else finish E o1 (Err e))))) (\<lambda>x d. True)" for y
      by (rule safe_weaken [OF restoring]) auto
    show "safe ?P (vm_try (converge E o1 y) (\<lambda>r.
          case r of Inr True \<Rightarrow> finish E o1 (Ok None) | Inr False \<Rightarrow> vm_ok o1
          | Inl e \<Rightarrow> if vmm_retryable (vx_failure e) then vm_ok o1 else finish E o1 (Err e))) (\<lambda>x d. True)"
      if "x = Some y" for y
      by (rule safe_weaken [OF converging]) (use that in auto)
  qed
qed

lemma safe_execute_claimed:
  assumes "good_neighbours E" and "stable P" and "\<And>d. P d \<Longrightarrow> known_operation o1 d"
  shows "safe P (execute_claimed E owner o1) (\<lambda>x d. True)"
  unfolding execute_claimed_def using assms(2,3)
  by (intro safe_if safe_done safe_option safe_then [OF assms(2) safe_now] safe_finish [OF assms(1)]
      safe_execute_running [OF assms(1)]) auto

lemma safe_execute:
  assumes "good_neighbours E" and st: "stable P"
  shows "safe P (execute E i owner) (\<lambda>x d. True)"
  unfolding execute_def
proof (rule safe_bind [OF st safe_operation [OF assms]])
  fix o1
  let ?P = "\<lambda>d. P d \<and> known_operation o1 d \<and> or_id o1 = i \<and> or_owner o1 = owner"
  have sp: "stable ?P" using st stable_known [of o1] by (auto simp: stable_def)
  have stored: "safe ?P (vm_write E (replace_operation_op o2 OpPending)) (\<lambda>x d. known_operation o2 d)"
    if pending: "or_state o1 = OpPending"
      and ok: "map_err of_lifecycle (operation_move o1 OpRunning now) = Ok o2" for now o2
  proof (rule safe_pure [of _ "operation_typed o1"])
    assume "operation_typed o1"
    moreover from ok have "operation_move o1 OpRunning now = Ok o2" by (simp add: result_simps)
    ultimately have m: "same_request o1 o2" "operation_rank (or_state o1) < operation_rank (or_state o2)"
      "operation_typed o2" using operation_move_Ok [of o1 OpRunning now o2] by (auto simp: operation_typed_def)
    from safe_replace_operation [OF assms(1) sp _ _ m(1,2)] m(3) pending show ?thesis by simp
  qed (simp add: known_operation_def)
  have claimed: "safe (\<lambda>d. ?P d \<and> known_operation o2 d) (execute_claimed E owner o2) (\<lambda>x d. True)" for o2
    by (rule safe_execute_claimed [OF assms(1) stable_conj [OF sp stable_known]]) blast
  show "safe ?P (if or_state o1 = OpPending
      then vm_bind (vm_now E) (\<lambda>now. vm_bind (vm_rule (operation_move o1 OpRunning now)) (\<lambda>o2.
        vm_try (vm_write E (replace_operation_op o2 OpPending)) (\<lambda>r.
          case r of Inl Conflict \<Rightarrow> operation E owner i
          | Inl e \<Rightarrow> vm_err (failure_of_port e)
          | Inr _ \<Rightarrow> execute_claimed E owner o2)))
      else execute_claimed E owner o1) (\<lambda>x d. True)"
    by (intro safe_if safe_then [OF sp safe_now] safe_rule [OF sp] safe_try [OF sp stored]
        safe_execute_claimed [OF assms(1) sp])
      (auto intro: safe_err claimed [simplified] safe_weaken [OF safe_operation [OF assms(1) sp]]
        split: port_error.split)
qed

lemma safe_execute_pending:
  assumes "good_neighbours E" and st: "stable P"
  shows "safe P (execute_pending E limit) (\<lambda>x d. True)"
proof -
  have read: "safe P (vm_ports (vm_read E f)) (\<lambda>x d. True)" for f :: "vmm_db \<Rightarrow> operation_record list"
    by (rule safe_ports [OF st safe_read [OF assms]]) simp
  show ?thesis unfolding execute_pending_def
    by (intro safe_then [OF st read] safe_each [OF st] safe_then [OF st safe_execute [OF assms]] safe_done)
qed

lemma safe_observe:
  assumes "good_neighbours E" and st: "stable P"
  shows "safe P (observe E) (\<lambda>x d. True)"
proof -
  have recorded: "safe P (record_observation E owner i obs None) (\<lambda>x d. True)" for owner i obs
    by (rule safe_record_observation [OF assms]) (simp add: reached_generation_def)
  have recording: "safe P (vm_try (record_observation E owner i obs None) (\<lambda>r.
      case r of Inr _ \<Rightarrow> vm_ok (f r) | Inl e \<Rightarrow> if b e then vm_ok (g e) else vm_lift (Err e))) (\<lambda>x d. True)"
    for owner i obs b and f :: "(workload_record, vmm_error) result \<Rightarrow> 'x" and g
    by (rule safe_try [OF st recorded]) (auto intro: safe_done safe_err)
  have visit: "safe P (observe_workload E acc rc) (\<lambda>x d. True)" for acc rc
    unfolding observe_workload_def Let_def
    by (intro safe_option safe_if safe_done safe_then [OF st safe_now] recording)
  show ?thesis unfolding observe_def
    by (intro safe_then [OF st safe_ports [OF st safe_call]] safe_then [OF st safe_each_workload [OF assms visit]]
        safe_done)
qed

lemma safe_reconcile_all:
  assumes "good_neighbours E" and st: "stable P"
  shows "safe P (reconcile_all E) (\<lambda>x d. True)"
proof -
  have read: "safe P (vm_ports (vm_read E f)) (\<lambda>x d. True)"
    for f :: "vmm_db \<Rightarrow> operation_record list \<times> operation_id option"
    by (rule safe_ports [OF st safe_read [OF assms]]) simp
  have visit: "safe P (reconcile_workload E n rc) (\<lambda>x d. True)" for n rc
    unfolding reconcile_workload_def
    by (intro safe_option safe_if safe_done safe_then [OF st read] safe_then [OF st safe_new_operation [OF assms]])
  show ?thesis unfolding reconcile_all_def by (rule safe_each_workload [OF assms visit])
qed

section \<open>Requests\<close>

datatype vmm_request =
    ReqCreate string new_workload "i64 option"
  | ReqCommand string workload_id lifecycle_command generation "u64 option" "i64 option"
  | ReqUpdateSpec string workload_id workload_spec generation "u64 option" "i64 option"
  | ReqRestore string workload_id generation string "u64 option" "i64 option"
  | ReqSubmit string operation_target workload_operation string "i64 option"
  | ReqCancel string operation_id
  | ReqExecute operation_id string
  | ReqExecutePending nat
  | ReqObserve
  | ReqReconcile

definition vm_unit :: "('a, vmm_error, 'b) vm \<Rightarrow> (unit, vmm_error, 'b) vm" where
  "vm_unit m = vm_bind m (\<lambda>_. vm_ok ())"

fun vmm_serve :: "'b vmm_env \<Rightarrow> vmm_request \<Rightarrow> (unit, vmm_error, 'b) vm" where
  "vmm_serve E (ReqCreate owner nw deadline) = vm_unit (create E owner nw deadline)"
| "vmm_serve E (ReqCommand owner i c g if_match deadline) = vm_unit (command E owner i c g if_match deadline)"
| "vmm_serve E (ReqUpdateSpec owner i spec g if_match deadline) =
     vm_unit (update_spec E owner i spec g if_match deadline)"
| "vmm_serve E (ReqRestore owner i g body if_match deadline) = vm_unit (restore E owner i g body if_match deadline)"
| "vmm_serve E (ReqSubmit owner target asked body deadline) = vm_unit (submit E owner target asked body deadline)"
| "vmm_serve E (ReqCancel owner i) = vm_unit (cancel E owner i)"
| "vmm_serve E (ReqExecute i owner) = vm_unit (execute E i owner)"
| "vmm_serve E (ReqExecutePending limit) = vm_unit (execute_pending E limit)"
| "vmm_serve E ReqObserve = vm_unit (observe E)"
| "vmm_serve E ReqReconcile = vm_unit (reconcile_all E)"

lemma safe_serve:
  assumes "good_neighbours E"
  shows "safe (\<lambda>d. True) (vmm_serve E request) (\<lambda>x d. True)"
  by (cases request)
    (simp_all add: vm_unit_def assms safe_then safe_done stable_True safe_create safe_command safe_update_spec
      safe_restore safe_submit safe_cancel safe_execute safe_execute_pending safe_observe safe_reconcile_all)

text \<open>What requests lead to, one after another, with what neighbours do in between.\<close>

inductive vmm_reach :: "'b vmm_env \<Rightarrow> 'b vmm_world \<Rightarrow> 'b vmm_world \<Rightarrow> bool" for E w where
  reach_start: "vmm_reach E w w"
| reach_serve: "vmm_reach E w v \<Longrightarrow> vmm_serve E request v = Some (r, u) \<Longrightarrow> vmm_reach E w u"

lemma vmm_reach_forward:
  assumes "vmm_reach E w v" and "good_neighbours E" and "vmm_typed (vm_db w)"
  shows "vmm_typed (vm_db v) \<and> forward (vm_db w) (vm_db v)"
  using assms(1)
proof (induction rule: vmm_reach.induct)
  case (reach_serve v request r u)
  then have "vmm_typed (vm_db u) \<and> forward (vm_db v) (vm_db u)"
    using safe_serve [OF assms(2), of request, unfolded safe_def] by force
  with reach_serve.IH show ?case by (blast intro: forward_trans)
qed (simp add: assms(3))

lemma forward_finished:
  assumes "forward d e" and "find_operation i d = Some o1" and "\<not> unfinished (or_state o1)"
  shows "find_operation i e = Some o1"
proof -
  from assms(1,2) obtain o2 where o2: "find_operation i e = Some o2" "operation_forward o1 o2"
    unfolding forward_def by blast
  with assms(3) show ?thesis
    by (cases "or_state o1"; cases "or_state o2") (auto simp: operation_forward_def)
qed

lemma forward_workload:
  assumes "forward d e" and "find_workload i d = Some r"
  shows "\<exists>s. find_workload i e = Some s \<and> wr_owner s = wr_owner r \<and>
    generation_get (ds_generation (wr_desired r)) \<le> generation_get (ds_generation (wr_desired s)) \<and>
    (ds_state (wr_desired r) = DDeleted \<longrightarrow> wr_desired s = wr_desired r \<and> wr_spec s = wr_spec r) \<and>
    observation_forward (wr_observed r) (wr_observed s)"
proof -
  from assms obtain s where "find_workload i e = Some s" "workload_forward r s"
    unfolding forward_def by blast
  then show ?thesis by (intro exI [of _ s]) (auto simp: workload_forward_def)
qed

text \<open>
  C2. The records of a VMM stay well formed and only move forward. Over any requests to the
  service, whatever its backend answers, however its transactions end and whatever neighbours
  that keep the same rules do between its calls: identifiers stay unique, no observed or
  applied generation is above the desired one, an operation has an error exactly when it
  failed and a result only when it succeeded; a finished operation is never changed; a
  workload keeps its owner, its desired generation never goes back, once deleted its desired
  state and spec never change, and its observation is never replaced by an older one.
\<close>

theorem vmm_records_well_typed:
  assumes "vmm_reach E w v" and "good_neighbours E" and "vmm_typed (vm_db w)"
  shows "vmm_typed (vm_db v) \<and>
    (\<forall>i o1. find_operation i (vm_db w) = Some o1 \<longrightarrow> \<not> unfinished (or_state o1) \<longrightarrow>
       find_operation i (vm_db v) = Some o1) \<and>
    (\<forall>i r. find_workload i (vm_db w) = Some r \<longrightarrow>
       (\<exists>s. find_workload i (vm_db v) = Some s \<and> wr_owner s = wr_owner r \<and>
          generation_get (ds_generation (wr_desired r)) \<le> generation_get (ds_generation (wr_desired s)) \<and>
          (ds_state (wr_desired r) = DDeleted \<longrightarrow> wr_desired s = wr_desired r \<and> wr_spec s = wr_spec r) \<and>
          observation_forward (wr_observed r) (wr_observed s)))"
proof -
  from vmm_reach_forward [OF assms] have typed: "vmm_typed (vm_db v)" and fwd: "forward (vm_db w) (vm_db v)"
    by auto
  from typed forward_finished [OF fwd] forward_workload [OF fwd] show ?thesis by blast
qed

text \<open>
  C19. Every request to the VMM service returns. Its two paging loops end however many records
  there are and whatever neighbours that keep the rules add meanwhile: the pages of a
  workload's operations go back in age, which never changes, and the pages of all workloads go
  up in key; every other loop is bounded.
\<close>

theorem vmm_requests_return:
  assumes "good_neighbours E" and "vmm_typed (vm_db w)"
  shows "\<exists>r v. vmm_serve E request w = Some (r, v)"
  using safe_serve [OF assms(1), of request] assms(2) unfolding safe_def by blast

text \<open>Another replica of the service, between two calls of this one, is a good neighbour.\<close>

definition replica_move :: "'b vmm_env \<Rightarrow> 'b \<Rightarrow> nat \<Rightarrow> vmm_request \<Rightarrow> vmm_db \<Rightarrow> vmm_db" where
  "replica_move E b n request d =
     (case vmm_serve E request \<lparr>vm_db = d, vm_backend = b, vm_calls = n\<rparr> of
        Some (r, v) \<Rightarrow> vm_db v | None \<Rightarrow> d)"

lemma replica_is_good_neighbour:
  assumes "good_neighbours E" and "vmm_typed d"
  shows "vmm_typed (replica_move E b n request d) \<and> forward d (replica_move E b n request d)"
proof -
  let ?w = "\<lparr>vm_db = d, vm_backend = b, vm_calls = n\<rparr>"
  from safe_serve [OF assms(1), of request, unfolded safe_def, rule_format, of ?w] assms(2)
  obtain r v where "vmm_serve E request ?w = Some (r, v)" "vmm_typed (vm_db v)" "forward d (vm_db v)"
    by auto
  then show ?thesis by (simp add: replica_move_def)
qed

section \<open>Convergence\<close>

declare reconcile.simps [simp del]

text \<open>
  A backend that takes the step it is asked for and reports it, for the desired generation and
  after what was recorded, as long as its sequence has room to count: \<open>room n r\<close>. What it is
  asked to run, it runs.
\<close>

definition room :: "nat \<Rightarrow> workload_record \<Rightarrow> bool" where
  "room n r \<longleftrightarrow> int n < 18446744073709551616 \<and> (\<forall>o1. wr_observed r = Some o1 \<longrightarrow>
     generation_get (ob_generation o1) \<le> generation_get (ds_generation (wr_desired r)) \<and>
     uint (ob_sequence o1) + int n < 18446744073709551616)"

definition obliging :: "'b vmm_env \<Rightarrow> bool" where
  "obliging E \<longleftrightarrow> (\<forall>n r a b. room (Suc n) r \<longrightarrow>
     (\<exists>obs c. vb_step (vm_hypervisor E) r a b = (Ok obs, c) \<and>
        ob_state obs = step_outcome a \<and> ob_generation obs = ds_generation (wr_desired r) \<and>
        accept_observation (ds_generation (wr_desired r)) (wr_observed r) obs = Ok () \<and>
        uint (ob_sequence obs) + int n < 18446744073709551616)) \<and>
     (\<forall>r o1 b. \<exists>answer c. vb_run (vm_hypervisor E) r o1 b = (Ok answer, c))"

definition undisturbed :: "'b vmm_env \<Rightarrow> bool" where
  "undisturbed E \<longleftrightarrow> (\<forall>n. vm_store E n = calm)"

text \<open>The operation and the workload as stored, with room for \<open>n\<close> more events.\<close>

definition holds :: "operation_record \<Rightarrow> workload_record \<Rightarrow> nat \<Rightarrow> 'b vmm_world \<Rightarrow> bool" where
  "holds o1 r n w \<longleftrightarrow>
     find_operation (or_id o1) (vm_db w) = Some o1 \<and> find_workload (wr_id r) (vm_db w) = Some r \<and>
     0 \<le> int_of (db_last_sequence (vm_db w)) \<and>
     int_of (db_last_sequence (vm_db w)) + int n < 9223372036854775808"

lemma undisturbed_read:
  "undisturbed E \<Longrightarrow> vm_read E f w = Some (Ok (f (vm_db w)), w\<lparr>vm_calls := Suc (vm_calls w)\<rparr>)"
  by (simp add: undisturbed_def vm_read_def calm_def auto_run_def)

lemma undisturbed_write:
  "undisturbed E \<Longrightarrow> act (vm_db w) = Ok (Ok v, d) \<Longrightarrow>
   vm_write E act w = Some (Ok v, w\<lparr>vm_db := d, vm_calls := Suc (vm_calls w)\<rparr>)"
  by (simp add: undisturbed_def vm_write_def decide_calm)

lemma holds_calls [simp]: "holds o1 r n (w\<lparr>vm_calls := c\<rparr>) = holds o1 r n w"
  "holds o1 r n (w\<lparr>vm_backend := b\<rparr>) = holds o1 r n w"
  by (simp_all add: holds_def)

lemmas vm_steps = vm_bind_def vm_try_def vm_lift_def vm_ports_def vm_now_def

lemma undisturbed_event:
  assumes "undisturbed E" and "holds o1 r (Suc n) w"
  shows "\<exists>v. event E owner i kind obs about w = Some (Ok (), v) \<and> holds o1 r n v"
proof -
  let ?s = "db_last_sequence (vm_db w)"
  have bounds: "0 \<le> int_of ?s" "int_of ?s + int (Suc n) < 9223372036854775808"
    using assms(2) by (simp_all add: holds_def)
  then have seq: "int_of (add_i64 ?s (I64 1)) = int_of ?s + 1" by (simp add: add_i64_def)
  let ?ev = "\<lparr>we_owner = owner, we_sequence = 0, we_workload_id = i, we_at_millis = vm_clock E (vm_calls w),
      we_event_type = kind, we_observation = obs, we_operation = about\<rparr>"
  have "append_event_op ?ev (vm_db w) = Ok (Ok (word_of_int (int_of ?s + 1)),
      (vm_db w)\<lparr>db_last_sequence := add_i64 ?s (I64 1),
        db_events := db_events (vm_db w) @ [?ev\<lparr>we_sequence := word_of_int (int_of ?s + 1)\<rparr>]\<rparr>)"
    using bounds by (simp add: append_event_op_def u64_of_i64_def seq Let_def)
  then have "event E owner i kind obs about w = Some (Ok (),
      w\<lparr>vm_db := (vm_db w)\<lparr>db_last_sequence := add_i64 ?s (I64 1),
        db_events := db_events (vm_db w) @ [?ev\<lparr>we_sequence := word_of_int (int_of ?s + 1)\<rparr>]\<rparr>,
        vm_calls := Suc (Suc (vm_calls w))\<rparr>)"
    by (simp add: event_def vm_steps undisturbed_write [OF assms(1)])
  with assms(2) bounds seq show ?thesis
    by (auto simp: holds_def find_operation_def find_workload_def)
qed

lemma undisturbed_operation_event:
  assumes "undisturbed E" and "holds o1 r (Suc n) w"
  shows "\<exists>v. operation_event E o2 w = Some (Ok (), v) \<and> holds o1 r n v"
proof (cases "or_workload_id o2")
  case None
  with assms(2) show ?thesis by (simp add: operation_event_def vm_lift_def holds_def)
next
  case (Some i)
  with undisturbed_event [OF assms] show ?thesis by (simp add: operation_event_def)
qed

lemma undisturbed_replace_operation:
  assumes "undisturbed E" and "holds o1 r n w" and "or_id o2 = or_id o1" and "or_owner o2 = or_owner o1"
  shows "\<exists>v. vm_write E (replace_operation_op o2 (or_state o1)) w = Some (Ok (), v) \<and> holds o2 r n v"
proof -
  let ?d = "(vm_db w)\<lparr>db_operations := map (\<lambda>x. if or_id x = or_id o2 then o2 else x) (db_operations (vm_db w))\<rparr>"
  have "replace_operation_op o2 (or_state o1) (vm_db w) = Ok (Ok (), ?d)"
    using assms(2-4) by (simp add: replace_operation_op_def holds_def)
  moreover have "find_operation (or_id o2) ?d = Some o2"
    using find_replaced [of or_id "or_id o2" o2 "db_operations (vm_db w)"] assms(2,3)
    by (simp add: holds_def find_operation_def)
  ultimately show ?thesis
    using assms(2) by (simp add: undisturbed_write [OF assms(1)] holds_def find_workload_def)
qed

lemma undisturbed_finish:
  assumes "undisturbed E" and "holds o1 r (Suc n) w" and "or_state o1 = OpRunning"
  shows "\<exists>o2 v. finish E o1 outcome w = Some (Ok o2, v) \<and> holds o2 r n v \<and>
    or_id o2 = or_id o1 \<and> or_owner o2 = or_owner o1 \<and>
    (case outcome of Inr _ \<Rightarrow> or_state o2 = OpSucceeded
     | Inl e \<Rightarrow> or_state o2 = OpFailed \<and> or_error o2 = Some (vx_failure e))"
proof -
  let ?now = "vm_clock E (vm_calls w)"
  let ?o = "case outcome of
      Inr answer \<Rightarrow> o1\<lparr>or_state := OpSucceeded, or_updated_at_millis := ?now, or_result := answer\<rparr>
    | Inl e \<Rightarrow> o1\<lparr>or_state := OpFailed, or_updated_at_millis := ?now, or_error := Some (vx_failure e)\<rparr>"
  let ?w = "w\<lparr>vm_calls := Suc (vm_calls w)\<rparr>"
  have move: "operation_move o1 st ?now = Ok (o1\<lparr>or_state := st, or_updated_at_millis := ?now\<rparr>)"
    if "st \<in> {OpSucceeded, OpFailed}" for st
    using assms(3) that by (auto simp: operation_move_def)
  have o: "or_id ?o = or_id o1" "or_owner ?o = or_owner o1" by (simp_all split: sum.split)
  obtain v where v: "vm_write E (replace_operation_op ?o OpRunning) ?w = Some (Ok (), v)" "holds ?o r (Suc n) v"
    using undisturbed_replace_operation [OF assms(1), of o1 r "Suc n" ?w ?o] assms(2,3) o by auto
  obtain u where u: "operation_event E ?o v = Some (Ok (), u)" "holds ?o r n u"
    using undisturbed_operation_event [OF assms(1) v(2)] by blast
  have "finish E o1 outcome w = Some (Ok ?o, u)"
    using v(1) u(1) by (cases outcome) (simp_all add: finish_def vm_steps move)
  with u(2) o show ?thesis by (intro exI [of _ ?o] exI [of _ u]) (simp split: sum.split)
qed

lemma undisturbed_save:
  assumes "undisturbed E" and "holds o1 r n w" and "uint (wr_resource_version r) + 1 < 9223372036854775808"
    and "wr_id rc = wr_id r" and "wr_owner rc = wr_owner r"
    and "s = rc\<lparr>wr_resource_version := wr_resource_version r + 1, wr_updated_at_millis := vm_clock E (vm_calls w)\<rparr>"
  shows "uint (wr_resource_version s) = uint (wr_resource_version r) + 1 \<and>
    (\<exists>v. save E rc (wr_resource_version r) w = Some (Ok s, v) \<and> holds o1 s n v)"
proof -
  have nonneg: "0 \<le> uint (wr_resource_version r)" by simp
  have next_version: "uint (wr_resource_version r + 1) = uint (wr_resource_version r) + 1"
    using assms(3) by (simp add: uint_word_ariths mod_pos_pos_trivial)
  then have v: "i64_of_u64 (wr_resource_version r) = Some (I64 (uint (wr_resource_version r)))"
    "\<exists>x. signed_version (wr_resource_version r + 1) = Ok x"
    using assms(3) nonneg by (auto simp: i64_of_u64_def checked_i64_def in_i64_def signed_version_def
        intro: order_trans [OF _ nonneg])
  let ?d = "(vm_db w)\<lparr>db_workloads := map (\<lambda>x. if wr_id x = wr_id s then s else x) (db_workloads (vm_db w))\<rparr>"
  have "replace_workload_op s (I64 (uint (wr_resource_version r))) (vm_db w) = Ok (Ok (), ?d)"
    using assms(2,4,5) v by (auto simp: replace_workload_op_def holds_def assms(6) signed_version_def)
  then have "save E rc (wr_resource_version r) w =
      Some (Ok s, w\<lparr>vm_db := ?d, vm_calls := Suc (Suc (vm_calls w))\<rparr>)"
    by (simp add: save_def vm_steps Let_def replace_workload_def v undisturbed_write [OF assms(1)]
        flip: assms(6))
  moreover have "wr_id s = wr_id r" using assms(4) by (simp add: assms(6))
  then have "find_workload (wr_id s) ?d = Some s"
    using find_replaced [of wr_id "wr_id s" s "db_workloads (vm_db w)"] assms(2)
    by (simp add: holds_def find_workload_def)
  ultimately show ?thesis
    using assms(2) next_version by (simp add: holds_def find_operation_def) (simp add: assms(6))
qed

lemma undisturbed_load:
  assumes "undisturbed E" and "holds o1 r n w"
  shows "load E (wr_owner r) (wr_id r) w = Some (Ok r, w\<lparr>vm_calls := Suc (vm_calls w)\<rparr>)"
  using assms by (simp add: load_def vm_steps undisturbed_read holds_def stored_workload_def)

lemma undisturbed_observation:
  assumes "undisturbed E" and "holds o1 r (Suc n) w" and "uint (wr_resource_version r) + 1 < 9223372036854775808"
    and "accept_observation (ds_generation (wr_desired r)) (wr_observed r) obs = Ok ()"
  shows "\<exists>s v. record_observation E (wr_owner r) (wr_id r) obs applied w = Some (Ok s, v) \<and> holds o1 s n v \<and>
    wr_observed s = Some obs \<and> wr_desired s = wr_desired r \<and> wr_id s = wr_id r \<and> wr_owner s = wr_owner r \<and>
    uint (wr_resource_version s) = uint (wr_resource_version r) + 1"
proof -
  let ?w = "w\<lparr>vm_calls := Suc (vm_calls w)\<rparr>"
  let ?rc = "r\<lparr>wr_observed := Some obs,
      wr_applied_generation := (if applied \<noteq> None then applied else wr_applied_generation r)\<rparr>"
  let ?s = "?rc\<lparr>wr_resource_version := wr_resource_version r + 1, wr_updated_at_millis := vm_clock E (vm_calls ?w)\<rparr>"
  from undisturbed_save [OF assms(1) _ assms(3), of o1 "Suc n" ?w ?rc ?s] assms(2)
  obtain v where v: "uint (wr_resource_version ?s) = uint (wr_resource_version r) + 1"
    "save E ?rc (wr_resource_version r) ?w = Some (Ok ?s, v)" "holds o1 ?s (Suc n) v" by auto
  obtain u where u: "event E (wr_owner r) (wr_id r) EvObserved (Some obs) None v = Some (Ok (), u)" "holds o1 ?s n u"
    using undisturbed_event [OF assms(1) v(3)] by blast
  have "observation_attempts (Suc k) E (wr_owner r) (wr_id r) obs applied w = Some (Ok ?s, u)" for k
    using undisturbed_load [OF assms(1,2)] assms(4) v(2) u(1) by (simp add: vm_steps)
  from this [of 4] have "record_observation E (wr_owner r) (wr_id r) obs applied w = Some (Ok ?s, u)"
    by (simp add: record_observation_def CAS_ATTEMPTS_def del: observation_attempts.simps)
  with u(2) v(1) show ?thesis by (intro exI [of _ ?s] exI [of _ u]) simp
qed

lemma holds_less: "holds o1 r n w \<Longrightarrow> m \<le> n \<Longrightarrow> holds o1 r m w"
  by (simp add: holds_def)

text \<open>\<open>stepped D r s\<close>: the workload took the step reconciliation asked for.\<close>

definition wants :: "workload_record \<Rightarrow> (desired_workload_state \<times> generation) option" where
  "wants r = Some (ds_state (wr_desired r), ds_generation (wr_desired r))"

definition stepped :: "workload_record \<Rightarrow> workload_record \<Rightarrow> bool" where
  "stepped r s \<longleftrightarrow> reconcile (wants r) (wr_observed r) \<noteq> RNone \<and>
     (\<exists>obs. wr_observed s = Some obs \<and> ob_generation obs = ds_generation (wr_desired r) \<and>
        ob_state obs = step_outcome (reconcile (wants r) (wr_observed r)))"

definition same_workload :: "workload_record \<Rightarrow> workload_record \<Rightarrow> bool" where
  "same_workload r s \<longleftrightarrow> wr_id s = wr_id r \<and> wr_owner s = wr_owner r \<and> wr_desired s = wr_desired r"

text \<open>A newer generation than the operation's is desired.\<close>

definition superseded :: "operation_record \<Rightarrow> workload_record \<Rightarrow> bool" where
  "superseded o1 r \<longleftrightarrow>
     (\<exists>g. or_generation o1 = Some g \<and> generation_get g < generation_get (ds_generation (wr_desired r)))"

lemma converge_unless_superseded:
  "converge E o1 r =
     (if superseded o1 r
      then vm_lift (Err \<lparr>vx_failure = VStaleGeneration, vx_current_generation = Some (ds_generation (wr_desired r))\<rparr>)
      else converge E (o1\<lparr>or_generation := None\<rparr>) r)"
  by (auto simp: converge_def superseded_def Let_def split: option.split cong: if_cong)

lemma undisturbed_converge:
  assumes "undisturbed E" and "obliging E" and "holds o1 r (Suc (Suc n)) w"
    and "uint (wr_resource_version r) + 1 < 9223372036854775808"
    and "\<not> superseded o1 r" and "or_owner o1 = wr_owner r"
    and action: "reconcile (wants r) (wr_observed r) \<noteq> RNone" and "room (Suc m) r"
  shows "\<exists>s v. converge E o1 r w = Some (Ok (reconcile (wants r) (wr_observed s) = RNone), v) \<and>
    holds o1 s n v \<and> same_workload r s \<and> stepped r s \<and> room m s \<and>
    uint (wr_resource_version s) = uint (wr_resource_version r) + 1"
proof -
  obtain obs c where step: "vb_step (vm_hypervisor E) r (reconcile (wants r) (wr_observed r)) (vm_backend w) = (Ok obs, c)"
    and obs: "ob_state obs = step_outcome (reconcile (wants r) (wr_observed r))"
      "ob_generation obs = ds_generation (wr_desired r)"
      "accept_observation (ds_generation (wr_desired r)) (wr_observed r) obs = Ok ()"
      "uint (ob_sequence obs) + int m < 18446744073709551616"
    using assms(2,8) unfolding obliging_def by meson
  let ?w = "w\<lparr>vm_backend := c\<rparr>"
  obtain s v where s: "record_observation E (wr_owner r) (wr_id r) obs (Some (ds_generation (wr_desired r))) ?w =
      Some (Ok s, v)" "holds o1 s (Suc n) v" "wr_observed s = Some obs" "wr_desired s = wr_desired r"
    "wr_id s = wr_id r" "wr_owner s = wr_owner r" "uint (wr_resource_version s) = uint (wr_resource_version r) + 1"
    using undisturbed_observation [OF assms(1) _ assms(4) obs(3), of o1 "Suc n" ?w
        "Some (ds_generation (wr_desired r))"] assms(3) by auto
  let ?done = "reconcile (wants r) (wr_observed s) = RNone"
  have "\<exists>u. (if ?done \<and> ds_state (wr_desired s) = DDeleted
      then event E (wr_owner r) (wr_id s) EvDeleted None (Some (or_id o1)) else vm_ok ()) v = Some (Ok (), u) \<and>
      holds o1 s n u"
    using undisturbed_event [OF assms(1) s(2)] holds_less [OF s(2), of n] by (simp add: vm_lift_def)
  then obtain u where u: "(if ?done \<and> ds_state (wr_desired s) = DDeleted
      then event E (wr_owner r) (wr_id s) EvDeleted None (Some (or_id o1)) else vm_ok ()) v = Some (Ok (), u)"
    "holds o1 s n u" by blast
  have "converge E o1 r w = Some (Ok ?done, u)"
    using s(1) u(1) step action assms(5,6)
    by (subst converge_unless_superseded)
      (auto simp: converge_def Let_def vm_steps vm_call_def wants_def split: if_splits)
  then show ?thesis
    using u(2) s obs(1,2,4) action assms(8)
    by (intro exI [of _ s] exI [of _ u]) (simp add: same_workload_def stepped_def room_def)
qed

definition lifecycle_kinds :: "operation_kind set" where
  "lifecycle_kinds = - {KInvoke, KExec, KBuild, KSnapshot, KCopyFiles}"

text \<open>
  How an operation ends: it succeeds with nothing left to do, a newer generation replaced the one
  it is for, or its deadline passed. An attempt ends it or leaves it running after a step.
\<close>

definition late :: "'b vmm_env \<Rightarrow> operation_record \<Rightarrow> bool" where
  "late E o1 \<longleftrightarrow> (\<exists>deadline n. or_deadline_millis o1 = Some deadline \<and> deadline \<le> vm_clock E n)"

definition ended :: "'b vmm_env \<Rightarrow> operation_record \<Rightarrow> workload_record \<Rightarrow> operation_record \<Rightarrow> workload_record \<Rightarrow> bool" where
  "ended E o1 r o2 s \<longleftrightarrow>
     or_state o2 = OpSucceeded \<and> \<not> superseded o1 r \<and> reconcile (wants r) (wr_observed s) = RNone \<or>
     or_state o2 = OpFailed \<and> or_error o2 = Some VStaleGeneration \<and> superseded o1 r \<or>
     or_state o2 = OpFailed \<and> or_error o2 = Some VDeadlineExceeded \<and> late E o1"

definition attempted ::
  "'b vmm_env \<Rightarrow> nat \<Rightarrow> operation_record \<Rightarrow> workload_record \<Rightarrow> operation_record \<Rightarrow> workload_record \<Rightarrow> bool" where
  "attempted E m o1 r o2 s \<longleftrightarrow> same_workload r s \<and> or_id o2 = or_id o1 \<and> or_owner o2 = or_owner o1 \<and>
     (ended E o1 r o2 s \<or>
      o2 = o1 \<and> reconcile (wants r) (wr_observed s) \<noteq> RNone \<and> stepped r s \<and> room m s \<and>
        uint (wr_resource_version s) = uint (wr_resource_version r) + 1)"

definition converging :: "'b vmm_env \<Rightarrow> operation_record \<Rightarrow> workload_record \<Rightarrow> (operation_record, vmm_error, 'b) vm" where
  "converging E o1 r = vm_try (converge E o1 r) (\<lambda>x.
      case x of Inr True \<Rightarrow> finish E o1 (Ok None) | Inr False \<Rightarrow> vm_ok o1
      | Inl e \<Rightarrow> if vmm_retryable (vx_failure e) then vm_ok o1 else finish E o1 (Err e))"

lemma undisturbed_converging:
  assumes "undisturbed E" and "obliging E" and w: "holds o1 r (Suc (Suc (Suc n))) w"
    and "uint (wr_resource_version r) + 1 < 9223372036854775808"
    and "or_owner o1 = wr_owner r" and "or_state o1 = OpRunning" and "room (Suc m) r"
  shows "\<exists>o2 s v. converging E o1 r w = Some (Ok o2, v) \<and> holds o2 s n v \<and> attempted E m o1 r o2 s"
proof (cases "superseded o1 r")
  case True
  let ?e = "\<lparr>vx_failure = VStaleGeneration, vx_current_generation = Some (ds_generation (wr_desired r))\<rparr>"
  have "converging E o1 r w = finish E o1 (Err ?e) w"
    by (simp add: converging_def converge_unless_superseded [of E o1] True vm_try_def vm_lift_def vmm_retryable_def)
  moreover have "same_workload r r" by (simp add: same_workload_def)
  ultimately show ?thesis
    using undisturbed_finish [OF assms(1) holds_less [OF w, of "Suc n"] assms(6), of "Err ?e"] True
    by (auto simp: attempted_def ended_def)
next
  case False
  have finished: "\<exists>o2 v. finish E o1 (Ok None) u = Some (Ok o2, v) \<and> holds o2 s n v \<and> attempted E m o1 r o2 s"
    if "holds o1 s (Suc n) u" "same_workload r s" "reconcile (wants r) (wr_observed s) = RNone" for s u
    using undisturbed_finish [OF assms(1) that(1) assms(6), of "Ok None"] that(2,3) False
    by (auto simp: attempted_def ended_def)
  show ?thesis
  proof (cases "reconcile (wants r) (wr_observed r) = RNone")
    case True
    then have "converge E o1 r w = Some (Ok True, w)"
      using False by (subst converge_unless_superseded) (simp add: converge_def wants_def vm_lift_def)
    moreover have "same_workload r r" by (simp add: same_workload_def)
    ultimately show ?thesis
      using finished [of r w] True holds_less [OF w, of "Suc n"] by (auto simp: converging_def vm_try_def)
  next
    case step: False
    from undisturbed_converge [OF assms(1,2) w assms(4) False assms(5) step assms(7)]
    obtain s u where c: "converge E o1 r w = Some (Ok (reconcile (wants r) (wr_observed s) = RNone), u)"
      "holds o1 s (Suc n) u" "same_workload r s" "stepped r s" "room m s"
      "uint (wr_resource_version s) = uint (wr_resource_version r) + 1" by blast
    show ?thesis
    proof (cases "reconcile (wants r) (wr_observed s) = RNone")
      case True
      with c finished [OF c(2,3)] show ?thesis by (auto simp: converging_def vm_try_def)
    next
      case False
      then have "converging E o1 r w = Some (Ok o1, u)"
        using c(1) by (simp add: converging_def vm_try_def vm_lift_def)
      with False c(3-6) holds_less [OF c(2), of n] show ?thesis
        by (intro exI [of _ o1] exI [of _ s] exI [of _ u]) (simp add: attempted_def)
    qed
  qed
qed

lemma undisturbed_execute_running:
  assumes "undisturbed E" and "obliging E" and "holds o1 r (Suc (Suc (Suc n))) w"
    and "uint (wr_resource_version r) + 1 < 9223372036854775808"
    and "or_owner o1 = wr_owner r" and "or_kind o1 \<in> lifecycle_kinds" and "or_workload_id o1 = Some (wr_id r)"
    and "or_state o1 = OpRunning" and "room (Suc m) r"
  shows "\<exists>o2 s v. execute_running E (wr_owner r) o1 w = Some (Ok o2, v) \<and> holds o2 s n v \<and> attempted E m o1 r o2 s"
proof -
  let ?w = "w\<lparr>vm_calls := Suc (vm_calls w)\<rparr>"
  obtain answer b where b: "vb_run (vm_hypervisor E) (Some r) o1 (vm_backend w) = (Ok answer, b)"
    using assms(2) unfolding obliging_def by meson
  let ?b = "w\<lparr>vm_calls := Suc (Suc (vm_calls w)), vm_backend := b\<rparr>"
  have "load E (wr_owner r) (wr_id r) (?w\<lparr>vm_backend := b\<rparr>) = Some (Ok r, ?b)"
    using undisturbed_load [OF assms(1), of o1 r "Suc (Suc (Suc n))" "?w\<lparr>vm_backend := b\<rparr>"] assms(3) by simp
  then have "execute_running E (wr_owner r) o1 w = converging E o1 r ?w \<or>
      execute_running E (wr_owner r) o1 w = converging E o1 r ?b"
    using undisturbed_load [OF assms(1,3)] assms(6,7) b
    by (auto simp: execute_running_def lifecycle_kinds_def vm_bind_def vm_try_def vm_lift_def vm_ports_def vm_call_def
        converging_def [abs_def] Let_def)
  then show ?thesis
    using undisturbed_converging [OF assms(1,2) _ assms(4,5,8,9), of n ?w]
      undisturbed_converging [OF assms(1,2) _ assms(4,5,8,9), of n ?b] assms(3) by auto
qed

lemma undisturbed_operation:
  assumes "undisturbed E" and "holds o1 r n w"
  shows "operation E (or_owner o1) (or_id o1) w = Some (Ok o1, w\<lparr>vm_calls := Suc (vm_calls w)\<rparr>)"
  using assms by (simp add: operation_def vm_steps undisturbed_read holds_def stored_operation_def)

lemma undisturbed_claimed:
  assumes "undisturbed E" and "obliging E" and "holds o1 r (Suc (Suc (Suc n))) w"
    and "uint (wr_resource_version r) + 1 < 9223372036854775808"
    and "or_owner o1 = wr_owner r" and "or_kind o1 \<in> lifecycle_kinds" and "or_workload_id o1 = Some (wr_id r)"
    and "or_state o1 = OpRunning" and "room (Suc m) r"
  shows "\<exists>o2 s v. execute_claimed E (wr_owner r) o1 w = Some (Ok o2, v) \<and> holds o2 s n v \<and> attempted E m o1 r o2 s"
proof (cases "or_deadline_millis o1")
  case None
  then show ?thesis using undisturbed_execute_running [OF assms] assms(8) by (simp add: execute_claimed_def)
next
  case (Some deadline)
  let ?now = "vm_clock E (vm_calls w)" and ?w = "w\<lparr>vm_calls := Suc (vm_calls w)\<rparr>"
  have w: "holds o1 r (Suc (Suc (Suc n))) ?w" using assms(3) by simp
  show ?thesis
  proof (cases "deadline \<le> ?now")
    case False
    with undisturbed_execute_running [OF assms(1,2) w assms(4-)] Some assms(8) show ?thesis
      by (simp add: execute_claimed_def vm_steps)
  next
    case True
    then have "late E o1" using Some unfolding late_def by blast
    moreover have "same_workload r r" by (simp add: same_workload_def)
    moreover have "execute_claimed E (wr_owner r) o1 w = finish E o1 (Err (vmm_fails VDeadlineExceeded)) ?w"
      using True Some assms(8) by (simp add: execute_claimed_def vm_steps)
    ultimately show ?thesis
      using undisturbed_finish [OF assms(1) holds_less [OF w, of "Suc n"] assms(8), of "Err (vmm_fails VDeadlineExceeded)"]
      by (auto simp: attempted_def ended_def vmm_fails_def)
  qed
qed

text \<open>An operation executed by its owner: pending ones are claimed first.\<close>

lemma undisturbed_execute:
  assumes "undisturbed E" and "obliging E" and "holds o1 r (Suc (Suc (Suc n))) w"
    and "uint (wr_resource_version r) + 1 < 9223372036854775808"
    and "or_owner o1 = wr_owner r" and "or_kind o1 \<in> lifecycle_kinds" and "or_workload_id o1 = Some (wr_id r)"
    and "unfinished (or_state o1)" and "room (Suc m) r"
  shows "\<exists>o2 s v claimed. execute E (or_id o1) (wr_owner r) w = Some (Ok o2, v) \<and> holds o2 s n v \<and>
    same_request o1 claimed \<and> or_state claimed = OpRunning \<and> attempted E m claimed r o2 s"
proof (cases "or_state o1 = OpRunning")
  case True
  let ?w = "w\<lparr>vm_calls := Suc (vm_calls w)\<rparr>"
  from undisturbed_claimed [OF assms(1,2) _ assms(4-7) True assms(9), of n ?w] assms(3)
  obtain o2 s v where "execute_claimed E (wr_owner r) o1 ?w = Some (Ok o2, v)" "holds o2 s n v" "attempted E m o1 r o2 s"
    by auto
  with undisturbed_operation [OF assms(1,3)] True assms(5) show ?thesis
    by (intro exI [of _ o2] exI [of _ s] exI [of _ v] exI [of _ o1])
      (simp add: execute_def vm_steps same_request_def)
next
  case False
  with assms(8) have pending: "or_state o1 = OpPending" by simp
  let ?w = "w\<lparr>vm_calls := Suc (Suc (vm_calls w))\<rparr>"
  let ?o = "o1\<lparr>or_state := OpRunning, or_updated_at_millis := vm_clock E (Suc (vm_calls w))\<rparr>"
  have move: "operation_move o1 OpRunning (vm_clock E (Suc (vm_calls w))) = Ok ?o"
    using pending by (simp add: operation_move_def)
  obtain u where u: "vm_write E (replace_operation_op ?o OpPending) ?w = Some (Ok (), u)"
    "holds ?o r (Suc (Suc (Suc n))) u"
    using undisturbed_replace_operation [OF assms(1), of o1 r "Suc (Suc (Suc n))" ?w ?o] assms(3) pending by auto
  from undisturbed_claimed [OF assms(1,2) u(2) assms(4) _ _ _ _ assms(9)] assms(5-7)
  obtain o2 s v where "execute_claimed E (wr_owner r) ?o u = Some (Ok o2, v)" "holds o2 s n v" "attempted E m ?o r o2 s"
    by auto
  with undisturbed_operation [OF assms(1,3)] u(1) move pending assms(5) show ?thesis
    by (intro exI [of _ o2] exI [of _ s] exI [of _ v] exI [of _ ?o])
      (simp add: execute_def vm_steps same_request_def)
qed

lemma ended_same_request: "same_request o1 c \<Longrightarrow> ended E c r o2 s \<longleftrightarrow> ended E o1 r o2 s"
  by (simp add: ended_def superseded_def late_def same_request_def)

lemma attempted_twice:
  assumes "attempted E m c1 r o2 s" and "\<not> ended E c1 r o2 s" and "attempted E k c2 s o4 t"
    and "same_request c1 c2"
  shows "ended E c1 r o4 t \<and> same_workload r t"
proof -
  have first: "same_workload r s" "reconcile (wants r) (wr_observed s) \<noteq> RNone" "stepped r s"
    using assms(1,2) by (auto simp: attempted_def)
  have same: "same_workload r t" "wants s = wants r" "ds_generation (wr_desired s) = ds_generation (wr_desired r)"
    using first(1) assms(3) by (auto simp: attempted_def same_workload_def wants_def)
  have "reconcile (wants r) (wr_observed t) = RNone" if st: "stepped s t"
  proof -
    obtain a where a: "wr_observed s = Some a" "ob_generation a = ds_generation (wr_desired r)"
      "ob_state a = step_outcome (reconcile (wants r) (wr_observed r))" "reconcile (wants r) (wr_observed r) \<noteq> RNone"
      using first(3) by (auto simp: stepped_def)
    obtain b where b: "wr_observed t = Some b" "ob_generation b = ds_generation (wr_desired r)"
      "ob_state b = step_outcome (reconcile (wants r) (Some a))"
      using st a(1) same by (auto simp: stepped_def)
    from reconcile_two_steps [OF a(3) [unfolded wants_def] a(2) b(3) [unfolded wants_def] b(2) a(4) [unfolded wants_def]]
    show ?thesis using first(2) a(1) b(1) by (simp add: wants_def)
  qed
  then have "ended E c2 s o4 t" using assms(3) same by (auto simp: attempted_def)
  then have "ended E c2 r o4 t" using same(2,3) by (simp add: ended_def superseded_def)
  with same(1) ended_same_request [OF assms(4)] show ?thesis by blast
qed

text \<open>
  C8. A lifecycle operation ends. Where the backend takes each step it is asked for and reports it
  in order, and no transaction is lost or disturbed, two attempts end an unfinished operation on
  a workload's lifecycle: it fails as stale where a newer generation than its own is desired, it
  fails where its deadline has passed at an attempt, and otherwise it succeeds with the workload
  in the desired state, where reconciliation has nothing left to do. (The version, the
  observation sequence and the event sequence have room to count.)
\<close>

theorem lifecycle_operation_converges:
  assumes "undisturbed E" and "obliging E"
    and "find_operation i (vm_db w) = Some o1" and "find_workload k (vm_db w) = Some r"
    and "or_workload_id o1 = Some k" and "or_owner o1 = wr_owner r" and "or_kind o1 \<in> lifecycle_kinds"
    and "unfinished (or_state o1)"
    and "room 2 r" and "uint (wr_resource_version r) + 2 < 9223372036854775808"
    and "0 \<le> int_of (db_last_sequence (vm_db w))"
    and "int_of (db_last_sequence (vm_db w)) + 6 < 9223372036854775808"
  shows "\<exists>o2 v o3 u s. execute E i (wr_owner r) w = Some (Ok o2, v) \<and>
    execute E i (wr_owner r) v = Some (Ok o3, u) \<and>
    find_workload k (vm_db u) = Some s \<and> wr_desired s = wr_desired r \<and>
    (or_state o3 = OpSucceeded \<and> \<not> superseded o1 r \<and>
       reconcile (Some (ds_state (wr_desired r), ds_generation (wr_desired r))) (wr_observed s) = RNone \<or>
     or_state o3 = OpFailed \<and> or_error o3 = Some VStaleGeneration \<and> superseded o1 r \<or>
     or_state o3 = OpFailed \<and> or_error o3 = Some VDeadlineExceeded \<and>
       (\<exists>deadline n. or_deadline_millis o1 = Some deadline \<and> deadline \<le> vm_clock E n))"
proof -
  have ids: "or_id o1 = i" "wr_id r = k" using assms(3,4) find_operation_Some find_workload_Some by auto
  have "holds o1 r (Suc (Suc (Suc 3))) w" using assms(3,4,11,12) ids by (simp add: holds_def)
  from undisturbed_execute [OF assms(1,2) this _ assms(6,7) _ assms(8), of 1] assms(5,9,10) ids
  obtain o2 s v c1 where one: "execute E i (wr_owner r) w = Some (Ok o2, v)" "holds o2 s 3 v"
    "same_request o1 c1" "or_state c1 = OpRunning" "attempted E 1 c1 r o2 s"
    by (auto simp: numeral_2_eq_2)
  have o2: "or_id o2 = i" "or_owner o2 = wr_owner r" "wr_id s = k" "wr_owner s = wr_owner r"
    using one(3,5) ids assms(6) by (auto simp: attempted_def same_request_def same_workload_def)
  have "\<exists>o3 u t. execute E i (wr_owner r) v = Some (Ok o3, u) \<and> holds o3 t 0 u \<and> same_workload r t \<and> ended E c1 r o3 t"
  proof (cases "ended E c1 r o2 s")
    case True
    then have "\<not> unfinished (or_state o2)" by (auto simp: ended_def)
    then have "execute E i (wr_owner r) v = Some (Ok o2, v\<lparr>vm_calls := Suc (vm_calls v)\<rparr>)"
      using undisturbed_operation [OF assms(1) one(2)] o2 by (simp add: execute_def execute_claimed_def vm_steps)
    with True one(2,5) show ?thesis
      using holds_less [of o2 s 3 "v\<lparr>vm_calls := Suc (vm_calls v)\<rparr>" 0] by (auto simp: attempted_def)
  next
    case False
    then have running: "o2 = c1" "room 1 s" "uint (wr_resource_version s) = uint (wr_resource_version r) + 1"
      using one(5) by (auto simp: attempted_def)
    have "or_owner o2 = wr_owner s" "or_kind o2 \<in> lifecycle_kinds" "or_workload_id o2 = Some (wr_id s)"
      "unfinished (or_state o2)"
      using one(3,4) assms(5,7) o2 running(1) by (auto simp: same_request_def)
    from undisturbed_execute [OF assms(1,2) one(2) [unfolded numeral_3_eq_3] _ this, of 0] assms(10) running(2,3) o2
    obtain o4 t u c2 where two: "execute E i (wr_owner r) v = Some (Ok o4, u)" "holds o4 t 0 u"
      "same_request o2 c2" "attempted E 0 c2 s o4 t" by auto
    from attempted_twice [OF one(5) False two(4)] two(1-3) running(1) show ?thesis by blast
  qed
  then obtain o3 u t where "execute E i (wr_owner r) v = Some (Ok o3, u)" "holds o3 t 0 u" "same_workload r t"
    "ended E o1 r o3 t" using ended_same_request [OF one(3)] by blast
  with one(1) ids show ?thesis
    by (intro exI [of _ o2] exI [of _ v] exI [of _ o3] exI [of _ u] exI [of _ t])
      (auto simp: ended_def late_def wants_def same_workload_def holds_def)
qed

section \<open>Examples\<close>

definition sample_vmm :: "unit vmm_env" where
  "sample_vmm = \<lparr>vm_clock = (\<lambda>n. I64 (int n)), vm_ids = (\<lambda>n. word_of_nat n), vm_store = (\<lambda>_. calm),
     vm_hypervisor = \<lparr>vb_describe = (\<lambda>b. (Ok [], b)),
       vb_step = (\<lambda>r a b. (Ok \<lparr>ob_state = step_outcome a, ob_generation = ds_generation (wr_desired r),
         ob_sequence = (case wr_observed r of Some o1 \<Rightarrow> ob_sequence o1 + 1 | None \<Rightarrow> 1),
         ob_reason = None, ob_observed_at_millis = I64 0\<rparr>, b)),
       vb_observe_all = (\<lambda>b. (Ok [], b)), vb_run = (\<lambda>r o1 b. (Ok ''done'', b))\<rparr>\<rparr>"

definition sample_workload :: "desired_workload_state \<Rightarrow> workload_record" where
  "sample_workload state = \<lparr>wr_owner = ''n'', wr_id = WorkloadId 7,
     wr_labels = \<lparr>wl_creature_id = 1, wl_program_id = 2, wl_entity_id = ''e'', wl_legacy_machine_id = None,
       wl_legacy_vm_id = None\<rparr>,
     wr_spec = \<lparr>ws_runtime = ''wasm'', ws_ingress = [], ws_credential = None, ws_rest = ''r''\<rparr>,
     wr_desired = \<lparr>ds_state = state, ds_generation = Generation 5\<rparr>, wr_applied_generation = None,
     wr_observed = None, wr_resource_version = 3, wr_created_at_millis = I64 0, wr_updated_at_millis = I64 0\<rparr>"

definition sample_operation :: operation_record where
  "sample_operation = \<lparr>or_owner = ''n'', or_id = OperationId 9, or_workload_id = Some (WorkloadId 7),
     or_kind = KPause, or_state = OpPending, or_generation = Some (Generation 5), or_request = None,
     or_created_at_millis = I64 0, or_updated_at_millis = I64 0, or_deadline_millis = None, or_result = None,
     or_error = None\<rparr>"

definition sample_vmm_world :: "desired_workload_state \<Rightarrow> unit vmm_world" where
  "sample_vmm_world state = \<lparr>vm_db = \<lparr>db_workloads = [sample_workload state], db_operations = [sample_operation],
     db_events = [], db_last_sequence = I64 0\<rparr>, vm_backend = (), vm_calls = 0\<rparr>"

lemma sample_vmm_undisturbed: "undisturbed sample_vmm"
  by (simp add: undisturbed_def sample_vmm_def)

lemma sample_vmm_neighbours: "good_neighbours sample_vmm"
  by (simp add: good_neighbours_def sample_vmm_def calm_def)

lemma sample_vmm_typed: "vmm_typed (vm_db (sample_vmm_world state))"
  by (simp add: vmm_typed_def sample_vmm_world_def workload_typed_def operation_typed_def versioned_def in_i64_def)
    (simp add: sample_workload_def sample_operation_def)

lemma sample_vmm_obliging: "obliging sample_vmm"
  unfolding obliging_def
proof (intro conjI allI impI)
  fix n r a b
  assume "room (Suc n) r"
  then have "uint (ob_sequence o1 + 1) = uint (ob_sequence o1) + 1"
    if "wr_observed r = Some o1" for o1
    using that by (auto simp: room_def uint_word_ariths intro!: mod_pos_pos_trivial)
  with \<open>room (Suc n) r\<close> show "\<exists>obs c. vb_step (vm_hypervisor sample_vmm) r a b = (Ok obs, c) \<and>
        ob_state obs = step_outcome a \<and> ob_generation obs = ds_generation (wr_desired r) \<and>
        accept_observation (ds_generation (wr_desired r)) (wr_observed r) obs = Ok () \<and>
        uint (ob_sequence obs) + int n < 18446744073709551616"
    by (cases "wr_observed r") (auto simp: sample_vmm_def room_def accept_observation_def word_less_def word_le_def)
qed (simp add: sample_vmm_def)


theorem vmm_records_well_typed_witness:
  "\<exists>v s. vmm_reach sample_vmm (sample_vmm_world DDeleted) v \<and>
     vmm_serve sample_vmm (ReqCommand ''n'' (WorkloadId 7) CStart (Generation 6) None None)
       (sample_vmm_world DDeleted) = Some (Err (of_lifecycle LDeleted), v) \<and> vmm_typed (vm_db v) \<and>
     find_workload (WorkloadId 7) (vm_db v) = Some s \<and> ds_state (wr_desired s) = DDeleted"
proof -
  let ?w = "sample_vmm_world DDeleted"
  have found: "find_workload (WorkloadId 7) (vm_db ?w) = Some (sample_workload DDeleted)"
    by (simp add: find_workload_def sample_vmm_world_def) (simp add: sample_workload_def)
  have "load sample_vmm ''n'' (WorkloadId 7) ?w = Some (Ok (sample_workload DDeleted), ?w\<lparr>vm_calls := 1\<rparr>)"
    using found by (simp add: load_def vm_steps undisturbed_read [OF sample_vmm_undisturbed] stored_workload_def)
      (simp add: sample_workload_def sample_vmm_world_def)
  then have run: "vmm_serve sample_vmm (ReqCommand ''n'' (WorkloadId 7) CStart (Generation 6) None None) ?w =
      Some (Err (of_lifecycle LDeleted), ?w\<lparr>vm_calls := 1\<rparr>)"
    by (simp add: command_def vm_unit_def vm_steps freshness_def command_freshness_def check_version_def)
      (simp add: sample_workload_def vm_lift_def)
  then have reach: "vmm_reach sample_vmm ?w (?w\<lparr>vm_calls := 1\<rparr>)"
    by (rule reach_serve [OF reach_start])
  from vmm_records_well_typed [OF reach sample_vmm_neighbours sample_vmm_typed] found
  obtain s where "vmm_typed (vm_db ?w)" "find_workload (WorkloadId 7) (vm_db ?w) = Some s"
    "wr_desired s = wr_desired (sample_workload DDeleted)"
    by (auto simp: sample_workload_def)
  with reach run show ?thesis by (auto simp: sample_workload_def)
qed

theorem vmm_requests_return_witness:
  "\<exists>r v. vmm_serve sample_vmm (ReqCommand ''n'' (WorkloadId 7) CPause (Generation 5) None None)
     (sample_vmm_world DPaused) = Some (r, v)"
  by (rule vmm_requests_return [OF sample_vmm_neighbours sample_vmm_typed])

theorem lifecycle_operation_converges_witness:
  "\<exists>o2 v o3 u s. execute sample_vmm (OperationId 9) ''n'' (sample_vmm_world DPaused) = Some (Ok o2, v) \<and>
     execute sample_vmm (OperationId 9) ''n'' v = Some (Ok o3, u) \<and> or_state o3 = OpSucceeded \<and>
     find_workload (WorkloadId 7) (vm_db u) = Some s \<and>
     reconcile (Some (DPaused, Generation 5)) (wr_observed s) = RNone"
proof -
  let ?w = "sample_vmm_world DPaused"
  have "find_operation (OperationId 9) (vm_db ?w) = Some sample_operation"
    "find_workload (WorkloadId 7) (vm_db ?w) = Some (sample_workload DPaused)"
    by (simp_all add: find_operation_def find_workload_def sample_vmm_world_def)
      (simp_all add: sample_operation_def sample_workload_def)
  from lifecycle_operation_converges [OF sample_vmm_undisturbed sample_vmm_obliging this]
  show ?thesis
    by (fastforce simp: sample_operation_def sample_workload_def lifecycle_kinds_def room_def sample_vmm_world_def
        superseded_def)
qed

end
