(* ===== verification/Ordered_Map.thy ===== *)
theory Ordered_Map
  imports Aseman_Prelude
begin

text \<open>
  \<open>BTreeMap\<close> of the standard library: the list of its entries in the order of its keys, which
  strictly ascend. Two maps with the same entries are the same list, so a map that was taken
  apart and put together again in any order is the map it was.
\<close>

fun bt_insert :: "'k::linorder \<Rightarrow> 'v \<Rightarrow> ('k \<times> 'v) list \<Rightarrow> ('k \<times> 'v) list" where
  "bt_insert k v [] = [(k, v)]"
| "bt_insert k v ((j, w) # m) =
     (if k < j then (k, v) # (j, w) # m
      else if k = j then (k, v) # m
      else (j, w) # bt_insert k v m)"

definition bt_remove :: "'k \<Rightarrow> ('k \<times> 'v) list \<Rightarrow> ('k \<times> 'v) list" where
  "bt_remove k m = filter (\<lambda>(j, _). j \<noteq> k) m"

definition bt_ok :: "('k::linorder \<times> 'v) list \<Rightarrow> bool" where
  "bt_ok m \<longleftrightarrow> sorted_wrt (<) (map fst m)"

definition bt_from :: "('k::linorder \<times> 'v) list \<Rightarrow> ('k \<times> 'v) list" where
  "bt_from es = foldl (\<lambda>m (k, v). bt_insert k v m) [] es"

lemma bt_ok_Nil [simp]: "bt_ok []"
  by (simp add: bt_ok_def)

lemma bt_ok_Cons [simp]: "bt_ok ((k, v) # m) \<longleftrightarrow> (\<forall>j \<in> fst ` set m. k < j) \<and> bt_ok m"
  by (auto simp: bt_ok_def)

lemma bt_ok_distinct: "bt_ok m \<Longrightarrow> distinct (map fst m)"
  unfolding bt_ok_def by (simp add: strict_sorted_iff)

lemma bt_insert_keys: "fst ` set (bt_insert k v m) = insert k (fst ` set m)"
  by (induction k v m rule: bt_insert.induct) auto

lemma bt_insert_ok: "bt_ok m \<Longrightarrow> bt_ok (bt_insert k v m)"
proof (induction k v m rule: bt_insert.induct)
  case (2 k v j w m)
  show ?case
  proof (cases "k < j \<or> k = j")
    case True
    then show ?thesis using 2(2) by auto
  next
    case False
    then have "j < k" by auto
    with False 2 show ?thesis by (simp add: bt_insert_keys)
  qed
qed simp

lemma bt_get_insert: "bt_ok m \<Longrightarrow> map_of (bt_insert k v m) = (map_of m)(k \<mapsto> v)"
  by (induction k v m rule: bt_insert.induct) auto

lemma bt_get_remove: "map_of (bt_remove k m) = (map_of m)(k := None)"
  by (induction m) (auto simp: bt_remove_def)

lemma bt_remove_ok: "bt_ok m \<Longrightarrow> bt_ok (bt_remove k m)"
  by (induction m) (auto simp: bt_remove_def)

lemma bt_set_insert:
  "bt_ok m \<Longrightarrow> set (bt_insert k v m) = insert (k, v) {e \<in> set m. fst e \<noteq> k}"
  by (induction k v m rule: bt_insert.induct) auto

text \<open>A map is determined by what it holds.\<close>

lemma bt_entries: "bt_ok m \<Longrightarrow> (k, v) \<in> set m \<longleftrightarrow> map_of m k = Some v"
  using map_of_eq_Some_iff [OF bt_ok_distinct] by fastforce

lemma bt_same_entries:
  assumes "bt_ok m" and "bt_ok n" and "set m = set n"
  shows "m = n"
proof (rule map_sorted_distinct_set_unique)
  show "inj_on fst (set m \<union> set n)"
    using bt_ok_distinct [OF assms(1)] assms(3) by (simp add: distinct_map)
qed (use assms in \<open>auto simp: bt_ok_def strict_sorted_iff\<close>)

lemma bt_ext:
  assumes "bt_ok m" and "bt_ok n" and "map_of m = map_of n"
  shows "m = n"
  using assms bt_entries [OF assms(1)] bt_entries [OF assms(2)] by (intro bt_same_entries) auto

lemma bt_inserts_ok: "bt_ok m \<Longrightarrow> bt_ok (foldl (\<lambda>m (k, v). bt_insert k v m) m es)"
  by (induction es arbitrary: m) (auto simp: bt_insert_ok)

lemma bt_inserts_get:
  "bt_ok m \<Longrightarrow> map_of (foldl (\<lambda>m (k, v). bt_insert k v m) m es) = map_of m ++ map_of (rev es)"
  by (induction es arbitrary: m) (auto simp: bt_insert_ok bt_get_insert map_add_assoc)

lemma bt_from_ok: "bt_ok (bt_from es)"
  by (simp add: bt_from_def bt_inserts_ok)

lemma bt_from_get:
  assumes "distinct (map fst es)"
  shows "map_of (bt_from es) = map_of es"
proof
  fix k
  have d: "distinct (map fst (rev es))" using assms by (simp add: rev_map [symmetric])
  have "map_of (rev es) k = Some v \<longleftrightarrow> map_of es k = Some v" for v
    using map_of_eq_Some_iff [OF d] map_of_eq_Some_iff [OF assms] by simp
  then have "map_of (rev es) k = map_of es k" by (metis not_None_eq)
  then show "map_of (bt_from es) k = map_of es k" by (simp add: bt_from_def bt_inserts_get)
qed

text \<open>A map built from its own entries, in whatever order, is itself.\<close>

lemma bt_from_entries:
  assumes "bt_ok m" and "set es = set m" and "distinct (map fst es)"
  shows "bt_from es = m"
proof (rule bt_ext)
  have "map_of es k = Some v \<longleftrightarrow> map_of m k = Some v" for k v
    using map_of_eq_Some_iff [OF assms(3)] bt_entries [OF assms(1)] assms(2) by simp
  then show "map_of (bt_from es) = map_of m"
    using bt_from_get [OF assms(3)] by (metis (no_types, lifting) ext not_None_eq)
qed (simp_all add: assms(1) bt_from_ok)

end
