(* ===== verification/Capsule_Format.thy ===== *)
theory Capsule_Format
  imports Key_Directory Ordered_Map
begin

text \<open>
  Capsule values as deterministic CBOR (\<open>crates/aseman-contracts/src/capsule.rs\<close>): the encoder,
  the decoder, and that they are inverse to each other.

  A float is its IEEE 754 bits, a string its UTF-8 bytes, an object the ordered map of its
  fields. The decoder's state is the bytes after its offset.
\<close>

unbundle bit_operations_syntax

declare and_then_cong [fundef_cong] collect_cong [fundef_cong] try_each_cong [fundef_cong]

section \<open>Floating point\<close>

text \<open>
  What the code uses of the language: finiteness, \<open>==\<close>, and the casts between \<open>f64\<close> and \<open>f32\<close>,
  which round to the nearest and a tie to even. The payload of a NaN is not kept; no caller
  looks at it.
\<close>

definition f64_exponent :: "u64 \<Rightarrow> int" where
  "f64_exponent b = uint (drop_bit 52 b AND 0x7ff)"

definition f64_mantissa :: "u64 \<Rightarrow> int" where
  "f64_mantissa b = uint (b AND 0xfffffffffffff)"

definition f64_is_finite :: "u64 \<Rightarrow> bool" where
  "f64_is_finite b \<longleftrightarrow> f64_exponent b \<noteq> 0x7ff"

definition f64_is_nan :: "u64 \<Rightarrow> bool" where
  "f64_is_nan b \<longleftrightarrow> f64_exponent b = 0x7ff \<and> f64_mantissa b \<noteq> 0"

definition f64_is_zero :: "u64 \<Rightarrow> bool" where
  "f64_is_zero b \<longleftrightarrow> b = 0 \<or> b = 0x8000000000000000"

definition f64_eq :: "u64 \<Rightarrow> u64 \<Rightarrow> bool" where
  "f64_eq a b \<longleftrightarrow> \<not> f64_is_nan a \<and> \<not> f64_is_nan b \<and> (a = b \<or> f64_is_zero a \<and> f64_is_zero b)"

definition round_even :: "int \<Rightarrow> nat \<Rightarrow> int" where
  "round_even m shift =
     (let q = m div 2 ^ shift; r = m mod 2 ^ shift in
      if 2 * r > 2 ^ shift \<or> 2 * r = 2 ^ shift \<and> odd q then q + 1 else q)"

definition f64_to_f32 :: "u64 \<Rightarrow> u32" where
  "f64_to_f32 b =
     (let sign = (if bit b 63 then 0x80000000 else 0);
          e = f64_exponent b - 1023 + 127;
          m = f64_mantissa b + 2 ^ 52 in
      if f64_exponent b = 0x7ff then sign OR (if f64_mantissa b = 0 then 0x7f800000 else 0x7fc00000)
      else if f64_exponent b = 0 then sign
      else if e \<ge> 255 then sign OR 0x7f800000
      else if e \<ge> 1 then sign OR word_of_int ((e - 1) * 2 ^ 23 + round_even m 29)
      else sign OR word_of_int (round_even m (nat (30 - e))))"

text \<open>The mantissa of a subnormal number is moved up to its leading bit.\<close>

function normalise :: "int \<Rightarrow> int \<Rightarrow> int \<Rightarrow> int \<times> int" where
  "normalise limit m e =
     (if 0 < m \<and> m < limit then normalise limit (2 * m) (e - 1) else (m, e))"
  by pat_completeness auto
termination
  by (relation "measure (\<lambda>(limit, m, e). nat (limit - m))") auto

declare normalise.simps [simp del]

definition f32_to_f64 :: "u32 \<Rightarrow> u64" where
  "f32_to_f64 b =
     (let sign = (if bit b 31 then 0x8000000000000000 else 0);
          e = uint (drop_bit 23 b AND 0xff);
          m = uint (b AND 0x7fffff) in
      if e = 255 then sign OR (if m = 0 then 0x7ff0000000000000 else 0x7ff8000000000000)
      else if e = 0 \<and> m = 0 then sign
      else if e = 0 then
        (let (m, e) = normalise (2 ^ 23) m (- 126) in
         sign OR word_of_int ((e + 1023) * 2 ^ 52 + (m - 2 ^ 23) * 2 ^ 29))
      else sign OR word_of_int ((e - 127 + 1023) * 2 ^ 52 + m * 2 ^ 29))"

definition f32_to_f16_bits :: "u32 \<Rightarrow> u16" where
  "f32_to_f16_bits bits =
     (let sign = ucast (drop_bit 16 bits AND 0x8000) :: u16;
          e = uint (drop_bit 23 bits AND 0xff) - 127 + 15;
          mantissa = bits AND 0x7fffff in
      if e \<le> 0 then
        if e < - 10 then sign
        else
          (let mantissa = mantissa OR 0x800000;
               shift = nat (14 - e);
               half = ucast (drop_bit shift mantissa) :: u16;
               remainder = mantissa AND (push_bit shift 1 - 1);
               halfway = push_bit (shift - 1) 1;
               half = (if remainder > halfway \<or> remainder = halfway \<and> half AND 1 = 1
                       then half + 1 else half) in
           sign OR half)
      else if e \<ge> 31 then sign OR 0x7c00
      else
        (let half = sign OR push_bit 10 (word_of_int e) OR ucast (drop_bit 13 mantissa);
             remainder = mantissa AND 0x1fff in
         if remainder > 0x1000 \<or> remainder = 0x1000 \<and> half AND 1 = 1 then half + 1 else half))"

definition f16_bits_to_f32 :: "u16 \<Rightarrow> u32" where
  "f16_bits_to_f32 bits =
     (let sign = push_bit 16 (ucast (bits AND 0x8000)) :: u32;
          e = uint (drop_bit 10 bits AND 0x1f);
          mantissa = ucast (bits AND 0x3ff) :: u32 in
      if e = 0 then
        if mantissa = 0 then sign
        else
          (let (m, e) = normalise 0x400 (uint mantissa) (- 14) in
           sign OR push_bit 23 (word_of_int (e + 127)) OR push_bit 13 (word_of_int m AND 0x3ff))
      else if e = 31 then sign OR 0x7f800000 OR push_bit 13 mantissa
      else sign OR push_bit 23 (word_of_int (e - 15 + 127)) OR push_bit 13 mantissa)"

definition exact_f16 :: "u64 \<Rightarrow> u16 option" where
  "exact_f16 v =
     (if \<not> f64_eq (f32_to_f64 (f64_to_f32 v)) v then None
      else
        let bits = f32_to_f16_bits (f64_to_f32 v) in
        if f64_eq (f32_to_f64 (f16_bits_to_f32 bits)) v then Some bits else None)"

section \<open>Encoding values\<close>

definition MAX_CAPSULE_BYTES :: nat where
  "MAX_CAPSULE_BYTES = 64 * 1024 * 1024"

definition MAX_VALUE_DEPTH :: nat where
  "MAX_VALUE_DEPTH = 64"

definition MAX_COLLECTION_ITEMS :: nat where
  "MAX_COLLECTION_ITEMS = 1000000"

datatype capsule_error =
    CapsuleInvalid string
  | UnsupportedEncoding u16
  | UnsupportedDigest string
  | NonCanonical string
  | Truncated

lemma field_size [termination_simp]:
  "(k, v) \<in> set fs \<Longrightarrow> size (v :: capsule_value) < Suc (size_list (size_prod s size) fs)"
  by (induction fs) auto

lemma item_size [termination_simp]:
  "v \<in> set items \<Longrightarrow> size (v :: capsule_value) < Suc (size_list size items)"
  by (induction items) auto

fun validate_value_at :: "nat \<Rightarrow> capsule_value \<Rightarrow> (unit, capsule_error) result" where
  "validate_value_at depth v =
     (if MAX_VALUE_DEPTH < depth then Err (CapsuleInvalid ''capsule value nesting exceeds the limit'')
      else
        case v of
          Float b \<Rightarrow>
            if f64_is_finite b then Ok () else Err (CapsuleInvalid ''non-finite floats are forbidden'')
        | Array vs \<Rightarrow>
            if MAX_COLLECTION_ITEMS < length vs
            then Err (CapsuleInvalid ''capsule array exceeds the item limit'')
            else try_each (validate_value_at (Suc depth)) vs
        | Object fs \<Rightarrow>
            if MAX_COLLECTION_ITEMS < length fs
            then Err (CapsuleInvalid ''capsule object exceeds the item limit'')
            else try_each (\<lambda>(k, v).
              if k = [] then Err (CapsuleInvalid ''object keys cannot be empty'')
              else validate_value_at (Suc depth) v) fs
        | _ \<Rightarrow> Ok ())"

declare validate_value_at.simps [simp del]

definition validate_value :: "capsule_value option \<Rightarrow> (unit, capsule_error) result" where
  "validate_value v = (case v of None \<Rightarrow> Ok () | Some v \<Rightarrow> validate_value_at 0 v)"

text \<open>The initial byte holds the major type in its three high bits.\<close>

definition initial_byte :: "nat \<Rightarrow> nat \<Rightarrow> char" where
  "initial_byte major additional = char_of (32 * major + additional)"

definition encode_head :: "nat \<Rightarrow> u64 \<Rightarrow> string" where
  "encode_head major v =
     (if v \<le> 23 then [initial_byte major (unat v)]
      else if v \<le> 0xff then initial_byte major 24 # be_bytes 1 (unat v)
      else if v \<le> 0xffff then initial_byte major 25 # be_bytes 2 (unat v)
      else if v \<le> 0xffffffff then initial_byte major 26 # be_bytes 4 (unat v)
      else initial_byte major 27 # be_bytes 8 (unat v))"

definition encode_float :: "u64 \<Rightarrow> (string, capsule_error) result" where
  "encode_float v =
     (if \<not> f64_is_finite v then Err (CapsuleInvalid ''non-finite floats are forbidden'')
      else
        case exact_f16 v of
          Some bits \<Rightarrow> Ok (initial_byte 7 25 # be_bytes 2 (unat bits))
        | None \<Rightarrow>
            if f64_eq (f32_to_f64 (f64_to_f32 v)) v
            then Ok (initial_byte 7 26 # be_bytes 4 (unat (f64_to_f32 v)))
            else Ok (initial_byte 7 27 # be_bytes 8 (unat v)))"

text \<open>A key of an object is encoded as the text it is, which is always valid.\<close>

definition encode_text :: "string \<Rightarrow> string" where
  "encode_text t = encode_head 3 (of_nat (length t)) @ t"

text \<open>
  The entries of an object are written in the order of their encoded keys: a shorter key
  comes first.
\<close>

fun encode_into :: "capsule_value \<Rightarrow> (string, capsule_error) result" where
  "encode_into Null = Ok [initial_byte 7 22]"
| "encode_into (Bool b) = Ok [initial_byte 7 (if b then 21 else 20)]"
| "encode_into (Integer x) =
     Ok (if int_of x \<ge> 0 then encode_head 0 (word_of_int (int_of x))
         else encode_head 1 (word_of_int (- 1 - int_of x)))"
| "encode_into (Float v) = encode_float v"
| "encode_into (Bytes b) = Ok (encode_head 2 (of_nat (length b)) @ b)"
| "encode_into (Text t) = Ok (encode_text t)"
| "encode_into (Array vs) =
     and_then (collect (\<lambda>v. encode_into v) vs) (\<lambda>outs.
       Ok (encode_head 4 (of_nat (length vs)) @ concat outs))"
| "encode_into (Object fs) =
     (let entries = sort_key fst (map (\<lambda>(k, v). (encode_text k, encode_into v)) fs) in
      and_then (collect (\<lambda>(k, out). and_then out (\<lambda>out. Ok (k @ out))) entries) (\<lambda>outs.
        Ok (encode_head 5 (of_nat (length entries)) @ concat outs)))"

definition encode_value :: "capsule_value \<Rightarrow> (string, capsule_error) result" where
  "encode_value v = and_then (validate_value (Some v)) (\<lambda>_. encode_into v)"

section \<open>Decoding values\<close>

text \<open>\<open>str::from_utf8\<close> accepts the well-formed byte sequences of Unicode.\<close>

definition between :: "nat \<Rightarrow> nat \<Rightarrow> char \<Rightarrow> bool" where
  "between lo hi c \<longleftrightarrow> lo \<le> byte c \<and> byte c \<le> hi"

definition second_byte :: "char \<Rightarrow> char \<Rightarrow> bool" where
  "second_byte a b \<longleftrightarrow>
     (if byte a = 0xe0 then between 0xa0 0xbf b
      else if byte a = 0xed then between 0x80 0x9f b
      else if byte a = 0xf0 then between 0x90 0xbf b
      else if byte a = 0xf4 then between 0x80 0x8f b
      else between 0x80 0xbf b)"

fun utf8 :: "string \<Rightarrow> bool" where
  "utf8 [] \<longleftrightarrow> True"
| "utf8 (a # s) \<longleftrightarrow>
     (if byte a < 0x80 then utf8 s
      else if between 0xc2 0xdf a then
        (case s of b # s \<Rightarrow> second_byte a b \<and> utf8 s | _ \<Rightarrow> False)
      else if between 0xe0 0xef a then
        (case s of b # c # s \<Rightarrow> second_byte a b \<and> between 0x80 0xbf c \<and> utf8 s | _ \<Rightarrow> False)
      else if between 0xf0 0xf4 a then
        (case s of
           b # c # d # s \<Rightarrow>
             second_byte a b \<and> between 0x80 0xbf c \<and> between 0x80 0xbf d \<and> utf8 s
         | _ \<Rightarrow> False)
      else False)"

definition take_bytes :: "nat \<Rightarrow> string \<Rightarrow> (string \<times> string, capsule_error) result" where
  "take_bytes n bs = (if n \<le> length bs then Ok (take n bs, drop n bs) else Err Truncated)"

definition take_number :: "nat \<Rightarrow> string \<Rightarrow> (nat \<times> string, capsule_error) result" where
  "take_number n bs = and_then (take_bytes n bs) (\<lambda>(b, bs). Ok (be_value b, bs))"

definition head_length :: "nat \<Rightarrow> string \<Rightarrow> (nat \<times> string, capsule_error) result" where
  "head_length additional bs =
     (if additional \<le> 23 then Ok (additional, bs)
      else if additional = 24 then take_number 1 bs
      else if additional = 25 then take_number 2 bs
      else if additional = 26 then take_number 4 bs
      else if additional = 27 then take_number 8 bs
      else Err (NonCanonical ''indefinite lengths are forbidden''))"

definition collection_length :: "nat \<Rightarrow> string \<Rightarrow> (nat \<times> string, capsule_error) result" where
  "collection_length additional bs =
     and_then (head_length additional bs) (\<lambda>(n, bs).
       if MAX_COLLECTION_ITEMS < n \<or> length bs < n
       then Err (NonCanonical ''collection exceeds the item or input bound'')
       else Ok (n, bs))"

text \<open>The major types of integers, bytes, text and simple values.\<close>

definition decode_scalar ::
  "nat \<Rightarrow> nat \<Rightarrow> string \<Rightarrow> (capsule_value \<times> string, capsule_error) result" where
  "decode_scalar major additional bs =
     (if major = 0 then
        and_then (head_length additional bs) (\<lambda>(n, bs).
        and_then (ok_or (CapsuleInvalid ''integer overflow'') (checked_i64 (int n))) (\<lambda>x.
          Ok (Integer x, bs)))
      else if major = 1 then
        and_then (head_length additional bs) (\<lambda>(n, bs).
        and_then (ok_or (CapsuleInvalid ''integer overflow'') (checked_i64 (- 1 - int n))) (\<lambda>x.
          Ok (Integer x, bs)))
      else if major = 2 then
        and_then (head_length additional bs) (\<lambda>(n, bs).
        and_then (take_bytes n bs) (\<lambda>(b, bs). Ok (Bytes b, bs)))
      else if major = 3 then
        and_then (head_length additional bs) (\<lambda>(n, bs).
        and_then (take_bytes n bs) (\<lambda>(b, bs).
          if utf8 b then Ok (Text b, bs) else Err (CapsuleInvalid ''CBOR text is not UTF-8'')))
      else if major = 7 then
        if additional = 20 then Ok (Bool False, bs)
        else if additional = 21 then Ok (Bool True, bs)
        else if additional = 22 then Ok (Null, bs)
        else if additional = 25 then
          and_then (take_number 2 bs) (\<lambda>(n, bs). Ok (Float (f32_to_f64 (f16_bits_to_f32 (of_nat n))), bs))
        else if additional = 26 then
          and_then (take_number 4 bs) (\<lambda>(n, bs). Ok (Float (f32_to_f64 (of_nat n)), bs))
        else if additional = 27 then
          and_then (take_number 8 bs) (\<lambda>(n, bs). Ok (Float (of_nat n), bs))
        else Err (NonCanonical ''unsupported simple value'')
      else Err (NonCanonical ''unsupported CBOR major type''))"

function (sequential)
  decode_value :: "nat \<Rightarrow> string \<Rightarrow> (capsule_value \<times> string, capsule_error) result" and
  decode_items :: "nat \<Rightarrow> nat \<Rightarrow> string \<Rightarrow> (capsule_value list \<times> string, capsule_error) result" and
  decode_entries ::
    "nat \<Rightarrow> nat \<Rightarrow> string \<Rightarrow> (string \<times> capsule_value) list
     \<Rightarrow> ((string \<times> capsule_value) list \<times> string, capsule_error) result" where
  "decode_value depth bs =
     (if MAX_VALUE_DEPTH < depth then Err (NonCanonical ''capsule nesting exceeds the limit'')
      else and_then (take_bytes 1 bs) (\<lambda>(initial, bs).
        let major = byte (hd initial) div 32; additional = byte (hd initial) mod 32 in
        if major = 4 then
          and_then (collection_length additional bs) (\<lambda>(n, bs).
          and_then (decode_items (Suc depth) n bs) (\<lambda>(vs, bs). Ok (Array vs, bs)))
        else if major = 5 then
          and_then (collection_length additional bs) (\<lambda>(n, bs).
          and_then (decode_entries (Suc depth) n bs []) (\<lambda>(fs, bs). Ok (Object fs, bs)))
        else decode_scalar major additional bs))"
| "decode_items depth 0 bs = Ok ([], bs)"
| "decode_items depth (Suc n) bs =
     and_then (decode_value depth bs) (\<lambda>(v, bs).
     and_then (decode_items depth n bs) (\<lambda>(vs, bs). Ok (v # vs, bs)))"
| "decode_entries depth 0 bs fs = Ok (fs, bs)"
| "decode_entries depth (Suc n) bs fs =
     and_then (decode_value depth bs) (\<lambda>(k, bs).
       case k of
         Text k \<Rightarrow>
           and_then (decode_value depth bs) (\<lambda>(v, bs).
             if map_of fs k \<noteq> None then Err (NonCanonical ''duplicate map key'')
             else decode_entries depth n bs (bt_insert k v fs))
       | _ \<Rightarrow> Err (CapsuleInvalid ''capsule map keys must be text''))"
  by pat_completeness auto
termination
  by (relation "measures
    [\<lambda>x. case x of Inl (d, _) \<Rightarrow> Suc MAX_VALUE_DEPTH - d | Inr (Inl (d, _)) \<Rightarrow> Suc MAX_VALUE_DEPTH - d
      | Inr (Inr (d, _)) \<Rightarrow> Suc MAX_VALUE_DEPTH - d,
     \<lambda>x. case x of Inl _ \<Rightarrow> 0 | Inr (Inl (_, n, _)) \<Rightarrow> n | Inr (Inr (_, n, _)) \<Rightarrow> n]") auto

declare decode_value.simps [simp del]

definition decode_canonical_value :: "string \<Rightarrow> (capsule_value, capsule_error) result" where
  "decode_canonical_value bs =
     (if MAX_CAPSULE_BYTES < length bs then Err (NonCanonical ''capsule exceeds the byte limit'')
      else
        and_then (decode_value 0 bs) (\<lambda>(v, rest).
          if rest \<noteq> [] then Err (NonCanonical ''trailing bytes'')
          else
            and_then (encode_value v) (\<lambda>out.
              if out \<noteq> bs then Err (NonCanonical ''value does not use the preferred encoding'')
              else Ok v)))"

section \<open>What the decoder reads is what the encoder wrote\<close>

lemma initial_byte_parts:
  assumes "major < 8" and "additional < 32"
  shows "byte (initial_byte major additional) div 32 = major"
    "byte (initial_byte major additional) mod 32 = additional"
  using assms by (simp_all add: initial_byte_def byte_char_of)

lemma take_number_bytes:
  "x < 256 ^ n \<Longrightarrow> take_number n (be_bytes n x @ t) = Ok (x, t)"
  by (simp add: take_number_def take_bytes_def be_value_be_bytes)

lemma take_initial [simp]: "take_bytes 1 (c # bs) = Ok ([c], bs)"
  by (simp add: take_bytes_def)

lemma encode_head_read:
  assumes "major < 8"
  obtains i r where "encode_head major v = i # r" and "byte i div 32 = major"
    and "\<And>t. head_length (byte i mod 32) (r @ t) = Ok (unat v, t)"
proof -
  have le: "v \<le> w \<longleftrightarrow> unat v \<le> unat w" for w by (rule word_le_nat_alt)
  have v: "unat v < 2 ^ 64" using unsigned_less [of v, where 'a = nat] by simp
  note rules = encode_head_def le initial_byte_parts assms head_length_def take_number_bytes
  consider "unat v \<le> 23" | "unat v > 23" "unat v \<le> 0xff" | "unat v > 0xff" "unat v \<le> 0xffff"
    | "unat v > 0xffff" "unat v \<le> 0xffffffff" | "unat v > 0xffffffff" by linarith
  then show thesis
  proof cases
    case 1
    then show ?thesis
      by (intro that [of "initial_byte major (unat v)" "[]"]) (simp_all add: rules)
  next
    case 2
    then show ?thesis
      by (intro that [of "initial_byte major 24" "be_bytes 1 (unat v)"])
        (simp_all add: rules del: be_bytes.simps)
  next
    case 3
    then show ?thesis
      by (intro that [of "initial_byte major 25" "be_bytes 2 (unat v)"])
        (simp_all add: rules del: be_bytes.simps)
  next
    case 4
    then show ?thesis
      by (intro that [of "initial_byte major 26" "be_bytes 4 (unat v)"])
        (simp_all add: rules del: be_bytes.simps)
  next
    case 5
    then show ?thesis using v
      by (intro that [of "initial_byte major 27" "be_bytes 8 (unat v)"])
        (simp_all add: rules del: be_bytes.simps)
  qed
qed

lemma encode_head_ne_Nil [simp]: "encode_head major v \<noteq> []"
  by (simp add: encode_head_def)

subsection \<open>Floats\<close>

lemma f64_eq_bits: "f64_eq a b \<Longrightarrow> \<not> f64_is_zero b \<Longrightarrow> a = b"
  by (auto simp: f64_eq_def)

lemma exact_f16_zero: "f64_is_zero v \<Longrightarrow> \<exists>bits. exact_f16 v = Some bits \<and> f32_to_f64 (f16_bits_to_f32 bits) = v"
  unfolding f64_is_zero_def
  by (elim disjE) (simp_all add: exact_f16_def Let_def f64_to_f32_def f32_to_f64_def f32_to_f16_bits_def
      f16_bits_to_f32_def f64_eq_def f64_is_nan_def f64_is_zero_def f64_exponent_def f64_mantissa_def)

lemma exact_f16_exact: "exact_f16 v = Some bits \<Longrightarrow> f32_to_f64 (f16_bits_to_f32 bits) = v"
  using exact_f16_zero [of v]
  by (cases "f64_is_zero v") (auto simp: exact_f16_def Let_def f64_eq_bits split: if_splits)

lemma decode_float:
  assumes "encode_float v = Ok out"
  obtains i r where "out = i # r" and "byte i div 32 = 7"
    and "\<And>t. decode_scalar 7 (byte i mod 32) (r @ t) = Ok (Float v, t)"
proof (cases "exact_f16 v")
  case (Some bits)
  have "unat bits < 256 ^ 2" using unsigned_less [of bits, where 'a = nat] by simp
  with Some assms that show ?thesis
    by (auto simp: encode_float_def initial_byte_parts decode_scalar_def take_number_bytes exact_f16_exact
        simp del: be_bytes.simps split: if_splits)
next
  case None
  then have "\<not> f64_is_zero v" using exact_f16_zero [of v] by auto
  moreover have "unat (f64_to_f32 v) < 256 ^ 4" using unsigned_less [of "f64_to_f32 v", where 'a = nat] by simp
  moreover have "unat v < 256 ^ 8" using unsigned_less [of v, where 'a = nat] by simp
  ultimately show ?thesis
    using None assms that
    by (auto simp: encode_float_def initial_byte_parts decode_scalar_def take_number_bytes f64_eq_bits
        simp del: be_bytes.simps split: if_splits)
qed

subsection \<open>Values\<close>

text \<open>
  What the types of the program say of a value: texts are UTF-8, and the fields of an object
  are an ordered map.
\<close>

fun value_ok :: "capsule_value \<Rightarrow> bool" where
  "value_ok (Text t) \<longleftrightarrow> utf8 t"
| "value_ok (Array vs) \<longleftrightarrow> (\<forall>v \<in> set vs. value_ok v)"
| "value_ok (Object fs) \<longleftrightarrow> bt_ok fs \<and> (\<forall>(k, v) \<in> set fs. utf8 k \<and> value_ok v)"
| "value_ok _ \<longleftrightarrow> True"

definition reads_as :: "nat \<Rightarrow> string \<Rightarrow> capsule_value \<Rightarrow> bool" where
  "reads_as depth out v \<longleftrightarrow> (\<forall>t. decode_value depth (out @ t) = Ok (v, t))"

lemma reads_as_initial:
  assumes "depth \<le> MAX_VALUE_DEPTH" and "byte i div 32 \<noteq> 4" and "byte i div 32 \<noteq> 5"
    and "\<And>t. decode_scalar (byte i div 32) (byte i mod 32) (r @ t) = Ok (v, t)"
  shows "reads_as depth (i # r) v"
  using assms by (simp add: reads_as_def decode_value.simps Let_def take_initial [simplified])

lemma reads_as_scalar_head:
  assumes "depth \<le> MAX_VALUE_DEPTH" and "major < 4"
    and "\<And>a r t. (\<And>t. head_length a (r @ t) = Ok (unat n, t)) \<Longrightarrow>
      decode_scalar major a (r @ body @ t) = Ok (v, t)"
  shows "reads_as depth (encode_head major n @ body) v"
proof -
  obtain i r where i: "encode_head major n = i # r" "byte i div 32 = major"
    and read: "\<And>t. head_length (byte i mod 32) (r @ t) = Ok (unat n, t)"
    using encode_head_read [of major n] assms(2) by auto
  have "reads_as depth (i # (r @ body)) v"
    using assms(1,2) i(2) assms(3) [OF read] by (intro reads_as_initial) auto
  then show ?thesis by (simp add: i(1))
qed

lemma unat_length: "n < 2 ^ 64 \<Longrightarrow> unat (of_nat n :: u64) = n"
  by (simp add: unsigned_of_nat take_bit_nat_eq_self)

lemma reads_as_text:
  assumes "depth \<le> MAX_VALUE_DEPTH" and "utf8 k" and "length k < 2 ^ 64"
  shows "reads_as depth (encode_text k) (Text k)"
  unfolding encode_text_def using assms
  by (intro reads_as_scalar_head) (simp_all add: decode_scalar_def take_bytes_def unat_length)

lemma decode_items_read:
  assumes "list_all2 (\<lambda>v out. reads_as depth out v) vs outs"
  shows "decode_items depth (length vs) (concat outs @ t) = Ok (vs, t)"
  using assms by (induction rule: list_all2_induct) (simp_all add: reads_as_def)

lemma decode_entries_read:
  assumes "list_all2 (\<lambda>(k, v) out. \<exists>a b. out = a @ b \<and> reads_as depth a (Text k) \<and> reads_as depth b v) es outs"
    and "distinct (map fst es)" and "fst ` set es \<inter> fst ` set acc = {}"
  shows "decode_entries depth (length es) (concat outs @ t) acc =
    Ok (foldl (\<lambda>m (k, v). bt_insert k v m) acc es, t)"
  using assms
proof (induction arbitrary: acc rule: list_all2_induct)
  case (Cons e es out outs)
  obtain k v where e: "e = (k, v)" by (cases e)
  with Cons.hyps(1) obtain a b where out: "out = a @ b" "reads_as depth a (Text k)" "reads_as depth b v"
    by auto
  have "map_of acc k = None" using Cons.prems(2) e by (auto simp: map_of_eq_None_iff)
  moreover have "decode_entries depth (length es) (concat outs @ t) (bt_insert k v acc) =
      Ok (foldl (\<lambda>m (k, v). bt_insert k v m) (bt_insert k v acc) es, t)"
    using Cons.prems e by (intro Cons.IH) (auto simp: bt_insert_keys)
  ultimately show ?case using e out by (simp add: reads_as_def)
qed simp

lemma length_concat_ge: "\<forall>x \<in> set xs. x \<noteq> [] \<Longrightarrow> length xs \<le> length (concat xs)"
proof (induction xs)
  case (Cons x xs)
  then show ?case by (cases x) auto
qed simp

lemma length_in_concat: "x \<in> set xs \<Longrightarrow> length x \<le> length (concat xs)"
  by (induction xs) auto

lemma sort_key_map: "sort_key f (map g xs) = map g (sort_key (\<lambda>x. f (g x)) xs)"
proof -
  have "insort_key f (g x) (map g ys) = map g (insort_key (\<lambda>x. f (g x)) x ys)" for x ys
    by (induction ys) auto
  then show ?thesis by (induction xs) auto
qed

lemma encode_into_ne_Nil: "encode_into v = Ok out \<Longrightarrow> out \<noteq> []"
  by (cases v) (auto simp: result_simps Let_def encode_text_def elim!: decode_float split: if_splits)

lemma reads_as_items:
  assumes "depth \<le> MAX_VALUE_DEPTH" and "length vs \<le> MAX_COLLECTION_ITEMS"
    and "list_all2 (\<lambda>v out. reads_as (Suc depth) out v) vs outs" and "\<forall>out \<in> set outs. out \<noteq> []"
  shows "reads_as depth (encode_head 4 (of_nat (length vs)) @ concat outs) (Array vs)"
proof -
  have len: "length vs = length outs" by (rule list_all2_lengthD [OF assms(3)])
  obtain i r where i: "encode_head 4 (of_nat (length vs)) = i # r" "byte i div 32 = 4"
    and read: "\<And>t. head_length (byte i mod 32) (r @ t) = Ok (unat (of_nat (length vs) :: u64), t)"
    using encode_head_read [of 4 "of_nat (length vs)"] by auto
  have n: "unat (of_nat (length vs) :: u64) = length vs"
    using assms(2) by (intro unat_length) (simp add: MAX_COLLECTION_ITEMS_def)
  show ?thesis
    using i assms(1,2) read [unfolded n] length_concat_ge [OF assms(4)] decode_items_read [OF assms(3)] len
    by (simp add: reads_as_def decode_value.simps Let_def take_initial [simplified] collection_length_def)
qed

lemma reads_as_entries:
  assumes "depth \<le> MAX_VALUE_DEPTH" and "length es \<le> MAX_COLLECTION_ITEMS"
    and "list_all2 (\<lambda>(k, v) out. \<exists>a b. out = a @ b \<and> reads_as (Suc depth) a (Text k) \<and> reads_as (Suc depth) b v)
      es outs" and "\<forall>out \<in> set outs. out \<noteq> []" and "distinct (map fst es)"
  shows "reads_as depth (encode_head 5 (of_nat (length es)) @ concat outs) (Object (bt_from es))"
proof -
  have len: "length es = length outs" by (rule list_all2_lengthD [OF assms(3)])
  obtain i r where i: "encode_head 5 (of_nat (length es)) = i # r" "byte i div 32 = 5"
    and read: "\<And>t. head_length (byte i mod 32) (r @ t) = Ok (unat (of_nat (length es) :: u64), t)"
    using encode_head_read [of 5 "of_nat (length es)"] by auto
  have n: "unat (of_nat (length es) :: u64) = length es"
    using assms(2) by (intro unat_length) (simp add: MAX_COLLECTION_ITEMS_def)
  show ?thesis
    using i assms(1,2) read [unfolded n] length_concat_ge [OF assms(4)] decode_entries_read [OF assms(3,5), of "[]"] len
    by (simp add: reads_as_def decode_value.simps Let_def take_initial [simplified] collection_length_def
        bt_from_def)
qed

text \<open>An object is decoded to itself whatever the order its entries were written in.\<close>

lemma object_entries:
  assumes "bt_ok fs"
  defines "es \<equiv> sort_key (\<lambda>(k, v). encode_text k) fs"
  shows "bt_from es = fs" "distinct (map fst es)" "set es = set fs" "length es = length fs"
proof -
  show set: "set es = set fs" and len: "length es = length fs" by (simp_all add: es_def)
  show d: "distinct (map fst es)"
    using bt_ok_distinct [OF assms(1)] set by (simp add: distinct_map es_def)
  show "bt_from es = fs" using assms(1) set d by (rule bt_from_entries)
qed

lemma validate_depth: "validate_value_at depth v = Ok () \<Longrightarrow> depth \<le> MAX_VALUE_DEPTH"
  by (auto simp: validate_value_at.simps split: if_splits)

lemma int_unat_u64: "0 \<le> n \<Longrightarrow> n < 2 ^ 64 \<Longrightarrow> int (unat (word_of_int n :: u64)) = n"
  by (simp add: unsigned_of_int take_bit_int_eq_self)

lemma reads_as_integer:
  assumes "depth \<le> MAX_VALUE_DEPTH" and "encode_into (Integer x) = Ok out"
  shows "reads_as depth out (Integer x)"
proof (cases "int_of x \<ge> 0")
  case True
  then have "int (unat (word_of_int (int_of x) :: u64)) = int_of x"
    using int_of_bounds [of x] by (intro int_unat_u64) simp_all
  then have "reads_as depth (encode_head 0 (word_of_int (int_of x)) @ []) (Integer x)"
    using assms(1)
    by (intro reads_as_scalar_head) (simp_all add: decode_scalar_def result_simps checked_i64_Some_iff)
  with assms(2) True show ?thesis by simp
next
  case False
  then have "int (unat (word_of_int (- 1 - int_of x) :: u64)) = - 1 - int_of x"
    using int_of_bounds [of x] by (intro int_unat_u64) simp_all
  then have "reads_as depth (encode_head 1 (word_of_int (- 1 - int_of x)) @ []) (Integer x)"
    using assms(1)
    by (intro reads_as_scalar_head) (simp_all add: decode_scalar_def result_simps checked_i64_Some_iff)
  with assms(2) False show ?thesis by simp
qed

lemma reads_as_array:
  assumes "encode_into (Array vs) = Ok out" and "validate_value_at depth (Array vs) = Ok ()"
    and "length out < 2 ^ 64"
    and "\<And>v out. v \<in> set vs \<Longrightarrow> encode_into v = Ok out \<Longrightarrow> validate_value_at (Suc depth) v = Ok () \<Longrightarrow>
      length out < 2 ^ 64 \<Longrightarrow> reads_as (Suc depth) out v"
  shows "reads_as depth out (Array vs)"
proof -
  from assms(1) obtain outs where outs: "list_all2 (\<lambda>v out. encode_into v = Ok out) vs outs"
    and out: "out = encode_head 4 (of_nat (length vs)) @ concat outs"
    by (auto simp: result_simps collect_eq_Ok)
  have valid: "length vs \<le> MAX_COLLECTION_ITEMS" "\<forall>v \<in> set vs. validate_value_at (Suc depth) v = Ok ()"
    using assms(2) by (subst (asm) validate_value_at.simps; simp add: result_simps split: if_splits)+
  have "length x < 2 ^ 64" if "x \<in> set outs" for x
    using length_in_concat [OF that] assms(3) out by simp
  then have "list_all2 (\<lambda>v out. reads_as (Suc depth) out v) vs outs"
    using outs valid(2) assms(4) by (auto intro!: list.rel_mono_strong [OF outs])
  moreover have "\<forall>x \<in> set outs. x \<noteq> []"
    using outs encode_into_ne_Nil by (fastforce simp: list_all2_conv_all_nth in_set_conv_nth)
  ultimately show ?thesis
    using out valid(1) validate_depth [OF assms(2)] by (simp add: reads_as_items)
qed

lemma reads_as_object:
  assumes "encode_into (Object fs) = Ok out" and "validate_value_at depth (Object fs) = Ok ()"
    and "value_ok (Object fs)" and "length out < 2 ^ 64"
    and "\<And>k v out. (k, v) \<in> set fs \<Longrightarrow> encode_into v = Ok out \<Longrightarrow>
      validate_value_at (Suc depth) v = Ok () \<Longrightarrow> length out < 2 ^ 64 \<Longrightarrow> reads_as (Suc depth) out v"
  shows "reads_as depth out (Object fs)"
proof -
  define es where "es = sort_key (\<lambda>(k, v). encode_text k) fs"
  note es = object_entries [of fs, folded es_def]
  have ok: "bt_ok fs" using assms(3) by simp
  have entries: "sort_key fst (map (\<lambda>(k, v). (encode_text k, encode_into v)) fs) =
      map (\<lambda>(k, v). (encode_text k, encode_into v)) es"
    by (simp add: sort_key_map es_def case_prod_unfold)
  from assms(1) obtain outs
    where outs: "list_all2 (\<lambda>(k, v) out. \<exists>b. encode_into v = Ok b \<and> encode_text k @ b = out) es outs"
      and out: "out = encode_head 5 (of_nat (length es)) @ concat outs"
    by (auto simp only: encode_into.simps entries [unfolded case_prod_unfold] Let_def length_map result_simps collect_eq_Ok
        list_all2_map1 case_prod_unfold fst_conv snd_conv sum.inject)
  have valid: "length fs \<le> MAX_COLLECTION_ITEMS" "\<forall>(k, v) \<in> set fs. validate_value_at (Suc depth) v = Ok ()"
    using assms(2) by (subst (asm) validate_value_at.simps; fastforce simp: result_simps split: if_splits)+
  have len: "length x < 2 ^ 64" if "x \<in> set outs" for x
    using length_in_concat [OF that] assms(4) out by simp
  have read: "list_all2 (\<lambda>(k, v) out. \<exists>a b. out = a @ b \<and> reads_as (Suc depth) a (Text k) \<and> reads_as (Suc depth) b v)
      es outs"
  proof (rule list.rel_mono_strong [OF outs], clarify)
    fix k v b
    assume in_es: "(k, v) \<in> set es" and in_outs: "encode_text k @ b \<in> set outs" and b: "encode_into v = Ok b"
    have kv: "(k, v) \<in> set fs" using in_es es(3) [OF ok] by simp
    have valid_v: "validate_value_at (Suc depth) v = Ok ()" using kv valid(2) by auto
    have "utf8 k" using kv assms(3) by auto
    moreover have "length k < 2 ^ 64" using len [OF in_outs] by (simp add: encode_text_def)
    ultimately have "reads_as (Suc depth) (encode_text k) (Text k)"
      using validate_depth [OF valid_v] by (intro reads_as_text)
    moreover have "reads_as (Suc depth) b v"
      using assms(5) [OF kv b valid_v] len [OF in_outs] by simp
    ultimately show "\<exists>a c. encode_text k @ b = a @ c \<and> reads_as (Suc depth) a (Text k) \<and> reads_as (Suc depth) c v"
      by blast
  qed
  have "\<forall>x \<in> set outs. x \<noteq> []"
    using outs by (fastforce simp: list_all2_conv_all_nth in_set_conv_nth encode_text_def)
  then have "reads_as depth out (Object (bt_from es))"
    unfolding out using valid(1) es [OF ok]
    by (intro reads_as_entries [OF validate_depth [OF assms(2)] _ read]) simp_all
  then show ?thesis using es(1) [OF ok] by simp
qed

lemma reads_as_encoded:
  assumes "encode_into v = Ok out" and "validate_value_at depth v = Ok ()" and "value_ok v"
    and "length out < 2 ^ 64"
  shows "reads_as depth out v"
  using assms
proof (induction v arbitrary: depth out rule: encode_into.induct)
  case 1
  then show ?case
    by (auto simp: initial_byte_parts decode_scalar_def dest: validate_depth intro!: reads_as_initial)
next
  case (2 b)
  then show ?case
    by (auto simp: initial_byte_parts decode_scalar_def dest: validate_depth intro!: reads_as_initial)
next
  case (3 x)
  then show ?case by (intro reads_as_integer validate_depth)
next
  case (4 b)
  then obtain i r where "out = i # r" "byte i div 32 = 7"
    "\<And>t. decode_scalar 7 (byte i mod 32) (r @ t) = Ok (Float b, t)" by (auto elim: decode_float)
  with validate_depth [OF 4(2)] show ?case by (auto intro!: reads_as_initial)
next
  case (5 b)
  then show ?case using validate_depth [OF 5(2)]
    by (auto simp: decode_scalar_def take_bytes_def unat_length intro!: reads_as_scalar_head)
next
  case (6 t)
  then show ?case using validate_depth [OF 6(2)]
    by (auto simp: encode_text_def intro!: reads_as_text [unfolded encode_text_def])
next
  case (7 vs)
  then show ?case by (intro reads_as_array) auto
next
  case (8 fs)
  show ?case
  proof (rule reads_as_object [OF 8(2,3,4,5)])
    fix k v out
    assume "(k, v) \<in> set fs" "encode_into v = Ok out" "validate_value_at (Suc depth) v = Ok ()"
      "length out < 2 ^ 64"
    with 8(1) [of "(k, v)" k v] 8(4) show "reads_as (Suc depth) out v" by auto
  qed
qed

lemma decode_scalar_ok: "decode_scalar major additional bs = Ok (v, t) \<Longrightarrow> value_ok v"
  by (auto simp: decode_scalar_def result_simps split: if_splits)

lemma decoded_ok:
  "decode_value depth bs = Ok (v, t) \<Longrightarrow> value_ok v"
  "decode_items depth n bs = Ok (vs, t) \<Longrightarrow> \<forall>v \<in> set vs. value_ok v"
  "decode_entries depth n bs fs = Ok (es, t) \<Longrightarrow> value_ok (Object fs) \<Longrightarrow> value_ok (Object es)"
proof (induction depth bs and depth n bs and depth n bs fs arbitrary: v t and vs t and es t
    rule: decode_value_decode_items_decode_entries.induct)
  case (1 depth bs)
  from 1(3) have d: "\<not> MAX_VALUE_DEPTH < depth" by (subst (asm) decode_value.simps) (simp split: if_splits)
  with 1(3) obtain i b where i: "take_bytes 1 bs = Ok (i, b)"
    by (subst (asm) decode_value.simps) (auto simp: result_simps)
  note run = 1(3) [unfolded decode_value.simps [of depth bs] i]
  consider (array) "byte (hd i) div 32 = 4" | (object) "byte (hd i) div 32 = 5"
    | (scalar) "byte (hd i) div 32 \<noteq> 4" "byte (hd i) div 32 \<noteq> 5" by blast
  then show ?case
  proof cases
    case array
    with run d obtain n c vs where c: "collection_length (byte (hd i) mod 32) b = Ok (n, c)"
      and items: "decode_items (Suc depth) n c = Ok (vs, t)" and v: "v = Array vs"
      by (auto simp: result_simps Let_def)
    have "\<forall>v \<in> set vs. value_ok v" by (rule 1(1) [OF d i refl refl refl array c refl items])
    then show ?thesis by (simp add: v)
  next
    case object
    with run d obtain n c fs where c: "collection_length (byte (hd i) mod 32) b = Ok (n, c)"
      and items: "decode_entries (Suc depth) n c [] = Ok (fs, t)" and v: "v = Object fs"
      by (auto simp: result_simps Let_def)
    have "byte (hd i) div 32 \<noteq> 4" using object by simp
    then show ?thesis using 1(2) [OF d i refl refl refl _ object c refl items] by (simp add: v)
  next
    case scalar
    with run d have "decode_scalar (byte (hd i) div 32) (byte (hd i) mod 32) b = Ok (v, t)"
      by (simp add: Let_def)
    then show ?thesis by (rule decode_scalar_ok)
  qed
next
  case (2 depth bs)
  then show ?case by simp
next
  case (3 depth n bs)
  from 3(3) obtain w b ws where w: "decode_value depth bs = Ok (w, b)"
    and ws: "decode_items depth n b = Ok (ws, t)" "vs = w # ws"
    by (auto simp: result_simps)
  show ?case using 3(1) [OF w] 3(2) [OF w refl ws(1)] ws(2) by simp
next
  case (4 depth bs fs)
  then show ?case by simp
next
  case (5 depth n bs fs)
  from 5(4) obtain w b1 where w: "decode_value depth bs = Ok (w, b1)" by (auto simp: result_simps)
  then obtain k where wk: "w = Text k" using 5(4) by (cases w) (auto simp: result_simps)
  note k = w [unfolded wk]
  then obtain v b2 where v: "decode_value depth b1 = Ok (v, b2)"
    and rest: "map_of fs k = None" "decode_entries depth n b2 (bt_insert k v fs) = Ok (es, t)"
    using 5(4) by (auto simp: result_simps split: if_splits)
  have "value_ok (Text k)" by (rule 5(1) [OF k])
  moreover have "value_ok v" by (rule 5(2) [OF k _ _ v]) simp_all
  ultimately have "value_ok (Object (bt_insert k v fs))"
    using 5(5) by (auto simp: bt_insert_ok bt_set_insert)
  then show ?case using 5(3) [OF k _ _ v] rest by simp
qed

lemma decode_exact:
  "decode_canonical_value bs = Ok v \<longleftrightarrow>
     encode_value v = Ok bs \<and> value_ok v \<and> length bs \<le> MAX_CAPSULE_BYTES"
proof
  assume run: "decode_canonical_value bs = Ok v"
  then obtain t where "decode_value 0 bs = Ok (v, t)"
    by (auto simp: decode_canonical_value_def result_simps split: if_splits)
  with run show "encode_value v = Ok bs \<and> value_ok v \<and> length bs \<le> MAX_CAPSULE_BYTES"
    by (auto simp: decode_canonical_value_def result_simps dest: decoded_ok(1) split: if_splits)
next
  assume enc: "encode_value v = Ok bs \<and> value_ok v \<and> length bs \<le> MAX_CAPSULE_BYTES"
  then have "reads_as 0 bs v"
    by (intro reads_as_encoded) (auto simp: encode_value_def validate_value_def result_simps MAX_CAPSULE_BYTES_def)
  then have "decode_value 0 bs = Ok (v, [])" unfolding reads_as_def by (metis append_Nil2)
  with enc show "decode_canonical_value bs = Ok v" by (simp add: decode_canonical_value_def)
qed

text \<open>
  C13: the encoding of values is exact. The decoder accepts precisely the bytes the encoder
  writes, within the limit of a capsule's size, and gives back the value that was written: no
  value has two encodings, and no bytes stand for two values, floats and the order of an
  object's fields included.
\<close>

theorem canonical_value_exact:
  "decode_canonical_value bs = Ok v \<longleftrightarrow>
     encode_value v = Ok bs \<and> value_ok v \<and> length bs \<le> MAX_CAPSULE_BYTES"
  by (rule decode_exact)

end
