(* ===== verification/Capsule_Envelope.thy ===== *)
theory Capsule_Envelope
  imports Capsule_Format
begin

text \<open>
  The sealed envelopes of \<open>crates/aseman-contracts/src/capsule.rs\<close>: their value and its parser, the
  integrity hash, and the revisions of a record chained by it. SHA-256 is a parameter.
\<close>

section \<open>Envelopes\<close>

definition INTEGRITY_DOMAIN :: string where
  "INTEGRITY_DOMAIN = ''ASEMAN-CAPSULE-INTEGRITY-V1'' @ [char_of (0 :: nat)]"

definition ENCODING_VERSION :: u16 where
  "ENCODING_VERSION = 1"

definition DIGEST_ALGORITHM :: string where
  "DIGEST_ALGORITHM = ''sha2-256''"

datatype storage_class =
    ClassCore
  | ClassGuestData
  | ClassTelemetry
  | ClassAudit
  | ClassFinance
  | ClassOutbox
  | ClassRealtime
  | ClassModule string

datatype owner_scope =
    OwnerGlobal
  | OwnerNode uuid
  | OwnerCreature uuid
  | OwnerModule string

record capsule_digest =
  dg_algorithm :: string
  dg_bytes :: string

record capsule_relationship =
  rl_name :: string
  rl_target_kind :: string
  rl_target_id :: uuid

record capsule_envelope =
  ce_encoding_version :: u16
  ce_id :: uuid
  ce_kind :: string
  ce_storage_class :: storage_class
  ce_owner_scope :: owner_scope
  ce_schema_version :: u32
  ce_revision :: u64
  ce_created_at_micros :: i64
  ce_updated_at_micros :: i64
  ce_previous_integrity :: "capsule_digest option"
  ce_integrity_hash :: capsule_digest
  ce_tombstone :: bool
  ce_relationships :: "capsule_relationship list"
  ce_body :: "capsule_value option"

text \<open>A call may also panic; the error of an envelope operation is that or one the code returns.\<close>

datatype fault = Panic | Fails capsule_error

definition invalid :: "string \<Rightarrow> ('a, capsule_error) result" where
  "invalid message = Err (CapsuleInvalid message)"

definition validate_token :: "string \<Rightarrow> string \<Rightarrow> (unit, capsule_error) result" where
  "validate_token label value =
     (if value = [] \<or> length value > 128
         \<or> \<not> list_all (\<lambda>c. is_ascii_alphanumeric c \<or> c \<in> set ''._-'') value
      then invalid (label @ '' is not a safe token'') else Ok ())"

definition validate_digest :: "capsule_digest \<Rightarrow> (unit, capsule_error) result" where
  "validate_digest d =
     (if dg_algorithm d \<noteq> DIGEST_ALGORITHM then Err (UnsupportedDigest (dg_algorithm d))
      else if length (dg_bytes d) \<noteq> 32 then invalid ''sha2-256 digest must be 32 bytes''
      else Ok ())"

text \<open>The names seen so far are the set the loop inserts into.\<close>

fun validate_relationships :: "string list \<Rightarrow> capsule_relationship list \<Rightarrow> (unit, capsule_error) result" where
  "validate_relationships seen [] = Ok ()"
| "validate_relationships seen (r # rs) =
     and_then (validate_token ''relationship name'' (rl_name r)) (\<lambda>_.
     and_then (validate_token ''relationship target kind'' (rl_target_kind r)) (\<lambda>_.
       if rl_name r \<in> set seen then invalid ''relationship names must be unique''
       else validate_relationships (rl_name r # seen) rs))"

definition validate_structure :: "bool \<Rightarrow> capsule_envelope \<Rightarrow> (unit, capsule_error) result" where
  "validate_structure current e =
     and_then (validate_token ''kind'' (ce_kind e)) (\<lambda>_.
       if ce_encoding_version e \<noteq> ENCODING_VERSION then Err (UnsupportedEncoding (ce_encoding_version e))
       else if ce_schema_version e = 0 \<or> ce_revision e = 0
       then invalid ''schema_version and revision start at one''
       else if ce_updated_at_micros e < ce_created_at_micros e
       then invalid ''updated_at precedes created_at''
       else if ce_tombstone e \<noteq> (ce_body e = None)
       then invalid ''tombstones have no body and live revisions require a body''
       else if (ce_revision e = 1) \<noteq> (ce_previous_integrity e = None)
       then invalid ''only the first revision omits previous_integrity''
       else
         and_then (if current then validate_digest (ce_integrity_hash e) else Ok ()) (\<lambda>_.
         and_then (case ce_previous_integrity e of None \<Rightarrow> Ok () | Some d \<Rightarrow> validate_digest d) (\<lambda>_.
         and_then (validate_relationships [] (ce_relationships e)) (\<lambda>_.
           validate_value (ce_body e)))))"

subsection \<open>The value of an envelope\<close>

abbreviation uuid_bytes :: "uuid \<Rightarrow> string" where
  "uuid_bytes u \<equiv> be_bytes 16 (unat u)"

definition option_value :: "capsule_value option \<Rightarrow> capsule_value" where
  "option_value v = (case v of None \<Rightarrow> Null | Some v \<Rightarrow> v)"

definition digest_value :: "capsule_digest \<Rightarrow> capsule_value" where
  "digest_value d =
     Object (bt_from [(''algorithm'', Text (dg_algorithm d)), (''bytes'', Bytes (dg_bytes d))])"

definition relationship_value :: "capsule_relationship \<Rightarrow> capsule_value" where
  "relationship_value r =
     Object (bt_from [(''name'', Text (rl_name r)), (''target_id'', Bytes (uuid_bytes (rl_target_id r))),
       (''target_kind'', Text (rl_target_kind r))])"

definition storage_class_value :: "storage_class \<Rightarrow> capsule_value" where
  "storage_class_value c =
     (let (kind, name) =
        (case c of
           ClassCore \<Rightarrow> (''core'', None)
         | ClassGuestData \<Rightarrow> (''guest_data'', None)
         | ClassTelemetry \<Rightarrow> (''telemetry'', None)
         | ClassAudit \<Rightarrow> (''audit'', None)
         | ClassFinance \<Rightarrow> (''finance'', None)
         | ClassOutbox \<Rightarrow> (''outbox'', None)
         | ClassRealtime \<Rightarrow> (''realtime'', None)
         | ClassModule n \<Rightarrow> (''module'', Some n)) in
      Object (bt_from [(''name'', option_value (map_option Text name)), (''type'', Text kind)]))"

definition owner_value :: "owner_scope \<Rightarrow> capsule_value" where
  "owner_value w =
     (let (kind, i) =
        (case w of
           OwnerGlobal \<Rightarrow> (''global'', Null)
         | OwnerNode u \<Rightarrow> (''node'', Bytes (uuid_bytes u))
         | OwnerCreature u \<Rightarrow> (''creature'', Bytes (uuid_bytes u))
         | OwnerModule n \<Rightarrow> (''module'', Text n)) in
      Object (bt_from [(''id'', i), (''type'', Text kind)]))"

text \<open>
  \<open>integer\<close> panics on a number that does not fit \<open>i64\<close>; of the numbers of an envelope only its
  revision may not.
\<close>

definition integer_value :: "int \<Rightarrow> (capsule_value, fault) result" where
  "integer_value x = ok_or Panic (map_option Integer (checked_i64 x))"

definition as_value :: "bool \<Rightarrow> capsule_envelope \<Rightarrow> (capsule_value, fault) result" where
  "as_value include_integrity e =
     and_then (integer_value (int_of (ce_created_at_micros e))) (\<lambda>created.
     and_then (integer_value (uint (ce_encoding_version e))) (\<lambda>version.
     and_then (integer_value (uint (ce_revision e))) (\<lambda>revision.
     and_then (integer_value (uint (ce_schema_version e))) (\<lambda>schema.
     and_then (integer_value (int_of (ce_updated_at_micros e))) (\<lambda>updated.
       let m = bt_from
         [(''body'', option_value (ce_body e)),
          (''created_at_micros'', created),
          (''encoding_version'', version),
          (''id'', Bytes (uuid_bytes (ce_id e))),
          (''kind'', Text (ce_kind e)),
          (''owner_scope'', owner_value (ce_owner_scope e)),
          (''previous_integrity'', option_value (map_option digest_value (ce_previous_integrity e))),
          (''relationships'', Array (map relationship_value (ce_relationships e))),
          (''revision'', revision),
          (''schema_version'', schema),
          (''storage_class'', storage_class_value (ce_storage_class e)),
          (''tombstone'', Bool (ce_tombstone e)),
          (''updated_at_micros'', updated)] in
       Ok (Object (if include_integrity
                   then bt_insert ''integrity_hash'' (digest_value (ce_integrity_hash e)) m
                   else m)))))))"

text \<open>What \<open>compute_integrity\<close> hashes, and the hash.\<close>

definition integrity_input :: "capsule_envelope \<Rightarrow> (string, fault) result" where
  "integrity_input e =
     and_then (as_value False e) (\<lambda>v.
     and_then (map_err Fails (encode_value v)) (\<lambda>encoded.
       Ok (INTEGRITY_DOMAIN @ be_bytes 2 (unat ENCODING_VERSION) @ DIGEST_ALGORITHM
         @ [char_of (0 :: nat)] @ encoded)))"

definition compute_integrity :: "(string \<Rightarrow> string) \<Rightarrow> capsule_envelope \<Rightarrow> (capsule_digest, fault) result" where
  "compute_integrity sha e =
     (if ce_encoding_version e \<noteq> ENCODING_VERSION
      then Err (Fails (UnsupportedEncoding (ce_encoding_version e)))
      else
        and_then (integrity_input e) (\<lambda>bytes.
          Ok \<lparr>dg_algorithm = DIGEST_ALGORITHM, dg_bytes = sha bytes\<rparr>))"

definition seal :: "(string \<Rightarrow> string) \<Rightarrow> capsule_envelope \<Rightarrow> (capsule_envelope, fault) result" where
  "seal sha e =
     and_then (map_err Fails (validate_structure False e)) (\<lambda>_.
     and_then (compute_integrity sha e) (\<lambda>d. Ok (e\<lparr>ce_integrity_hash := d\<rparr>)))"

definition verify :: "(string \<Rightarrow> string) \<Rightarrow> capsule_envelope \<Rightarrow> (unit, fault) result" where
  "verify sha e =
     and_then (map_err Fails (validate_structure True e)) (\<lambda>_.
     and_then (compute_integrity sha e) (\<lambda>expected.
       if expected \<noteq> ce_integrity_hash e
       then Err (Fails (CapsuleInvalid ''integrity hash mismatch'')) else Ok ()))"

definition canonical_bytes :: "(string \<Rightarrow> string) \<Rightarrow> capsule_envelope \<Rightarrow> (string, fault) result" where
  "canonical_bytes sha e =
     and_then (verify sha e) (\<lambda>_.
     and_then (as_value True e) (\<lambda>v. map_err Fails (encode_value v)))"

subsection \<open>Parsing an envelope\<close>

text \<open>No field is taken twice, so that taking a field removes it is not observed.\<close>

definition take_field :: "(string \<times> capsule_value) list \<Rightarrow> string \<Rightarrow> (capsule_value, capsule_error) result" where
  "take_field m key = ok_or (CapsuleInvalid (''missing '' @ key)) (map_of m key)"

definition take_text :: "(string \<times> capsule_value) list \<Rightarrow> string \<Rightarrow> (string, capsule_error) result" where
  "take_text m key =
     and_then (take_field m key) (\<lambda>v. case v of Text t \<Rightarrow> Ok t | _ \<Rightarrow> invalid (key @ '' must be text''))"

definition take_i64 :: "(string \<times> capsule_value) list \<Rightarrow> string \<Rightarrow> (i64, capsule_error) result" where
  "take_i64 m key =
     and_then (take_field m key) (\<lambda>v. case v of Integer x \<Rightarrow> Ok x | _ \<Rightarrow> invalid (key @ '' must be an integer''))"

definition take_u64 :: "(string \<times> capsule_value) list \<Rightarrow> string \<Rightarrow> (u64, capsule_error) result" where
  "take_u64 m key =
     and_then (take_i64 m key) (\<lambda>x.
       ok_or (CapsuleInvalid (key @ '' must be non-negative'')) (u64_of_i64 x))"

definition take_bool :: "(string \<times> capsule_value) list \<Rightarrow> string \<Rightarrow> (bool, capsule_error) result" where
  "take_bool m key =
     and_then (take_field m key) (\<lambda>v. case v of Bool b \<Rightarrow> Ok b | _ \<Rightarrow> invalid (key @ '' must be a boolean''))"

definition take_fixed_bytes :: "(string \<times> capsule_value) list \<Rightarrow> string \<Rightarrow> (uuid, capsule_error) result" where
  "take_fixed_bytes m key =
     and_then (take_field m key) (\<lambda>v.
       case v of
         Bytes b \<Rightarrow> ok_or (CapsuleInvalid (key @ '' has the wrong length'')) (uuid_from_slice b)
       | _ \<Rightarrow> invalid (key @ '' must be bytes''))"

definition into_object ::
  "capsule_value \<Rightarrow> string \<Rightarrow> ((string \<times> capsule_value) list, capsule_error) result" where
  "into_object v label = (case v of Object m \<Rightarrow> Ok m | _ \<Rightarrow> invalid (label @ '' must be an object''))"

definition into_array :: "capsule_value \<Rightarrow> string \<Rightarrow> (capsule_value list, capsule_error) result" where
  "into_array v label = (case v of Array vs \<Rightarrow> Ok vs | _ \<Rightarrow> invalid (label @ '' must be an array''))"

definition reject_unknown ::
  "(string \<times> capsule_value) list \<Rightarrow> string list \<Rightarrow> (unit, capsule_error) result" where
  "reject_unknown m allowed =
     (if list_ex (\<lambda>(k, _). k \<notin> set allowed) m then invalid ''object contains an unknown field'' else Ok ())"

definition parse_optional ::
  "capsule_value \<Rightarrow> (capsule_value \<Rightarrow> ('a, capsule_error) result) \<Rightarrow> ('a option, capsule_error) result" where
  "parse_optional v parse =
     (case v of Null \<Rightarrow> Ok None | _ \<Rightarrow> and_then (parse v) (\<lambda>x. Ok (Some x)))"

definition parse_digest :: "capsule_value \<Rightarrow> (capsule_digest, capsule_error) result" where
  "parse_digest v =
     and_then (into_object v ''digest'') (\<lambda>m.
     and_then (reject_unknown m [''algorithm'', ''bytes'']) (\<lambda>_.
     and_then (take_text m ''algorithm'') (\<lambda>a.
     and_then (take_field m ''bytes'') (\<lambda>b.
     and_then (case b of Bytes b \<Rightarrow> Ok b | _ \<Rightarrow> invalid ''digest bytes must be bytes'') (\<lambda>b.
       let d = \<lparr>dg_algorithm = a, dg_bytes = b\<rparr> in
       and_then (validate_digest d) (\<lambda>_. Ok d))))))"

definition parse_relationship :: "capsule_value \<Rightarrow> (capsule_relationship, capsule_error) result" where
  "parse_relationship v =
     and_then (into_object v ''relationship'') (\<lambda>m.
     and_then (reject_unknown m [''name'', ''target_id'', ''target_kind'']) (\<lambda>_.
     and_then (take_text m ''name'') (\<lambda>n.
     and_then (take_text m ''target_kind'') (\<lambda>k.
     and_then (take_fixed_bytes m ''target_id'') (\<lambda>u.
       Ok \<lparr>rl_name = n, rl_target_kind = k, rl_target_id = u\<rparr>)))))"

definition storage_class_of :: "string \<Rightarrow> string option \<Rightarrow> (storage_class, capsule_error) result" where
  "storage_class_of kind name =
     (case name of
        None \<Rightarrow>
          if kind = ''core'' then Ok ClassCore
          else if kind = ''guest_data'' then Ok ClassGuestData
          else if kind = ''telemetry'' then Ok ClassTelemetry
          else if kind = ''audit'' then Ok ClassAudit
          else if kind = ''finance'' then Ok ClassFinance
          else if kind = ''outbox'' then Ok ClassOutbox
          else if kind = ''realtime'' then Ok ClassRealtime
          else invalid ''invalid storage class''
      | Some n \<Rightarrow> if kind = ''module'' then Ok (ClassModule n) else invalid ''invalid storage class'')"

definition parse_storage_class :: "capsule_value \<Rightarrow> (storage_class, capsule_error) result" where
  "parse_storage_class v =
     and_then (into_object v ''storage_class'') (\<lambda>m.
     and_then (reject_unknown m [''name'', ''type'']) (\<lambda>_.
     and_then (take_field m ''name'') (\<lambda>n.
     and_then (parse_optional n (\<lambda>v. case v of Text t \<Rightarrow> Ok t | _ \<Rightarrow> invalid ''storage class name must be text''))
       (\<lambda>name.
     and_then (take_text m ''type'') (\<lambda>kind. storage_class_of kind name)))))"

definition owner_of :: "string \<Rightarrow> capsule_value \<Rightarrow> (owner_scope, capsule_error) result" where
  "owner_of kind i =
     (case i of
         Null \<Rightarrow> if kind = ''global'' then Ok OwnerGlobal else invalid ''invalid owner scope''
       | Bytes b \<Rightarrow>
           if kind = ''node''
           then and_then (ok_or (CapsuleInvalid ''node owner ID length'') (uuid_from_slice b)) (\<lambda>u. Ok (OwnerNode u))
           else if kind = ''creature''
           then and_then (ok_or (CapsuleInvalid ''creature owner ID length'') (uuid_from_slice b))
             (\<lambda>u. Ok (OwnerCreature u))
           else invalid ''invalid owner scope''
       | Text t \<Rightarrow> if kind = ''module'' then Ok (OwnerModule t) else invalid ''invalid owner scope''
       | _ \<Rightarrow> invalid ''invalid owner scope'')"

definition parse_owner :: "capsule_value \<Rightarrow> (owner_scope, capsule_error) result" where
  "parse_owner v =
     and_then (into_object v ''owner_scope'') (\<lambda>m.
     and_then (reject_unknown m [''id'', ''type'']) (\<lambda>_.
     and_then (take_text m ''type'') (\<lambda>kind.
     and_then (take_field m ''id'') (\<lambda>i.
       owner_of kind i))))"

definition ENVELOPE_FIELDS :: "string list" where
  "ENVELOPE_FIELDS =
     [''body'', ''created_at_micros'', ''encoding_version'', ''id'', ''integrity_hash'', ''kind'',
      ''owner_scope'', ''previous_integrity'', ''relationships'', ''revision'', ''schema_version'',
      ''storage_class'', ''tombstone'', ''updated_at_micros'']"

definition narrow :: "string \<Rightarrow> u64 \<Rightarrow> ('a::len word, capsule_error) result" where
  "narrow message n = (if unat n < 2 ^ LENGTH('a) then Ok (ucast n) else invalid message)"

definition from_value :: "capsule_value \<Rightarrow> (capsule_envelope, capsule_error) result" where
  "from_value v =
     and_then (into_object v ''capsule envelope'') (\<lambda>m.
     and_then (reject_unknown m ENVELOPE_FIELDS) (\<lambda>_.
     and_then (take_u64 m ''encoding_version'') (\<lambda>n.
     and_then (narrow ''encoding_version overflow'' n) (\<lambda>version.
     and_then (take_fixed_bytes m ''id'') (\<lambda>i.
     and_then (take_text m ''kind'') (\<lambda>kind.
     and_then (take_field m ''storage_class'') (\<lambda>v.
     and_then (parse_storage_class v) (\<lambda>storage_class.
     and_then (take_field m ''owner_scope'') (\<lambda>v.
     and_then (parse_owner v) (\<lambda>owner_scope.
     and_then (take_u64 m ''schema_version'') (\<lambda>n.
     and_then (narrow ''schema_version overflow'' n) (\<lambda>schema.
     and_then (take_u64 m ''revision'') (\<lambda>revision.
     and_then (take_i64 m ''created_at_micros'') (\<lambda>created.
     and_then (take_i64 m ''updated_at_micros'') (\<lambda>updated.
     and_then (take_field m ''previous_integrity'') (\<lambda>v.
     and_then (parse_optional v parse_digest) (\<lambda>previous.
     and_then (take_field m ''integrity_hash'') (\<lambda>v.
     and_then (parse_digest v) (\<lambda>hash.
     and_then (take_bool m ''tombstone'') (\<lambda>tombstone.
     and_then (take_field m ''relationships'') (\<lambda>v.
     and_then (into_array v ''relationships'') (\<lambda>vs.
     and_then (collect parse_relationship vs) (\<lambda>relationships.
     and_then (take_field m ''body'') (\<lambda>v.
     and_then (parse_optional v Ok) (\<lambda>body.
       Ok \<lparr>ce_encoding_version = version, ce_id = i, ce_kind = kind, ce_storage_class = storage_class,
           ce_owner_scope = owner_scope, ce_schema_version = schema, ce_revision = revision,
           ce_created_at_micros = created, ce_updated_at_micros = updated,
           ce_previous_integrity = previous, ce_integrity_hash = hash, ce_tombstone = tombstone,
           ce_relationships = relationships, ce_body = body\<rparr>)))))))))))))))))))))))))"

definition from_canonical_bytes :: "(string \<Rightarrow> string) \<Rightarrow> string \<Rightarrow> (capsule_envelope, fault) result" where
  "from_canonical_bytes sha bs =
     and_then (map_err Fails (decode_canonical_value bs)) (\<lambda>v.
     and_then (map_err Fails (from_value v)) (\<lambda>e.
     and_then (verify sha e) (\<lambda>_. Ok e)))"

section \<open>Parsing undoes writing\<close>

lemma be_value_less: "be_value b < 256 ^ length b"
proof (induction b rule: rev_induct)
  case (snoc c b)
  have "byte c < 256" by (simp add: byte_def)
  then have "be_value (b @ [c]) < 256 * (be_value b + 1)" by (simp add: be_value_def)
  also have "\<dots> \<le> 256 * 256 ^ length b" using snoc by (intro mult_le_mono2) simp
  finally show ?case by simp
qed (simp add: be_value_def)

lemma be_bytes_be_value: "be_bytes (length b) (be_value b) = b"
proof (induction b rule: rev_induct)
  case (snoc c b)
  have c: "byte c < 256" "char_of (byte c) = c" by (simp_all add: byte_def)
  have "be_value (b @ [c]) = 256 * be_value b + byte c" by (simp add: be_value_def)
  then show ?case using snoc c by simp
qed simp

lemma uuid_from_slice_iff: "uuid_from_slice b = Some u \<longleftrightarrow> b = uuid_bytes u"
proof
  assume u: "uuid_from_slice b = Some u"
  then have len: "length b = 16" by (simp add: uuid_from_slice_def split: if_splits)
  then have "be_value b < 2 ^ 128" using be_value_less [of b] by simp
  then have "unat u = be_value b"
    using u by (auto simp: uuid_from_slice_def unsigned_of_nat take_bit_nat_eq_self split: if_splits)
  with len show "b = uuid_bytes u" by (metis be_bytes_be_value)
qed (simp add: uuid_from_slice_bytes)

named_theorems take_iff \<open>when a parser of one field succeeds\<close>

lemma take_field_iff [take_iff]: "take_field m k = Ok v \<longleftrightarrow> map_of m k = Some v"
  by (simp add: take_field_def result_simps)

lemma take_text_iff [take_iff]: "take_text m k = Ok t \<longleftrightarrow> map_of m k = Some (Text t)"
  by (cases "map_of m k"; cases "the (map_of m k)") (auto simp: take_text_def take_field_def invalid_def)

lemma take_i64_iff [take_iff]: "take_i64 m k = Ok x \<longleftrightarrow> map_of m k = Some (Integer x)"
  by (cases "map_of m k"; cases "the (map_of m k)") (auto simp: take_i64_def take_field_def invalid_def)

lemma take_bool_iff [take_iff]: "take_bool m k = Ok b \<longleftrightarrow> map_of m k = Some (Bool b)"
  by (cases "map_of m k"; cases "the (map_of m k)") (auto simp: take_bool_def take_field_def invalid_def)

lemma u64_of_i64_iff: "u64_of_i64 x = Some n \<longleftrightarrow> int_of x = uint n"
proof
  assume "u64_of_i64 x = Some n"
  then show "int_of x = uint n"
    using int_of_bounds [of x]
    by (auto simp: u64_of_i64_def unsigned_of_int take_bit_int_eq_self split: if_splits)
qed (auto simp: u64_of_i64_def)

lemma int_of_eq_iff: "int_of x = y \<longleftrightarrow> x = I64 y \<and> in_i64 y"
  by (auto simp: int_of_I64_in simp del: int_of_I64)

lemma take_u64_iff [take_iff]:
  "take_u64 m k = Ok n \<longleftrightarrow> map_of m k = Some (Integer (I64 (uint n))) \<and> in_i64 (uint n)"
  by (auto simp: take_u64_def take_i64_iff result_simps u64_of_i64_iff int_of_eq_iff simp del: int_of_I64)

lemma narrow_iff:
  fixes w :: "'a::len word"
  shows "narrow message n = Ok w \<longleftrightarrow> uint n = uint w"
proof -
  have low: "unat (ucast n :: 'a word) = unat n" if "unat n < 2 ^ LENGTH('a)"
    using that by (simp add: unsigned_ucast_eq take_bit_nat_eq_self)
  have "narrow message n = Ok w \<longleftrightarrow> unat n = unat w"
  proof (cases "unat n < 2 ^ LENGTH('a)")
    case True
    then have "narrow message n = Ok w \<longleftrightarrow> unat (ucast n :: 'a word) = unat w"
      by (simp add: narrow_def word_unat_eq_iff)
    then show ?thesis using low [OF True] by simp
  next
    case False
    then have "unat n \<noteq> unat w" using unsigned_less [of w, where 'a = nat] by auto
    then show ?thesis using False by (simp add: narrow_def invalid_def)
  qed
  moreover have "int (unat n) = int (unat w) \<longleftrightarrow> uint n = uint w" by simp
  ultimately show ?thesis by linarith
qed

lemma take_fixed_bytes_iff [take_iff]:
  "take_fixed_bytes m k = Ok u \<longleftrightarrow> map_of m k = Some (Bytes (uuid_bytes u))"
  by (cases "map_of m k"; cases "the (map_of m k)")
    (auto simp: take_fixed_bytes_def take_field_def invalid_def result_simps uuid_from_slice_iff)

lemma into_object_iff [take_iff]: "into_object v label = Ok m \<longleftrightarrow> v = Object m"
  by (auto simp: into_object_def invalid_def split: capsule_value.splits)

lemma into_array_iff [take_iff]: "into_array v label = Ok vs \<longleftrightarrow> v = Array vs"
  by (auto simp: into_array_def invalid_def split: capsule_value.splits)

lemma reject_unknown_iff [take_iff]: "reject_unknown m allowed = Ok () \<longleftrightarrow> fst ` set m \<subseteq> set allowed"
  by (auto simp: reject_unknown_def invalid_def list_ex_iff split: if_splits)

text \<open>An object is determined by its fields.\<close>

lemma object_is:
  assumes "bt_ok m" and "distinct (map fst es)"
  shows "fst ` set m \<subseteq> set (map fst es) \<and> (\<forall>(k, v) \<in> set es. map_of m k = Some v) \<longleftrightarrow> m = bt_from es"
proof
  assume "fst ` set m \<subseteq> set (map fst es) \<and> (\<forall>(k, v) \<in> set es. map_of m k = Some v)"
  moreover have "map_of m k = map_of es k" if "k \<notin> fst ` set es" for k
    using that calculation by (metis (no_types, lifting) list.set_map map_of_eq_None_iff subsetD)
  moreover have "map_of m k = map_of es k" if "k \<in> fst ` set es" for k
    using that calculation(1) map_of_eq_Some_iff [OF assms(2)] by force
  ultimately have "map_of m = map_of (bt_from es)"
    using bt_from_get [OF assms(2)] by (metis ext)
  then show "m = bt_from es" using assms(1) bt_from_ok by (rule bt_ext [rotated 2])
next
  assume m: "m = bt_from es"
  then have "map_of m = map_of es" using bt_from_get [OF assms(2)] by simp
  then show "fst ` set m \<subseteq> set (map fst es) \<and> (\<forall>(k, v) \<in> set es. map_of m k = Some v)"
    using map_of_eq_Some_iff [OF assms(2)]
    by (auto simp: map_of_eq_None_iff [symmetric] dom_map_of_conv_image_fst [symmetric])
qed

lemma set_bt_from: "distinct (map fst es) \<Longrightarrow> set (bt_from es) = set es"
  using bt_entries [OF bt_from_ok] bt_from_get map_of_eq_Some_iff by (metis (no_types, lifting) ext set_eqI surj_pair)

lemma value_ok_object_from:
  "distinct (map fst es) \<Longrightarrow> value_ok (Object (bt_from es)) \<longleftrightarrow> (\<forall>(k, v) \<in> set es. utf8 k \<and> value_ok v)"
  by (simp add: set_bt_from bt_from_ok)

lemma parse_optional_iff:
  "parse_optional v parse = Ok x \<longleftrightarrow>
     (case x of None \<Rightarrow> v = Null | Some y \<Rightarrow> v \<noteq> Null \<and> parse v = Ok y)"
  by (cases v; cases x) (auto simp: parse_optional_def result_simps)

lemma parse_digest_iff:
  assumes "value_ok v"
  shows "parse_digest v = Ok d \<longleftrightarrow> v = digest_value d \<and> validate_digest d = Ok ()"
proof (cases "\<exists>m. v = Object m")
  case True
  then obtain m where v: "v = Object m" by blast
  have "parse_digest v = Ok d \<longleftrightarrow> fst ` set m \<subseteq> {''algorithm'', ''bytes''} \<and>
      map_of m ''algorithm'' = Some (Text (dg_algorithm d)) \<and> map_of m ''bytes'' = Some (Bytes (dg_bytes d)) \<and>
      validate_digest d = Ok ()"
    by (cases "map_of m ''bytes''"; cases "the (map_of m ''bytes'')"; cases d)
      (auto simp: parse_digest_def v result_simps take_iff Let_def invalid_def)
  then show ?thesis
    using object_is [of m "[(''algorithm'', Text (dg_algorithm d)), (''bytes'', Bytes (dg_bytes d))]"] assms v
    by (auto simp: digest_value_def)
qed (auto simp: parse_digest_def digest_value_def result_simps take_iff)

lemma parse_relationship_iff:
  assumes "value_ok v"
  shows "parse_relationship v = Ok r \<longleftrightarrow> v = relationship_value r"
proof (cases "\<exists>m. v = Object m")
  case True
  then obtain m where v: "v = Object m" by blast
  have "parse_relationship v = Ok r \<longleftrightarrow> fst ` set m \<subseteq> {''name'', ''target_id'', ''target_kind''} \<and>
      map_of m ''name'' = Some (Text (rl_name r)) \<and>
      map_of m ''target_id'' = Some (Bytes (uuid_bytes (rl_target_id r))) \<and>
      map_of m ''target_kind'' = Some (Text (rl_target_kind r))"
    by (cases r) (auto simp: parse_relationship_def v result_simps take_iff simp del: be_bytes.simps)
  then show ?thesis
    using object_is [of m "[(''name'', Text (rl_name r)), (''target_id'', Bytes (uuid_bytes (rl_target_id r))),
        (''target_kind'', Text (rl_target_kind r))]"] assms v
    by (auto simp: relationship_value_def simp del: be_bytes.simps)
qed (auto simp: parse_relationship_def relationship_value_def result_simps take_iff)

fun class_parts :: "storage_class \<Rightarrow> string \<times> string option" where
  "class_parts ClassCore = (''core'', None)"
| "class_parts ClassGuestData = (''guest_data'', None)"
| "class_parts ClassTelemetry = (''telemetry'', None)"
| "class_parts ClassAudit = (''audit'', None)"
| "class_parts ClassFinance = (''finance'', None)"
| "class_parts ClassOutbox = (''outbox'', None)"
| "class_parts ClassRealtime = (''realtime'', None)"
| "class_parts (ClassModule n) = (''module'', Some n)"

lemma storage_class_value_parts:
  "storage_class_value c =
     Object (bt_from [(''name'', option_value (map_option Text (snd (class_parts c)))), (''type'', Text (fst (class_parts c)))])"
  by (cases c) (simp_all add: storage_class_value_def)

lemma storage_class_of_iff: "storage_class_of kind name = Ok c \<longleftrightarrow> class_parts c = (kind, name)"
  by (cases name; cases c) (auto simp: storage_class_of_def invalid_def)

lemma parse_storage_class_iff:
  assumes "value_ok v"
  shows "parse_storage_class v = Ok c \<longleftrightarrow> v = storage_class_value c"
proof (cases "\<exists>m. v = Object m")
  case True
  then obtain m where v: "v = Object m" by blast
  have name: "parse_optional w (\<lambda>v. case v of Text t \<Rightarrow> Ok t | _ \<Rightarrow> invalid msg) = Ok name
      \<longleftrightarrow> w = option_value (map_option Text name)" for w name msg
    by (cases w; cases name) (auto simp: parse_optional_def invalid_def option_value_def)
  have "parse_storage_class v = Ok c \<longleftrightarrow> fst ` set m \<subseteq> {''name'', ''type''} \<and>
      map_of m ''name'' = Some (option_value (map_option Text (snd (class_parts c)))) \<and>
      map_of m ''type'' = Some (Text (fst (class_parts c)))"
    by (cases "class_parts c") (auto simp: parse_storage_class_def v result_simps take_iff name storage_class_of_iff)
  then show ?thesis
    using object_is [of m "[(''name'', option_value (map_option Text (snd (class_parts c)))),
        (''type'', Text (fst (class_parts c)))]"] assms v
    by (auto simp: storage_class_value_parts)
qed (auto simp: parse_storage_class_def storage_class_value_parts result_simps take_iff)

fun owner_parts :: "owner_scope \<Rightarrow> string \<times> capsule_value" where
  "owner_parts OwnerGlobal = (''global'', Null)"
| "owner_parts (OwnerNode u) = (''node'', Bytes (uuid_bytes u))"
| "owner_parts (OwnerCreature u) = (''creature'', Bytes (uuid_bytes u))"
| "owner_parts (OwnerModule n) = (''module'', Text n)"

lemma owner_value_parts:
  "owner_value w = Object (bt_from [(''id'', snd (owner_parts w)), (''type'', Text (fst (owner_parts w)))])"
  by (cases w) (simp_all add: owner_value_def del: be_bytes.simps)

lemma owner_of_iff: "owner_of kind i = Ok w \<longleftrightarrow> owner_parts w = (kind, i)"
proof (cases i)
  case (Bytes b)
  then show ?thesis
    by (cases w) (auto simp: owner_of_def invalid_def result_simps uuid_from_slice_iff simp del: be_bytes.simps)
qed (cases w; auto simp: owner_of_def invalid_def)+

lemma parse_owner_iff:
  assumes "value_ok v"
  shows "parse_owner v = Ok w \<longleftrightarrow> v = owner_value w"
proof (cases "\<exists>m. v = Object m")
  case True
  then obtain m where v: "v = Object m" by blast
  have "parse_owner v = Ok w \<longleftrightarrow> fst ` set m \<subseteq> {''id'', ''type''} \<and>
      map_of m ''id'' = Some (snd (owner_parts w)) \<and> map_of m ''type'' = Some (Text (fst (owner_parts w)))"
    by (cases "owner_parts w") (auto simp: parse_owner_def v result_simps take_iff owner_of_iff)
  then show ?thesis
    using object_is [of m "[(''id'', snd (owner_parts w)), (''type'', Text (fst (owner_parts w)))]"] assms v
    by (auto simp: owner_value_parts simp del: be_bytes.simps)
qed (auto simp: parse_owner_def owner_value_parts result_simps take_iff)

subsection \<open>Envelopes\<close>

definition envelope_fields :: "bool \<Rightarrow> capsule_envelope \<Rightarrow> (string \<times> capsule_value) list" where
  "envelope_fields include_integrity e =
     [(''body'', option_value (ce_body e)),
      (''created_at_micros'', Integer (ce_created_at_micros e)),
      (''encoding_version'', Integer (I64 (uint (ce_encoding_version e)))),
      (''id'', Bytes (uuid_bytes (ce_id e))),
      (''kind'', Text (ce_kind e)),
      (''owner_scope'', owner_value (ce_owner_scope e)),
      (''previous_integrity'', option_value (map_option digest_value (ce_previous_integrity e))),
      (''relationships'', Array (map relationship_value (ce_relationships e))),
      (''revision'', Integer (I64 (uint (ce_revision e)))),
      (''schema_version'', Integer (I64 (uint (ce_schema_version e)))),
      (''storage_class'', storage_class_value (ce_storage_class e)),
      (''tombstone'', Bool (ce_tombstone e)),
      (''updated_at_micros'', Integer (ce_updated_at_micros e))] @
     (if include_integrity then [(''integrity_hash'', digest_value (ce_integrity_hash e))] else [])"

lemma distinct_envelope_fields: "distinct (map fst (envelope_fields b e))"
  by (simp add: envelope_fields_def)

lemma integer_value_iff: "integer_value x = Ok v \<longleftrightarrow> v = Integer (I64 x) \<and> in_i64 x"
  by (auto simp: integer_value_def result_simps checked_i64_def)

lemma uint_in_i64: "in_i64 (uint (x :: u16))" "in_i64 (uint (y :: u32))"
  using uint_bounded [of x] uint_bounded [of y]
  by (auto simp: in_i64_def intro: order_trans [OF _ uint_nonnegative])

lemma bt_insert_from: "bt_insert k v (bt_from es) = bt_from (es @ [(k, v)])"
  by (simp add: bt_from_def)

lemma as_value_iff:
  "as_value b e = Ok v \<longleftrightarrow> v = Object (bt_from (envelope_fields b e)) \<and> in_i64 (uint (ce_revision e))"
proof -
  have int: "integer_value x = (if in_i64 x then Ok (Integer (I64 x)) else Err Panic)" for x
    by (simp add: integer_value_def checked_i64_def)
  have "as_value b e = Ok (Object (bt_from (envelope_fields b e)))" if "in_i64 (uint (ce_revision e))"
    by (cases b) (simp_all only: as_value_def int that uint_in_i64 in_i64_int_of I64_int_of if_True if_False
        and_then.simps Let_def bt_insert_from envelope_fields_def append.simps)
  moreover have "as_value b e = Err Panic" if "\<not> in_i64 (uint (ce_revision e))"
    by (simp only: as_value_def int that uint_in_i64 in_i64_int_of if_True if_False and_then.simps)
  ultimately show ?thesis by (cases "in_i64 (uint (ce_revision e))") auto
qed

lemma take_storage_class:
  assumes "value_ok (Object m)"
  shows "and_then (take_field m k) (\<lambda>v. and_then (parse_storage_class v) f) = Ok y \<longleftrightarrow>
    (\<exists>c. map_of m k = Some (storage_class_value c) \<and> f c = Ok y)"
proof -
  have "value_ok v" if "map_of m k = Some v" for v using assms that by (auto dest: map_of_SomeD)
  then show ?thesis by (auto simp: result_simps take_iff parse_storage_class_iff)
qed

lemma field_ok: "value_ok (Object m) \<Longrightarrow> map_of m k = Some v \<Longrightarrow> value_ok v"
  by (auto dest: map_of_SomeD)

lemma take_owner:
  assumes "value_ok (Object m)"
  shows "and_then (take_field m k) (\<lambda>v. and_then (parse_owner v) f) = Ok y \<longleftrightarrow>
    (\<exists>w. map_of m k = Some (owner_value w) \<and> f w = Ok y)"
  using field_ok [OF assms] by (auto simp: result_simps take_iff parse_owner_iff)

lemma take_digest:
  assumes "value_ok (Object m)"
  shows "and_then (take_field m k) (\<lambda>v. and_then (parse_digest v) f) = Ok y \<longleftrightarrow>
    (\<exists>d. map_of m k = Some (digest_value d) \<and> validate_digest d = Ok () \<and> f d = Ok y)"
  using field_ok [OF assms] by (auto simp: result_simps take_iff parse_digest_iff)

lemma take_previous:
  assumes "value_ok (Object m)"
  shows "and_then (take_field m k) (\<lambda>v. and_then (parse_optional v parse_digest) f) = Ok y \<longleftrightarrow>
    (\<exists>p. map_of m k = Some (option_value (map_option digest_value p)) \<and>
      (case p of None \<Rightarrow> True | Some d \<Rightarrow> validate_digest d = Ok ()) \<and> f p = Ok y)"
proof -
  have "parse_optional v parse_digest = Ok p \<longleftrightarrow> v = option_value (map_option digest_value p) \<and>
      (case p of None \<Rightarrow> True | Some d \<Rightarrow> validate_digest d = Ok ())" if "value_ok v" for v p
    using parse_digest_iff [OF that]
    by (cases p) (auto simp: parse_optional_iff option_value_def digest_value_def)
  then show ?thesis using field_ok [OF assms] by (auto simp: result_simps take_iff)
qed

lemma take_body:
  "and_then (take_field m k) (\<lambda>v. and_then (parse_optional v Ok) f) = Ok y \<longleftrightarrow>
    (\<exists>b. map_of m k = Some (option_value b) \<and> b \<noteq> Some Null \<and> f b = Ok y)"
proof -
  have "parse_optional v Ok = Ok b \<longleftrightarrow> v = option_value b \<and> b \<noteq> Some Null" for v b
    by (cases b) (auto simp: parse_optional_iff option_value_def)
  then show ?thesis by (auto simp: result_simps take_iff)
qed

lemma take_relationships:
  assumes "value_ok (Object m)"
  shows "and_then (take_field m k) (\<lambda>v. and_then (into_array v label) (\<lambda>vs.
      and_then (collect parse_relationship vs) f)) = Ok y \<longleftrightarrow>
    (\<exists>rs. map_of m k = Some (Array (map relationship_value rs)) \<and> f rs = Ok y)"
proof -
  have "collect parse_relationship vs = Ok rs \<longleftrightarrow> vs = map relationship_value rs"
    if "value_ok (Array vs)" for vs rs
    using that unfolding collect_eq_Ok
    by (induction vs arbitrary: rs) (auto simp: list_all2_Cons1 parse_relationship_iff)
  then show ?thesis using field_ok [OF assms, of k] by (auto simp: result_simps take_iff)
qed

lemma take_narrow:
  "and_then (take_u64 m k) (\<lambda>n. and_then (narrow message n) f) = Ok y \<longleftrightarrow>
    (\<exists>w :: 'a::len word. map_of m k = Some (Integer (I64 (uint w))) \<and> in_i64 (uint w) \<and> f w = Ok y)"
proof -
  have "\<exists>n :: u64. uint n = uint w" if "in_i64 (uint w)" for w :: "'a word"
    using that
    by (intro exI [of _ "ucast w"]) (simp add: in_i64_def unsigned_ucast_eq take_bit_int_eq_self)
  then show ?thesis unfolding and_then_eq_Ok take_u64_iff narrow_iff by metis
qed

lemma from_value_fields:
  assumes "value_ok (Object m)"
  shows "from_value (Object m) = Ok e \<longleftrightarrow>
    fst ` set m \<subseteq> set ENVELOPE_FIELDS \<and> (\<forall>(k, v) \<in> set (envelope_fields True e). map_of m k = Some v) \<and>
    in_i64 (uint (ce_revision e)) \<and> validate_digest (ce_integrity_hash e) = Ok () \<and>
    (case ce_previous_integrity e of None \<Rightarrow> True | Some d \<Rightarrow> validate_digest d = Ok ()) \<and>
    ce_body e \<noteq> Some Null"
proof -
  have reject: "and_then (reject_unknown m ks) f = Ok y \<longleftrightarrow> fst ` set m \<subseteq> set ks \<and> f () = Ok y" for ks f and y :: capsule_envelope
    by (auto simp: result_simps take_iff)
  have bind: "and_then (take_fixed_bytes m k) g = Ok y \<longleftrightarrow> (\<exists>u. map_of m k = Some (Bytes (uuid_bytes u)) \<and> g u = Ok y)"
    "and_then (take_text m k) h = Ok y \<longleftrightarrow> (\<exists>t. map_of m k = Some (Text t) \<and> h t = Ok y)"
    "and_then (take_i64 m k) i = Ok y \<longleftrightarrow> (\<exists>x. map_of m k = Some (Integer x) \<and> i x = Ok y)"
    "and_then (take_u64 m k) j = Ok y \<longleftrightarrow>
       (\<exists>n. map_of m k = Some (Integer (I64 (uint n))) \<and> in_i64 (uint n) \<and> j n = Ok y)"
    "and_then (take_bool m k) b = Ok y \<longleftrightarrow> (\<exists>x. map_of m k = Some (Bool x) \<and> b x = Ok y)"
    for k g h i j b and y :: capsule_envelope
    by (auto simp: result_simps take_iff simp del: be_bytes.simps)
  obtain a1 a2 a3 a4 a5 a6 a7 a8 a9 a10 a11 a12 a13 a14
    where e: "e = \<lparr>ce_encoding_version = a1, ce_id = a2, ce_kind = a3, ce_storage_class = a4,
           ce_owner_scope = a5, ce_schema_version = a6, ce_revision = a7,
           ce_created_at_micros = a8, ce_updated_at_micros = a9,
           ce_previous_integrity = a10, ce_integrity_hash = a11, ce_tombstone = a12,
           ce_relationships = a13, ce_body = a14\<rparr>" by (cases e)
  show ?thesis
    unfolding from_value_def into_object_def capsule_value.case and_then.simps reject take_narrow
      take_storage_class [OF assms] take_owner [OF assms] take_digest [OF assms] take_previous [OF assms]
      take_body take_relationships [OF assms] bind sum.inject e capsule_envelope.ext_inject
      envelope_fields_def capsule_envelope.select_convs
    by (auto simp: uint_in_i64)
qed

lemma from_value_iff:
  assumes "value_ok v"
  shows "from_value v = Ok e \<longleftrightarrow> as_value True e = Ok v \<and> validate_digest (ce_integrity_hash e) = Ok () \<and>
    (case ce_previous_integrity e of None \<Rightarrow> True | Some d \<Rightarrow> validate_digest d = Ok ()) \<and> ce_body e \<noteq> Some Null"
proof (cases "\<exists>m. v = Object m")
  case True
  then obtain m where v: "v = Object m" by blast
  have ok: "bt_ok m" using assms v by simp
  have keys: "set ENVELOPE_FIELDS = set (map fst (envelope_fields True e))"
    by (auto simp: ENVELOPE_FIELDS_def envelope_fields_def)
  show ?thesis
    unfolding v from_value_fields [OF assms [unfolded v]] as_value_iff keys
    using object_is [OF ok distinct_envelope_fields [of True e]] by auto
qed (auto simp: from_value_def as_value_iff result_simps take_iff)

text \<open>The strings of an envelope are UTF-8, and its body is a value of its type.\<close>

definition digest_ok :: "capsule_digest \<Rightarrow> bool" where
  "digest_ok d \<longleftrightarrow> utf8 (dg_algorithm d)"

definition envelope_ok :: "capsule_envelope \<Rightarrow> bool" where
  "envelope_ok e \<longleftrightarrow>
     utf8 (ce_kind e) \<and>
     (case ce_storage_class e of ClassModule n \<Rightarrow> utf8 n | _ \<Rightarrow> True) \<and>
     (case ce_owner_scope e of OwnerModule n \<Rightarrow> utf8 n | _ \<Rightarrow> True) \<and>
     (case ce_previous_integrity e of None \<Rightarrow> True | Some d \<Rightarrow> digest_ok d) \<and> digest_ok (ce_integrity_hash e) \<and>
     (\<forall>r \<in> set (ce_relationships e). utf8 (rl_name r) \<and> utf8 (rl_target_kind r)) \<and>
     (case ce_body e of None \<Rightarrow> True | Some v \<Rightarrow> value_ok v)"

definition ascii :: "string \<Rightarrow> bool" where
  "ascii t \<longleftrightarrow> list_all (\<lambda>c. byte c < 128) t"

lemma utf8_ascii: "ascii t \<Longrightarrow> utf8 t"
  by (induction t) (simp_all add: ascii_def)

declare utf8.simps(2) [simp del]

lemma envelope_keys_utf8: "\<forall>(k, v) \<in> set (envelope_fields b e). utf8 k"
  by (simp add: envelope_fields_def utf8_ascii ascii_def byte_def)

lemma part_values_ok:
  "value_ok (digest_value d) \<longleftrightarrow> digest_ok d"
  "value_ok (relationship_value r) \<longleftrightarrow> utf8 (rl_name r) \<and> utf8 (rl_target_kind r)"
  "value_ok (storage_class_value c) \<longleftrightarrow> (case c of ClassModule n \<Rightarrow> utf8 n | _ \<Rightarrow> True)"
  "value_ok (owner_value w) \<longleftrightarrow> (case w of OwnerModule n \<Rightarrow> utf8 n | _ \<Rightarrow> True)"
proof -
  have names: "utf8 ''algorithm''" "utf8 ''bytes''" "utf8 ''name''" "utf8 ''target_id''" "utf8 ''target_kind''"
    "utf8 ''type''" "utf8 ''id''" "utf8 ''core''" "utf8 ''guest_data''" "utf8 ''telemetry''" "utf8 ''audit''"
    "utf8 ''finance''" "utf8 ''outbox''" "utf8 ''realtime''" "utf8 ''module''" "utf8 ''global''" "utf8 ''node''"
    "utf8 ''creature''"
    by (simp_all add: utf8_ascii ascii_def byte_def)
  show "value_ok (digest_value d) \<longleftrightarrow> digest_ok d"
    unfolding digest_value_def digest_ok_def by (subst value_ok_object_from) (simp_all add: names)
  show "value_ok (relationship_value r) \<longleftrightarrow> utf8 (rl_name r) \<and> utf8 (rl_target_kind r)"
    unfolding relationship_value_def by (subst value_ok_object_from) (simp_all add: names)
  show "value_ok (storage_class_value c) \<longleftrightarrow> (case c of ClassModule n \<Rightarrow> utf8 n | _ \<Rightarrow> True)"
    unfolding storage_class_value_parts
    by (subst value_ok_object_from) (simp_all add: names option_value_def split: storage_class.split)
  show "value_ok (owner_value w) \<longleftrightarrow> (case w of OwnerModule n \<Rightarrow> utf8 n | _ \<Rightarrow> True)"
    unfolding owner_value_parts
    by (subst value_ok_object_from) (simp_all add: names split: owner_scope.split)
qed

lemma envelope_value_ok:
  "value_ok (Object (bt_from (envelope_fields True e))) \<longleftrightarrow> envelope_ok e"
proof -
  have "value_ok (Object (bt_from (envelope_fields True e))) \<longleftrightarrow> (\<forall>(k, v) \<in> set (envelope_fields True e). value_ok v)"
    unfolding value_ok_object_from [OF distinct_envelope_fields] using envelope_keys_utf8 by fastforce
  also have "\<dots> \<longleftrightarrow> envelope_ok e"
    by (auto simp: envelope_fields_def envelope_ok_def part_values_ok option_value_def split: option.split)
  finally show ?thesis .
qed

lemma verify_digests:
  assumes "verify sha e = Ok ()"
  shows "validate_digest (ce_integrity_hash e) = Ok ()"
    "case ce_previous_integrity e of None \<Rightarrow> True | Some d \<Rightarrow> validate_digest d = Ok ()"
  using assms by (auto simp: verify_def validate_structure_def invalid_def result_simps split: if_splits option.splits)

text \<open>
  C11: an envelope is stored and read back exactly. The bytes that are accepted as an envelope
  are the canonical bytes of it, and the canonical bytes of a verified envelope are accepted as
  it, as long as they are within the size limit and its body is not the null value. A live
  capsule whose body is \<open>Null\<close> can be sealed and written, and is refused when it is read.
\<close>

theorem canonical_envelope_exact:
  "from_canonical_bytes sha bs = Ok e \<longleftrightarrow>
     canonical_bytes sha e = Ok bs \<and> envelope_ok e \<and> ce_body e \<noteq> Some Null \<and> length bs \<le> MAX_CAPSULE_BYTES"
proof -
  have "from_canonical_bytes sha bs = Ok e \<longleftrightarrow>
      (\<exists>v. encode_value v = Ok bs \<and> value_ok v \<and> length bs \<le> MAX_CAPSULE_BYTES \<and>
        from_value v = Ok e \<and> verify sha e = Ok ())"
    by (auto simp: from_canonical_bytes_def result_simps decode_exact)
  also have "\<dots> \<longleftrightarrow> (\<exists>v. encode_value v = Ok bs \<and> value_ok v \<and> length bs \<le> MAX_CAPSULE_BYTES \<and>
        as_value True e = Ok v \<and> ce_body e \<noteq> Some Null \<and> verify sha e = Ok ())"
    using verify_digests [of sha e] by (auto simp: from_value_iff)
  also have "\<dots> \<longleftrightarrow> canonical_bytes sha e = Ok bs \<and> envelope_ok e \<and> ce_body e \<noteq> Some Null \<and>
      length bs \<le> MAX_CAPSULE_BYTES"
    by (auto simp: canonical_bytes_def result_simps as_value_iff envelope_value_ok simp del: value_ok.simps)
  finally show ?thesis .
qed

section \<open>The history of a record\<close>

text \<open>
  A sealed envelope verifies, and the bytes it hashes are a \<open>Vec<u8>\<close>, which is never longer
  than the address space.
\<close>

definition sealed :: "(string \<Rightarrow> string) \<Rightarrow> capsule_envelope \<Rightarrow> bool" where
  "sealed sha e \<longleftrightarrow> verify sha e = Ok () \<and> envelope_ok e \<and>
     (case integrity_input e of Ok x \<Rightarrow> length x < 2 ^ 64 | Err _ \<Rightarrow> False)"

text \<open>The revisions of a record, newest first, each naming the hash of the one before.\<close>

fun revision_chain :: "(string \<Rightarrow> string) \<Rightarrow> capsule_envelope list \<Rightarrow> bool" where
  "revision_chain sha [] \<longleftrightarrow> False"
| "revision_chain sha [e] \<longleftrightarrow> sealed sha e \<and> ce_previous_integrity e = None"
| "revision_chain sha (e # p # es) \<longleftrightarrow>
     sealed sha e \<and> ce_previous_integrity e = Some (ce_integrity_hash p) \<and> revision_chain sha (p # es)"

text \<open>Two envelopes whose hashed bytes differ and have the same hash.\<close>

definition hash_collision :: "(string \<Rightarrow> string) \<Rightarrow> capsule_envelope \<Rightarrow> capsule_envelope \<Rightarrow> bool" where
  "hash_collision sha a b \<longleftrightarrow>
     (case (integrity_input a, integrity_input b) of
        (Ok x, Ok y) \<Rightarrow> x \<noteq> y \<and> sha x = sha y
      | _ \<Rightarrow> False)"

abbreviation integrity_prefix :: string where
  "integrity_prefix \<equiv> INTEGRITY_DOMAIN @ be_bytes 2 (unat ENCODING_VERSION) @ DIGEST_ALGORITHM @ [char_of (0 :: nat)]"

lemma sealed_input:
  assumes "sealed sha e"
  obtains v x where "as_value False e = Ok v" and "encode_value v = Ok x" and "length x < 2 ^ 64"
    and "integrity_input e = Ok (integrity_prefix @ x)"
    and "dg_bytes (ce_integrity_hash e) = sha (integrity_prefix @ x)"
proof -
  obtain y where y: "integrity_input e = Ok y" "length y < 2 ^ 64"
    using assms by (auto simp: sealed_def split: sum.splits)
  then obtain v x where vx: "as_value False e = Ok v" "encode_value v = Ok x"
    and yx: "y = integrity_prefix @ x"
    by (auto simp: integrity_input_def result_simps)
  have "ce_integrity_hash e = \<lparr>dg_algorithm = DIGEST_ALGORITHM, dg_bytes = sha y\<rparr>"
    using assms y(1) by (auto simp: sealed_def verify_def compute_integrity_def result_simps split: if_splits)
  then have "dg_bytes (ce_integrity_hash e) = sha y" by simp
  with that vx y yx show thesis by simp
qed

lemma encode_value_inject:
  assumes "encode_value v = Ok x" and "encode_value w = Ok x" and "value_ok v" and "value_ok w"
    and "length x < 2 ^ 64"
  shows "v = w"
proof -
  have "reads_as 0 x v" "reads_as 0 x w"
    using assms by (auto simp: encode_value_def validate_value_def result_simps intro!: reads_as_encoded)
  then have "Ok (v, []) = (Ok (w, []) :: (capsule_value \<times> string, capsule_error) result)"
    unfolding reads_as_def by metis
  then show ?thesis by simp
qed

lemma envelope_value_ok_unsealed:
  "envelope_ok e \<Longrightarrow> value_ok (Object (bt_from (envelope_fields False e)))"
  using envelope_value_ok [of e]
  unfolding value_ok_object_from [OF distinct_envelope_fields] by (auto simp: envelope_fields_def)

lemma envelope_fields_sealed:
  "envelope_fields True e = envelope_fields False e @ [(''integrity_hash'', digest_value (ce_integrity_hash e))]"
  by (simp add: envelope_fields_def)

text \<open>Two sealed envelopes with the same value and the same hash are the same.\<close>

lemma sealed_value_inject:
  assumes "sealed sha a" and "sealed sha b" and "as_value False a = Ok v" and "as_value False b = Ok v"
    and "ce_integrity_hash a = ce_integrity_hash b"
  shows "a = b"
proof -
  define plain where "plain e = e\<lparr>ce_body := (if ce_body e = Some Null then None else ce_body e)\<rparr>" for e :: capsule_envelope
  have fields: "envelope_fields c (plain e) = envelope_fields c e" for c e
    by (simp add: envelope_fields_def plain_def option_value_def)
  have read: "from_value (Object (bt_from (envelope_fields True e))) = Ok (plain e)" if "sealed sha e" for e
  proof -
    have e: "envelope_ok e" "verify sha e = Ok ()" using that by (simp_all add: sealed_def)
    have "as_value True e = Ok (Object (bt_from (envelope_fields True e)))"
      using sealed_input [OF that] by (metis as_value_iff)
    then have "as_value True (plain e) = Ok (Object (bt_from (envelope_fields True e)))"
      by (simp add: as_value_iff fields) (simp add: plain_def)
    moreover have "value_ok (Object (bt_from (envelope_fields True e)))" using e(1) envelope_value_ok by blast
    ultimately show ?thesis
      using verify_digests [OF e(2)] by (simp add: from_value_iff del: value_ok.simps) (simp add: plain_def)
  qed
  have "bt_from (envelope_fields False a) = bt_from (envelope_fields False b)"
    using assms(3,4) by (simp add: as_value_iff)
  then have "bt_from (envelope_fields True a) = bt_from (envelope_fields True b)"
    unfolding envelope_fields_sealed bt_insert_from [symmetric] by (simp only: assms(5))
  then have plain: "plain a = plain b" using read [OF assms(1)] read [OF assms(2)] by simp
  have tomb: "ce_tombstone e = (ce_body e = None)" if "sealed sha e" for e
    using that by (auto simp: sealed_def verify_def validate_structure_def invalid_def result_simps split: if_splits)
  have "ce_tombstone (plain a) = ce_tombstone (plain b)" "ce_body (plain a) = ce_body (plain b)"
    by (simp_all only: plain)
  then have "ce_body a = ce_body b"
    using tomb [OF assms(1)] tomb [OF assms(2)] by (auto simp: plain_def split: if_splits)
  with plain show ?thesis by (cases a; cases b) (auto simp: plain_def split: if_splits)
qed

lemma sealed_same_hash:
  assumes "sealed sha a" and "sealed sha b" and "ce_integrity_hash a = ce_integrity_hash b"
  shows "a = b \<or> hash_collision sha a b"
proof -
  obtain v x where a: "as_value False a = Ok v" "encode_value v = Ok x" "length x < 2 ^ 64"
    and ia: "integrity_input a = Ok (integrity_prefix @ x)" "dg_bytes (ce_integrity_hash a) = sha (integrity_prefix @ x)"
    by (rule sealed_input [OF assms(1)])
  obtain w y where b: "as_value False b = Ok w" "encode_value w = Ok y" "length y < 2 ^ 64"
    and ib: "integrity_input b = Ok (integrity_prefix @ y)" "dg_bytes (ce_integrity_hash b) = sha (integrity_prefix @ y)"
    by (rule sealed_input [OF assms(2)])
  show ?thesis
  proof (cases "x = y")
    case True
    have "value_ok v" "value_ok w"
      using a(1) b(1) assms(1,2) envelope_value_ok_unsealed by (auto simp: sealed_def as_value_iff simp del: value_ok.simps)
    then have "v = w" using encode_value_inject a(2,3) b(2) True by blast
    then show ?thesis using sealed_value_inject [OF assms(1,2) a(1)] b(1) assms(3) by blast
  next
    case False
    then show ?thesis using ia ib assms(3) by (simp add: hash_collision_def)
  qed
qed

text \<open>
  C12: the hash of the newest revision fixes the whole history of a record. Two chains of sealed
  revisions whose newest hashes agree are the same chain, or hold two revisions whose hashed
  bytes differ and collide under SHA-256.
\<close>

theorem revision_history_bound:
  assumes "revision_chain sha es" and "revision_chain sha fs"
    and "ce_integrity_hash (hd es) = ce_integrity_hash (hd fs)"
  shows "es = fs \<or> (\<exists>a \<in> set es. \<exists>b \<in> set fs. hash_collision sha a b)"
  using assms
proof (induction sha es arbitrary: fs rule: revision_chain.induct)
  case (2 sha e)
  from 2 obtain f rest where fs: "fs = f # rest" by (cases fs) auto
  have f: "sealed sha f" using 2(2) fs by (cases rest) auto
  consider "e = f" | "hash_collision sha e f"
    using sealed_same_hash [OF _ f, of e] 2 fs by auto
  then show ?case
  proof cases
    case 1
    then show ?thesis using 2 fs by (cases rest) auto
  qed (use fs in auto)
next
  case (3 sha e p es)
  from 3(3) obtain f rest where fs: "fs = f # rest" by (cases fs) auto
  have f: "sealed sha f" using 3(3) fs by (cases rest) auto
  consider "e = f" | "hash_collision sha e f"
    using sealed_same_hash [OF _ f, of e] 3(2,4) fs by auto
  then show ?case
  proof cases
    case 1
    with 3(2,3) fs obtain q rest' where rest: "rest = q # rest'" by (cases rest) auto
    with 1 3(2,3) fs have "revision_chain sha (q # rest')" "ce_integrity_hash p = ce_integrity_hash q"
      by auto
    then have "p # es = rest \<or> (\<exists>a \<in> set (p # es). \<exists>b \<in> set rest. hash_collision sha a b)"
      using 3(1) [of rest] 3(2) rest by simp
    then show ?thesis
    proof
      assume "p # es = rest"
      then show ?thesis using 1 fs by simp
    qed (use fs in auto)
  qed (use fs in auto)
qed simp

text \<open>Two revisions of a note, the second of them its deletion.\<close>

definition sample_hash :: capsule_digest where
  "sample_hash = \<lparr>dg_algorithm = ''sha2-256'', dg_bytes = replicate 32 CHR ''h''\<rparr>"

definition first_revision :: capsule_envelope where
  "first_revision =
     \<lparr>ce_encoding_version = 1, ce_id = 0, ce_kind = ''core.note'', ce_storage_class = ClassCore,
      ce_owner_scope = OwnerGlobal, ce_schema_version = 1, ce_revision = 1,
      ce_created_at_micros = I64 5, ce_updated_at_micros = I64 5, ce_previous_integrity = None,
      ce_integrity_hash = sample_hash, ce_tombstone = False, ce_relationships = [],
      ce_body = Some (Object [(''text'', Text ''hi'')])\<rparr>"

definition second_revision :: capsule_envelope where
  "second_revision =
     first_revision\<lparr>ce_revision := 2, ce_updated_at_micros := I64 9,
       ce_previous_integrity := Some sample_hash, ce_tombstone := True, ce_body := None\<rparr>"

lemmas sample_simps = first_revision_def second_revision_def sample_hash_def envelope_fields_def
  bt_from_def owner_value_def storage_class_value_def digest_value_def option_value_def less_char_def

lemmas encode_simps = encode_value_def validate_value_def validate_value_at.simps MAX_VALUE_DEPTH_def
  MAX_COLLECTION_ITEMS_def encode_text_def encode_head_def initial_byte_def

lemmas structure_simps = validate_structure_def validate_token_def validate_digest_def DIGEST_ALGORITHM_def
  ENCODING_VERSION_def validate_value_def validate_value_at.simps MAX_VALUE_DEPTH_def
  MAX_COLLECTION_ITEMS_def is_ascii_alphanumeric_def is_ascii_digit_def byte_def INTEGRITY_DOMAIN_def
  i64_less_iff envelope_ok_def digest_ok_def utf8_ascii ascii_def

lemma sample_value:
  "as_value False first_revision = Ok (Object (bt_from (envelope_fields False first_revision)))"
  "as_value False second_revision = Ok (Object (bt_from (envelope_fields False second_revision)))"
  by (simp_all only: as_value_iff) (simp_all add: in_i64_def first_revision_def second_revision_def)

lemma sample_encoded:
  "\<exists>x. encode_value (Object (bt_from (envelope_fields False first_revision))) = Ok x \<and> length x < 1000"
  "\<exists>x. encode_value (Object (bt_from (envelope_fields False second_revision))) = Ok x \<and> length x < 1000"
  by (simp_all add: encode_simps sample_simps)

lemma sample_revisions: "revision_chain (\<lambda>_. replicate 32 CHR ''h'') [second_revision, first_revision]"
  using sample_encoded
  by (auto simp: sealed_def integrity_input_def sample_value verify_def compute_integrity_def)
    (simp_all add: structure_simps second_revision_def first_revision_def sample_hash_def)

theorem revision_history_bound_witness:
  "revision_chain (\<lambda>_. replicate 32 CHR ''h'') [second_revision, first_revision] \<and>
   ([second_revision, first_revision] = [second_revision, first_revision] \<or>
    (\<exists>a \<in> set [second_revision, first_revision]. \<exists>b \<in> set [second_revision, first_revision].
       hash_collision (\<lambda>_. replicate 32 CHR ''h'') a b))"
  using revision_history_bound [OF sample_revisions sample_revisions refl] sample_revisions by blast

end
