(* ===== verification/Spec2Isabelle.thy ===== *)
theory Spec2Isabelle
  imports Finance Authentication Grant_Store Coordination_Store Realtime_Log Operations Bootstrap Consensus
    Federation_Store Vmm_History Capsule_Envelope
begin

text \<open>
  A verification library for Aseman, a control plane that hosts workloads on the machines of
  several operators. It models the parts of the program that decide something: who may act,
  which replica acts, what is charged, what is recorded, in which order, and what happens when
  a call fails half way. Every path below is under \<open>src/\<close>.

  \<^bold>\<open>The program.\<close> A node is a set of services over a storage module. The domain crate
  (\<open>crates/aseman-domain\<close>) holds rules with no effects; the application crate
  (\<open>crates/aseman-application\<close>) holds use cases that call ports; the capsule crate
  (\<open>crates/aseman-capsule\<close>) implements the ports on the storage module. A request arrives with
  a signed proof (identity), is decided by the policy evaluator over capability grants
  (authority), and changes workloads through the VMM service, money through the ledger, or
  another cluster through federation. Singleton work is guarded by fenced leases
  (coordination), what happened is told to subscribers through a durable log (realtime),
  financial records are put in one order by a consensus engine, and the administration command
  bootstraps hosts and runs resumable operations.

  \<^bold>\<open>Shared ground.\<close>
  \<^item> \<open>Aseman_Prelude\<close>: results (\<open>Result<T, E>\<close> is a sum, \<open>and_then\<close> is the \<open>?\<close> operator), machine
    integers (words for the unsigned types, a type of its own for \<open>i64\<close> with checked
    operations), strings, and the collections of rewrite rules the proofs use.
  \<^item> \<open>Ordered_Map\<close>: \<open>BTreeMap\<close> as the list of its entries in the order of its keys.
  \<^item> \<open>Contracts\<close>: the contracts several components promise, as locales: counters that refuse to
    wrap, logs that only accept newer records, journals of steps that complete in order.
  \<^item> \<open>Domain_Core\<close>: identities and generations of \<open>aseman-domain/src/lib.rs\<close>.
  \<^item> \<open>Auto_Store\<close>: one transaction per call as \<open>aseman-capsule/src/auto.rs\<close> makes it. A
    transaction may fail, may be lost after it committed, and may conflict and be tried again;
    other writers may run between attempts. \<open>decide\<close> takes at most \<open>MAX_CAS_ATTEMPTS\<close> (8)
    attempts, given as a function from the number of the attempt to what happens in it, so no
    fuel is needed.

  \<^bold>\<open>Capsules.\<close> \<open>Capsule_Format\<close> and \<open>Capsule_Envelope\<close> (\<open>crates/aseman-contracts/src/capsule.rs\<close>):
  the values every store keeps, their deterministic CBOR, and the sealed envelopes that carry
  them. Floats are IEEE 754 bits with the casts of the language written out, objects are
  ordered maps, and the decoder is a mutual recursion that ends because the nesting is bounded
  by \<open>MAX_VALUE_DEPTH\<close> (64) and each collection by its declared length. Decoding accepts exactly
  what encoding wrote, for values and for envelopes, and the hash of a newest revision fixes
  the history before it unless SHA-256, a parameter, collides.

  \<^bold>\<open>Identity.\<close> \<open>Identity\<close> (\<open>aseman-domain/src/identity.rs\<close>: subjects and their texts, key
  epochs, proof windows), \<open>Identity_Wire\<close> (\<open>aseman-contracts/src/identity.rs\<close>: key encodings and
  the canonical signing bytes), \<open>Key_Directory\<close> (\<open>aseman-capsule/src/identity.rs\<close>) and
  \<open>Authentication\<close> (\<open>aseman-application/src/identity.rs\<close>). The lemmas show that encodings are
  injective and parse back, that at most two epochs of a key are accepted at a time, that an
  accepted proof was signed by a live key of the directory, that no proof is accepted twice,
  and that a revoked key never authenticates again. Signature verification and hashing are
  parameters.

  \<^bold>\<open>Authority.\<close> \<open>Capability\<close> (\<open>aseman-domain/src/capability.rs\<close>), \<open>Policy\<close>
  (\<open>aseman-domain/src/authority.rs\<close>, \<open>aseman-application/src/capability.rs\<close>) and \<open>Grant_Store\<close>
  (\<open>aseman-capsule/src/capability.rs\<close>). The evaluator is equivalent to a declarative reading of
  the action registry, delegation never amplifies, the revocation loop computes the closure
  of the revoked grant, and nothing is authorized through a revoked grant afterwards.

  \<^bold>\<open>Money.\<close> \<open>Finance\<close> (\<open>aseman-domain/src/finance.rs\<close>) metering, pricing, holds, settlement,
  refunds and corrections over \<open>i64\<close> with every overflow an error. What is metered is never more
  than what was used, also across restarts of the workload. \<open>Consensus\<close> and \<open>Governance\<close>
  (\<open>aseman-domain/src/consensus.rs\<close>, \<open>modules/consensus/hashgraph/src/provider.rs\<close>,
  \<open>aseman-application/src/consensus.rs\<close>, \<open>modules/consensus/hashgraph/src/governance\<close>): replicas
  given the same blocks agree, the finalized order only extends, the staking ledger is consistent
  and counts a request once, with stakes in bounds while amounts and caps leave room. An election
  counts no honest reveal of another node, which is a defect of the code.
  The gossip engine that orders the blocks is a parameter.

  \<^bold>\<open>Coordination.\<close> \<open>Coordination\<close> and \<open>Coordination_Store\<close> (\<open>aseman-domain/src/coordination.rs\<close>,
  \<open>aseman-capsule/src/coordination.rs\<close>, \<open>aseman-application/src/singleton.rs\<close>): replicas as an
  inductive step relation over a shared table, with stale clocks and lost commits. At most one
  replica holds a live lease, and a fenced destination orders effects by token.

  \<^bold>\<open>Events.\<close> \<open>Realtime\<close> and \<open>Realtime_Log\<close> (\<open>aseman-domain/src/realtime.rs\<close>,
  \<open>aseman-capsule/src/realtime.rs\<close>, the producer of \<open>apps/aseman-node/src/live/topics.rs\<close>): log and
  outbox agree, and a published event reaches the subscriber positioned before it.

  \<^bold>\<open>Administration.\<close> \<open>Resumable\<close>, \<open>Operations\<close> and \<open>Bootstrap\<close> (\<open>aseman-domain/src/operations.rs\<close>,
  \<open>aseman-domain/src/bootstrap.rs\<close>, \<open>apps/asemanctl/src/cli\<close>, \<open>crates/aseman-fs\<close>): drivers that
  may be killed at any point and write a journal. A recorded step is never run again, save
  after a write of an operation's journal tore the file, which costs one more run of its plan;
  the bootstrap replaces its file atomically.

  \<^bold>\<open>Federation.\<close> \<open>Federation\<close> and \<open>Federation_Store\<close> (\<open>aseman-domain/src/federation.rs\<close>,
  \<open>aseman-capsule/src/federation.rs\<close>, \<open>aseman-application/src/federation.rs\<close>): envelopes, the
  directory of descriptors, sending and serving. An envelope is executed at most once, the
  directory implements the domain's rule for accepting descriptors, and what one cluster
  sends the other decides for the subject, action and resource it was sent for, and executes
  if its own policy allows it.

  \<^bold>\<open>Workloads.\<close> \<open>Vmm_Lifecycle\<close> (\<open>aseman-domain/src/vmm.rs\<close>), \<open>Vmm_Service\<close>
  (\<open>aseman-capsule/src/vmm.rs\<close>, \<open>aseman-application/src/vmm.rs\<close>) and \<open>Vmm_History\<close>. A call runs in a
  world of tables, a backend and an environment that decides how transactions end and what
  other replicas do in between; \<open>CAS_ATTEMPTS\<close> is 5 and a page holds 200 records. The two loops
  that follow page cursors are \<open>partial_function (option)\<close>, so that \<open>None\<close> is a call that never
  returns; that every request returns is proved. Records stay well formed and only move
  forward, and with an obliging backend and an undisturbed store two attempts end a lifecycle
  operation: it succeeds, unless it is stale or late.

  \<^bold>\<open>Interfaces.\<close> Each contract is a locale interpreted on the definitions that provide it:
  the envelope guard, the grant store, the key directory, the lease store, the event log, the
  journal driver and the counters. What a component proves of its client rests on the facts of
  the interpretation.

  \<^bold>\<open>Not modelled.\<close> Cryptography, the texts of UUIDs and JSON, clocks and randomness are
  parameters with the behaviour the code relies on as hypotheses. Left out are the hashgraph
  gossip engine, the backends and guest runtimes, network transports, generated clients, the
  command-line front end outside the drivers, configuration and observability, and the
  remaining use cases of the application crate; the storage providers appear through the
  outcome of their transactions.
\<close>

end
